(* ===== verification/Tateyama_Prelude.thy ===== *)
theory Tateyama_Prelude
  imports Main "HOL-Library.Word"
begin

unbundle bit_operations_syntax

text \<open>
  Shared vocabulary of the development: the machine types of the C++ sources, the result
  types that stand for return codes and exceptions, byte copies inside fixed buffers, the
  little-endian layout that \<^verbatim>\<open>memcpy\<close> of an integer gives on the supported machines, and the
  generic lemmas on lists, words and association lists that the component theories use.

  Conventions. A \<^verbatim>\<open>std::size_t\<close>, \<^verbatim>\<open>std::uint64_t\<close> or \<^verbatim>\<open>std::atomic_ulong\<close> is a
  \<open>u64\<close>, with the wrap-around of unsigned arithmetic; narrower unsigned integers are words of
  their width; a \<^verbatim>\<open>std::string\<close> that carries text is a \<open>string\<close> and a byte buffer is a
  list of \<open>u8\<close>.
\<close>

section \<open>Machine types and results\<close>

type_synonym u8 = "8 word"
type_synonym u16 = "16 word"
type_synonym u32 = "32 word"
type_synonym u64 = "64 word"
type_synonym bytes = "u8 list"

named_theorems ring_simps \<open>address arithmetic of the ring buffers\<close>
named_theorems wire_frame \<open>fields an operation on a wire leaves alone\<close>
named_theorems inv_intros \<open>operations that keep a component's invariant\<close>

text \<open>A thrown exception, by its C++ type and its message.\<close>

datatype exn =
    Runtime_Error string
  | Out_Of_Range
  | Invalid_Argument string
  | Bad_Lexical_Cast
  | Std_Abort

type_synonym 'a result = "exn + 'a"

fun bind_result :: "'a result \<Rightarrow> ('a \<Rightarrow> 'b result) \<Rightarrow> 'b result" where
  "bind_result (Inl e) f = Inl e"
| "bind_result (Inr a) f = f a"

lemma bind_result_Inr_iff:
  "bind_result r f = Inr b \<longleftrightarrow> (\<exists>a. r = Inr a \<and> f a = Inr b)"
  by (cases r) auto

lemma bind_result_Inl_iff:
  "bind_result r f = Inl e \<longleftrightarrow> r = Inl e \<or> (\<exists>a. r = Inr a \<and> f a = Inl e)"
  by (cases r) auto

text \<open>\<^verbatim>\<open>std::vector::at\<close>: the element, or \<^verbatim>\<open>std::out_of_range\<close>.\<close>

definition at_checked :: "'a list \<Rightarrow> nat \<Rightarrow> 'a result" where
  "at_checked xs i = (if i < length xs then Inr (xs ! i) else Inl Out_Of_Range)"

definition update_checked :: "'a list \<Rightarrow> nat \<Rightarrow> 'a \<Rightarrow> 'a list result" where
  "update_checked xs i x = (if i < length xs then Inr (xs[i := x]) else Inl Out_Of_Range)"

lemma at_checked_Inr [simp]: "at_checked xs i = Inr x \<longleftrightarrow> i < length xs \<and> xs ! i = x"
  by (auto simp: at_checked_def)

lemma update_checked_Inr [simp]:
  "update_checked xs i x = Inr ys \<longleftrightarrow> i < length xs \<and> ys = xs[i := x]"
  by (auto simp: update_checked_def)

lemma nth_update_if: "xs[i := x] ! j = (if i = j \<and> i < length xs then x else xs ! j)"
  by (cases "i < length xs") (auto simp: nth_list_update list_update_beyond)

section \<open>Copies inside a buffer\<close>

text \<open>
  \<^verbatim>\<open>memcpy(base + off, src, n)\<close> with \<open>n = length src\<close>, the buffer being the list of bytes
  from \<^verbatim>\<open>base\<close>. A copy that runs past the end would change the length of the list; the
  theorems on the wires show that no copy does.
\<close>

definition memcpy_to :: "'a list \<Rightarrow> nat \<Rightarrow> 'a list \<Rightarrow> 'a list" where
  "memcpy_to buf off src = take off buf @ src @ drop (off + length src) buf"

text \<open>\<^verbatim>\<open>memcpy(dst, base + off, n)\<close>: the bytes read.\<close>

definition memcpy_from :: "'a list \<Rightarrow> nat \<Rightarrow> nat \<Rightarrow> 'a list" where
  "memcpy_from buf off n = take n (drop off buf)"

lemma length_memcpy_to:
  "off + length src \<le> length buf \<Longrightarrow> length (memcpy_to buf off src) = length buf"
  by (simp add: memcpy_to_def)

lemma nth_memcpy_to:
  assumes "off + length src \<le> length buf" and "i < length buf"
  shows "memcpy_to buf off src ! i =
    (if off \<le> i \<and> i < off + length src then src ! (i - off) else buf ! i)"
  using assms by (auto simp: memcpy_to_def nth_append min_def)

lemma memcpy_to_Nil [simp]: "memcpy_to buf off [] = buf"
  by (simp add: memcpy_to_def)

lemma length_memcpy_from [simp]:
  "off + n \<le> length buf \<Longrightarrow> length (memcpy_from buf off n) = n"
  by (simp add: memcpy_from_def)

lemma nth_memcpy_from [simp]:
  "off + n \<le> length buf \<Longrightarrow> i < n \<Longrightarrow> memcpy_from buf off n ! i = buf ! (off + i)"
  by (simp add: memcpy_from_def)

section \<open>The byte image of an integer\<close>

text \<open>
  \<^verbatim>\<open>std::memcpy(buffer, &v, sizeof(v))\<close> and its inverse on a little-endian machine. Both
  ends of a wire run on one machine, so the layout itself is never observed; only the round
  trip and the width matter.
\<close>

primrec le_encode :: "nat \<Rightarrow> 'a::len word \<Rightarrow> bytes" where
  "le_encode 0 w = []"
| "le_encode (Suc n) w = ucast w # le_encode n (drop_bit 8 w)"

primrec le_decode :: "bytes \<Rightarrow> 'a::len word" where
  "le_decode [] = 0"
| "le_decode (b # bs) = (ucast b OR push_bit 8 (le_decode bs))"

lemma length_le_encode [simp]: "length (le_encode n w) = n"
  by (induction n arbitrary: w) auto

lemma le_decode_encode_take:
  fixes w :: "'a::len word"
  shows "le_decode (le_encode n w) = take_bit (8 * n) w"
proof (induction n arbitrary: w)
  case 0
  then show ?case by simp
next
  case (Suc n)
  show ?case
    by (rule bit_word_eqI)
      (auto simp: Suc bit_simps not_less less_diff_conv2)
qed

lemma le_decode_encode:
  fixes w :: "'a::len word"
  assumes "LENGTH('a) \<le> 8 * n"
  shows "le_decode (le_encode n w) = w"
proof -
  have "take_bit (8 * n) w = w"
    using assms by (simp add: take_bit_word_eq_self)
  then show ?thesis by (simp add: le_decode_encode_take)
qed

end
