(* ===== verification/Ring_Buffer.thy ===== *)
theory Ring_Buffer
  imports Tateyama_Prelude
begin

text \<open>
  Byte rings, without any of the wires' state: the two-part copies of
  \<^verbatim>\<open>simple_wire::write_in_buffer\<close> and \<^verbatim>\<open>simple_wire::read_from_buffer\<close>, the bytes a ring
  holds from a position on, and what one says about the other. Positions are absolute
  counters; the last section relates them to 64-bit counters that wrap around.
\<close>

section \<open>Two-part copies\<close>

definition ring_write :: "nat \<Rightarrow> 'a list \<Rightarrow> nat \<Rightarrow> 'a list \<Rightarrow> 'a list" where
  "ring_write cap buf dst from =
     (if cap \<ge> dst + length from then memcpy_to buf dst from
      else (let first_part = cap - dst in
        memcpy_to (memcpy_to buf dst (take first_part from)) 0 (drop first_part from)))"

definition ring_read :: "nat \<Rightarrow> 'a list \<Rightarrow> nat \<Rightarrow> nat \<Rightarrow> 'a list" where
  "ring_read cap buf from len =
     (if cap \<ge> from + len then memcpy_from buf from len
      else (let first_part = cap - from in
        memcpy_from buf from first_part @ memcpy_from buf 0 (len - first_part)))"

text \<open>The \<open>n\<close> bytes a ring holds from position \<open>p\<close> on.\<close>

definition ring_view :: "'a list \<Rightarrow> nat \<Rightarrow> nat \<Rightarrow> 'a list" where
  "ring_view buf p n = map (\<lambda>i. buf ! ((p + i) mod length buf)) [0..<n]"

lemma length_ring_view [simp]: "length (ring_view buf p n) = n"
  by (simp add: ring_view_def)

lemma nth_ring_view [simp]: "i < n \<Longrightarrow> ring_view buf p n ! i = buf ! ((p + i) mod length buf)"
  by (simp add: ring_view_def)

lemma ring_view_0 [simp]: "ring_view buf p 0 = []"
  by (simp add: ring_view_def)

lemma ring_view_mod [simp]: "ring_view buf (p mod length buf) n = ring_view buf p n"
  by (rule nth_equalityI) (simp_all add: mod_add_left_eq)

lemma ring_view_split: "ring_view buf p (m + n) = ring_view buf p m @ ring_view buf (p + m) n"
  by (rule nth_equalityI) (auto simp: nth_append add.assoc)

lemma take_ring_view: "k \<le> n \<Longrightarrow> take k (ring_view buf p n) = ring_view buf p k"
  by (rule nth_equalityI) auto

lemma drop_ring_view: "k \<le> n \<Longrightarrow> drop k (ring_view buf p n) = ring_view buf (p + k) (n - k)"
  by (rule nth_equalityI) (auto simp: add.assoc)

lemma slice_ring_view:
  "off + k \<le> n \<Longrightarrow> take k (drop off (ring_view buf p n)) = ring_view buf (p + off) k"
  by (simp add: drop_ring_view take_ring_view)

section \<open>Reading a ring\<close>

lemma mod_wrap: "(a::nat) < n \<Longrightarrow> b < n \<Longrightarrow> (a + b) mod n = (if a + b < n then a + b else a + b - n)"
  by (simp add: mod_if)

lemma ring_read_view:
  assumes "from < length buf" and "len \<le> length buf"
  shows "ring_read (length buf) buf from len = ring_view buf from len"
proof (rule nth_equalityI)
  show "length (ring_read (length buf) buf from len) = length (ring_view buf from len)"
    using assms by (auto simp: ring_read_def Let_def)
  fix i
  assume "i < length (ring_read (length buf) buf from len)"
  then have i: "i < len"
    using assms by (auto simp: ring_read_def Let_def split: if_splits)
  then have "(from + i) mod length buf =
      (if from + i < length buf then from + i else from + i - length buf)"
    using assms by (intro mod_wrap) auto
  then show "ring_read (length buf) buf from len ! i = ring_view buf from len ! i"
    using assms i by (auto simp: ring_read_def Let_def nth_append add.commute)
qed

section \<open>Writing a ring\<close>

lemma length_ring_write:
  assumes "dst < length buf" and "length from \<le> length buf"
  shows "length (ring_write (length buf) buf dst from) = length buf"
  using assms by (auto simp: ring_write_def Let_def length_memcpy_to)

lemma nth_ring_write_in:
  assumes "dst < length buf" and "length from \<le> length buf" and "i < length from"
  shows "ring_write (length buf) buf dst from ! ((dst + i) mod length buf) = from ! i"
proof -
  have idx: "(dst + i) mod length buf =
      (if dst + i < length buf then dst + i else dst + i - length buf)"
    using assms by (intro mod_wrap) auto
  show ?thesis
  proof (cases "dst + length from \<le> length buf")
    case True
    then show ?thesis using assms idx by (simp add: ring_write_def nth_memcpy_to)
  next
    case False
    then show ?thesis using assms idx
      by (auto simp: ring_write_def Let_def nth_memcpy_to length_memcpy_to)
  qed
qed

lemma nth_ring_write_out:
  assumes "dst < length buf" and "length from \<le> length buf" and "j < length buf"
    and "\<And>i. i < length from \<Longrightarrow> (dst + i) mod length buf \<noteq> j"
  shows "ring_write (length buf) buf dst from ! j = buf ! j"
proof (cases "dst + length from \<le> length buf")
  case True
  have "\<not> (dst \<le> j \<and> j < dst + length from)"
  proof
    assume j: "dst \<le> j \<and> j < dst + length from"
    then have "(dst + (j - dst)) mod length buf = j" using assms(3) by simp
    moreover have "j - dst < length from" using j by arith
    ultimately show False using assms(4) by blast
  qed
  then show ?thesis using True assms(3) by (auto simp: ring_write_def nth_memcpy_to)
next
  case False
  have high: "\<not> dst \<le> j"
  proof
    assume j: "dst \<le> j"
    then have "(dst + (j - dst)) mod length buf = j" using assms(3) by simp
    moreover have "j - dst < length from" using j False assms(3) by arith
    ultimately show False using assms(4) by blast
  qed
  have low: "\<not> j < dst + length from - length buf"
  proof
    assume j: "j < dst + length from - length buf"
    then have "(dst + (length buf - dst + j)) mod length buf = j"
      using assms(1,3) by simp
    moreover have "length buf - dst + j < length from" using j False assms(1) by arith
    ultimately show False using assms(4) by blast
  qed
  show ?thesis using False high low assms(1-3)
    by (auto simp: ring_write_def Let_def nth_memcpy_to length_memcpy_to)
qed

lemma mod_add_inj:
  assumes "(p + i) mod n = (p + j) mod n" and "i < n" and "j < (n::nat)"
  shows "i = j"
proof (cases "i \<le> j")
  case True
  then have "n dvd (p + j) - (p + i)"
    using assms(1) by (metis add_le_cancel_left mod_eq_dvd_iff_nat)
  then have "n dvd j - i" by simp
  moreover have "j - i < n" using assms(3) by arith
  ultimately show ?thesis using True by (auto dest: dvd_imp_le)
next
  case False
  then have "n dvd (p + i) - (p + j)"
    using assms(1) by (metis add_le_cancel_left mod_eq_dvd_iff_nat nat_le_linear)
  then have "n dvd i - j" by simp
  moreover have "i - j < n" using assms(2) by arith
  ultimately show ?thesis using False by (auto dest: dvd_imp_le)
qed

text \<open>
  Writing inside what is viewed replaces those bytes and no others; writing behind the stored
  bytes appends to them, as long as the ring has the room.
\<close>

lemma ring_view_overwrite:
  assumes "0 < length buf" and "n \<le> length buf" and "off + length from \<le> n"
  shows "ring_view (ring_write (length buf) buf ((p + off) mod length buf) from) p n =
    take off (ring_view buf p n) @ from @ drop (off + length from) (ring_view buf p n)"
    (is "ring_view ?buf' p _ = ?rhs")
proof (rule nth_equalityI)
  have dst: "(p + off) mod length buf < length buf" using assms(1) by simp
  have len: "length ?buf' = length buf"
    using length_ring_write [OF dst] assms(2,3) by simp
  show "length (ring_view ?buf' p n) = length ?rhs"
    using assms(3) by simp
  fix i
  assume "i < length (ring_view ?buf' p n)"
  then have i: "i < n" by simp
  show "ring_view ?buf' p n ! i = ?rhs ! i"
  proof (cases "off \<le> i \<and> i < off + length from")
    case False
    have "?buf' ! ((p + i) mod length buf) = buf ! ((p + i) mod length buf)"
    proof (rule nth_ring_write_out [OF dst])
      fix k
      assume "k < length from"
      then have "off + k < length buf" and "i < length buf" and "off + k \<noteq> i"
        using False i assms(2,3) by auto
      then have "(p + (off + k)) mod length buf \<noteq> (p + i) mod length buf"
        using mod_add_inj by blast
      then show "((p + off) mod length buf + k) mod length buf \<noteq> (p + i) mod length buf"
        by (simp add: mod_add_left_eq add.assoc)
    qed (use assms in auto)
    then show ?thesis using False i len assms(3) by (auto simp: nth_append)
  next
    case True
    then obtain k where k: "i = off + k" "k < length from"
      by (metis add_less_cancel_left le_add_diff_inverse)
    have "?buf' ! (((p + off) mod length buf + k) mod length buf) = from ! k"
      using nth_ring_write_in [OF dst, of "from" k] assms(2,3) k(2) by simp
    then have "?buf' ! ((p + i) mod length buf) = from ! k"
      by (simp add: mod_add_left_eq k(1) add.assoc)
    then show ?thesis using True i len k assms(3) by (simp add: nth_append)
  qed
qed

lemma ring_view_write:
  assumes "0 < length buf" and "n + length from \<le> length buf"
  shows "ring_view (ring_write (length buf) buf ((p + n) mod length buf) from) p (n + length from) =
    ring_view buf p n @ from"
  using ring_view_overwrite [of buf "n + length from" n "from" p] assms by (simp add: take_ring_view)

section \<open>Counters of 64 bits\<close>

text \<open>
  The push and pop counters are 64-bit and only grow, so they wrap around in principle. An
  index computed after a wrap-around is the right one when the capacity divides \<open>2 ^ 64\<close>;
  otherwise the counters have to stay below \<open>2 ^ 64\<close>.
\<close>

definition wrap_free :: "nat \<Rightarrow> nat \<Rightarrow> nat \<Rightarrow> bool" where
  "wrap_free cap p n \<longleftrightarrow> cap dvd 2 ^ 64 \<or> p + n < 2 ^ 64"

lemma unat_plus_index:
  fixes p d :: u64
  assumes "wrap_free cap (unat p) (unat d)"
  shows "unat (p + d) mod cap = (unat p + unat d) mod cap"
proof -
  have eq: "unat (p + d) = (unat p + unat d) mod 2 ^ 64"
    by (simp add: unat_word_ariths)
  show ?thesis
  proof (cases "cap dvd 2 ^ 64")
    case True
    then show ?thesis by (simp only: eq mod_mod_cancel)
  next
    case False
    then have "unat p + unat d < 2 ^ 64"
      using assms by (simp add: wrap_free_def)
    then show ?thesis by (simp only: eq mod_less)
  qed
qed

lemma unat_lt_u64: "unat (x :: u64) < 2 ^ 64"
  by (rule order.strict_trans2 [OF unsigned_less]) simp

lemma wrap_free_mono: "wrap_free cap p n \<Longrightarrow> m \<le> n \<Longrightarrow> wrap_free cap p m"
  by (auto simp: wrap_free_def)

lemma unat_of_nat_u64 [simp]: "n < 2 ^ 64 \<Longrightarrow> unat (of_nat n :: u64) = n"
  by (simp add: unat_of_nat take_bit_nat_eq_self)

end
