(* ===== verification/Wire_Headers.thy ===== *)
theory Wire_Headers
  imports Tateyama_Prelude
begin

text \<open>
  The three message headers of \<^verbatim>\<open>endpoint/ipc/wire.h\<close>: \<open>message_header\<close> (requests),
  \<open>response_header\<close> (responses) and \<open>length_header\<close> (result-set records). Each class is a
  record of its integer members, with the byte image \<^verbatim>\<open>get_buffer()\<close> produces and the
  constructor that reads it back. The wires are templates over the header class; the template
  parameter \<open>T\<close> is the record \<open>header_class\<close> of the four members the templates use, and the
  locale \<open>wire_header\<close> states what the templates rely on.
\<close>

section \<open>The headers\<close>

record message_header =
  mh_idx :: u16
  mh_length :: u32

definition message_header_size :: nat where
  "message_header_size = 4 + 2"

definition terminate_request :: u16 where
  "terminate_request = 0xffff"

definition message_header_get_buffer :: "message_header \<Rightarrow> bytes" where
  "message_header_get_buffer h = le_encode 2 (mh_idx h) @ le_encode 4 (mh_length h)"

definition message_header_of :: "bytes \<Rightarrow> message_header" where
  "message_header_of buffer =
     \<lparr>mh_idx = le_decode (memcpy_from buffer 0 2),
      mh_length = le_decode (memcpy_from buffer 2 4)\<rparr>"

record response_header =
  rh_idx :: u16
  rh_type :: u16
  rh_length :: u32

definition response_header_size :: nat where
  "response_header_size = 4 + 2 + 2"

definition response_header_get_buffer :: "response_header \<Rightarrow> bytes" where
  "response_header_get_buffer h =
     le_encode 2 (rh_idx h) @ le_encode 2 (rh_type h) @ le_encode 4 (rh_length h)"

definition response_header_of :: "bytes \<Rightarrow> response_header" where
  "response_header_of buffer =
     \<lparr>rh_idx = le_decode (memcpy_from buffer 0 2),
      rh_type = le_decode (memcpy_from buffer 2 2),
      rh_length = le_decode (memcpy_from buffer (2 + 2) 4)\<rparr>"

record length_header =
  lh_length :: u32

definition length_header_size :: nat where
  "length_header_size = 4"

text \<open>The constructor from \<^verbatim>\<open>std::size_t\<close> keeps the low 32 bits.\<close>

definition length_header_from_size :: "u64 \<Rightarrow> length_header" where
  "length_header_from_size n = \<lparr>lh_length = ucast n\<rparr>"

definition length_header_get_buffer :: "length_header \<Rightarrow> bytes" where
  "length_header_get_buffer h = le_encode 4 (lh_length h)"

definition length_header_of :: "bytes \<Rightarrow> length_header" where
  "length_header_of buffer = \<lparr>lh_length = le_decode (memcpy_from buffer 0 4)\<rparr>"

section \<open>What the wire templates use of a header\<close>

record 'h header_class =
  hsize :: nat
  hlength :: "'h \<Rightarrow> u32"
  hbuffer :: "'h \<Rightarrow> bytes"
  hof :: "bytes \<Rightarrow> 'h"

definition message_header_class :: "message_header header_class" where
  "message_header_class =
     \<lparr>hsize = message_header_size, hlength = mh_length,
      hbuffer = message_header_get_buffer, hof = message_header_of\<rparr>"

definition response_header_class :: "response_header header_class" where
  "response_header_class =
     \<lparr>hsize = response_header_size, hlength = rh_length,
      hbuffer = response_header_get_buffer, hof = response_header_of\<rparr>"

definition length_header_class :: "length_header header_class" where
  "length_header_class =
     \<lparr>hsize = length_header_size, hlength = lh_length,
      hbuffer = length_header_get_buffer, hof = length_header_of\<rparr>"

locale wire_header =
  fixes T :: "'h header_class"
  assumes size_bounds: "0 < hsize T" "hsize T \<le> 8"
    and length_buffer: "length (hbuffer T h) = hsize T"
    and of_buffer: "hof T (hbuffer T h @ rest) = h"
begin

lemma of_buffer_exact: "hof T (hbuffer T h) = h"
  using of_buffer [of h "[]"] by simp

lemma buffer_inj: "hbuffer T h @ xs = hbuffer T k @ ys \<Longrightarrow> h = k \<and> xs = ys"
  by (metis append_eq_append_conv length_buffer of_buffer)

lemma buffer_not_Nil: "hbuffer T h \<noteq> []"
  using size_bounds(1) length_buffer [of h] by force

text \<open>A header is read back from the first \<open>hsize\<close> bytes, wherever they come from.\<close>

lemma of_take: "take (hsize T) bs = hbuffer T h \<Longrightarrow> hof T bs = h"
  by (metis append_take_drop_id of_buffer)

end

section \<open>The three classes meet the interface\<close>

lemma memcpy_from_append1:
  "length xs = n \<Longrightarrow> memcpy_from (xs @ ys) 0 n = xs"
  by (simp add: memcpy_from_def)

lemma memcpy_from_append2:
  "length xs = off \<Longrightarrow> length ys = n \<Longrightarrow> memcpy_from (xs @ ys @ zs) off n = ys"
  by (simp add: memcpy_from_def)

lemma memcpy_from_append3:
  "length xs + length ys = off \<Longrightarrow> length zs = n \<Longrightarrow> memcpy_from (xs @ ys @ zs @ us) off n = zs"
  by (auto simp: memcpy_from_def)

lemmas memcpy_from_appends = memcpy_from_append1 memcpy_from_append2 memcpy_from_append3

interpretation mh: wire_header message_header_class
  by unfold_locales
    (simp_all add: message_header_class_def message_header_size_def
      message_header_get_buffer_def message_header_of_def memcpy_from_appends le_decode_encode)

interpretation rh: wire_header response_header_class
  by unfold_locales
    (simp_all add: response_header_class_def response_header_size_def
      response_header_get_buffer_def response_header_of_def memcpy_from_appends le_decode_encode)

interpretation lh: wire_header length_header_class
  by unfold_locales
    (simp_all add: length_header_class_def length_header_size_def
      length_header_get_buffer_def length_header_of_def memcpy_from_appends le_decode_encode)

end
