(* ===== verification/Simple_Wire.thy ===== *)
theory Simple_Wire
  imports Ring_Buffer Wire_Headers
begin

text \<open>
  The class template \<^verbatim>\<open>simple_wire<T>\<close> of \<^verbatim>\<open>endpoint/ipc/wire.h\<close>: a byte ring in shared
  memory through which one writer sends messages, each behind a header of class \<open>T\<close>, to one
  reader. The record has the members of the class; the memory behind \<open>buffer_handle\<close> is the
  field \<open>buffer\<close>, and an address inside it is the offset from \<^verbatim>\<open>base\<close>. The derived wires
  extend the record as the classes derive.

  \<^verbatim>\<open>write\<close> and \<^verbatim>\<open>read\<close> move a message in chunks and wait between them. Each chunk is one
  definition (\<open>write_head\<close>, \<open>write_body\<close>, \<open>read_head\<close>, \<open>read_body\<close>), the whole calls
  compose them, and the theory of transfers lets the two sides interleave.
\<close>

section \<open>State\<close>

record 'h simple_wire =
  buffer_handle :: u64
  capacity :: u64
  pushed :: u64
  poped :: u64
  wait_for_write :: bool
  wait_for_read :: bool
  header_received :: 'h
  need_dispose :: u64
  copy_of_payload :: "bytes option"
  buffer :: bytes

section \<open>Addresses and sizes\<close>

definition stored :: "('h, 'z) simple_wire_scheme \<Rightarrow> u64" where
  "stored w = pushed w - poped w"

definition room :: "('h, 'z) simple_wire_scheme \<Rightarrow> u64" where
  "room w = capacity w - stored w"

definition index :: "('h, 'z) simple_wire_scheme \<Rightarrow> u64 \<Rightarrow> u64" where
  "index w n = n mod capacity w"

definition max_payload_length :: "'h header_class \<Rightarrow> ('h, 'z) simple_wire_scheme \<Rightarrow> u64" where
  "max_payload_length T w = capacity w - of_nat (hsize T)"

definition min_size :: "u64 \<Rightarrow> u64 \<Rightarrow> u64" where
  "min_size a b = (if a > b then b else a)"

definition buffer_address :: "('h, 'z) simple_wire_scheme \<Rightarrow> u64 \<Rightarrow> nat" where
  "buffer_address w n = unat (index w n)"

definition read_address :: "('h, 'z) simple_wire_scheme \<Rightarrow> u64 \<Rightarrow> nat" where
  "read_address w offset = unat (index w (poped w + offset))"

definition write_in_buffer ::
    "('h, 'z) simple_wire_scheme \<Rightarrow> nat \<Rightarrow> bytes \<Rightarrow> ('h, 'z) simple_wire_scheme" where
  "write_in_buffer w dst from =
     w\<lparr>buffer := ring_write (unat (capacity w)) (buffer w) dst from\<rparr>"

definition read_from_buffer :: "('h, 'z) simple_wire_scheme \<Rightarrow> nat \<Rightarrow> nat \<Rightarrow> bytes" where
  "read_from_buffer w from len = ring_read (unat (capacity w)) (buffer w) from len"

definition copy_header ::
    "'h header_class \<Rightarrow> ('h, 'z) simple_wire_scheme \<Rightarrow> ('h, 'z) simple_wire_scheme" where
  "copy_header T w =
     (let ra = read_address w 0; cap = unat (capacity w) in
      if cap \<ge> ra + hsize T
      then w\<lparr>header_received := hof T (drop ra (buffer w))\<rparr>
      else (let first_part = cap - unat (index w (poped w)) in
        w\<lparr>header_received := hof T (memcpy_from (buffer w) ra first_part @
             memcpy_from (buffer w) 0 (hsize T - first_part))\<rparr>))"

section \<open>Writing a message\<close>

text \<open>
  The first chunk carries the header; \<open>length\<close> counts header and payload, and the result is
  the wire, what is left to write and where it starts.
\<close>

definition write_length :: "'h header_class \<Rightarrow> 'h \<Rightarrow> u64" where
  "write_length T header = ucast (hlength T header) + of_nat (hsize T)"

definition write_head ::
    "'h header_class \<Rightarrow> ('h, 'z) simple_wire_scheme \<Rightarrow> 'h \<Rightarrow> bytes \<Rightarrow>
     ('h, 'z) simple_wire_scheme \<times> u64 \<times> bytes" where
  "write_head T w header from =
     (let len = write_length T header;
          msg_length = min_size len (capacity w);
          w1 = write_in_buffer w (buffer_address w (pushed w)) (hbuffer T header);
          w2 = (if msg_length > of_nat (hsize T)
                then write_in_buffer w1 (buffer_address w1 (pushed w1 + of_nat (hsize T)))
                       (take (unat (msg_length - of_nat (hsize T))) from)
                else w1)
      in (w2\<lparr>pushed := pushed w2 + msg_length\<rparr>, len - msg_length,
          drop (unat (msg_length - of_nat (hsize T))) from))"

definition write_body ::
    "('h, 'z) simple_wire_scheme \<Rightarrow> u64 \<Rightarrow> bytes \<Rightarrow> ('h, 'z) simple_wire_scheme \<times> u64 \<times> bytes" where
  "write_body w len from =
     (let msg_length = min_size len (capacity w);
          w1 = write_in_buffer w (buffer_address w (pushed w)) (take (unat msg_length) from)
      in (w1\<lparr>pushed := pushed w1 + msg_length\<rparr>, len - msg_length, drop (unat msg_length) from))"

text \<open>
  Outcome of a call as far as the caller can take it alone: it returned, it returned early
  because the wire is closed, or it waits in \<^verbatim>\<open>wait_to_write\<close> for that much room, either
  before the header or with so much left to write.
\<close>

datatype 'w write_outcome =
    Written 'w
  | Write_Closed 'w
  | Waiting_Head 'w
  | Waiting_Body 'w u64 bytes

definition write_must_wait :: "('h, 'z) simple_wire_scheme \<Rightarrow> u64 \<Rightarrow> bool \<Rightarrow> bool" where
  "write_must_wait w msg_length closed \<longleftrightarrow> msg_length > room w \<and> \<not> closed"

text \<open>The predicate \<^verbatim>\<open>wait_to_write\<close> waits for.\<close>

definition wait_to_write_over :: "('h, 'z) simple_wire_scheme \<Rightarrow> u64 \<Rightarrow> bool \<Rightarrow> bool" where
  "wait_to_write_over w len closed \<longleftrightarrow> room w \<ge> len \<or> closed"

partial_function (option) write_loop ::
    "bool \<Rightarrow> ('h, 'z) simple_wire_scheme \<Rightarrow> u64 \<Rightarrow> bytes \<Rightarrow>
     ('h, 'z) simple_wire_scheme write_outcome option" where
  "write_loop closed w len from =
     (if len = 0 then Some (Written w)
      else if write_must_wait w (min_size len (capacity w)) closed
      then Some (Waiting_Body (w\<lparr>wait_for_write := True\<rparr>) len from)
      else if closed then Some (Write_Closed w)
      else (case write_body w len from of (w', len', from') \<Rightarrow> write_loop closed w' len' from'))"

definition wire_write ::
    "'h header_class \<Rightarrow> ('h, 'z) simple_wire_scheme \<Rightarrow> bytes \<Rightarrow> 'h \<Rightarrow> bool \<Rightarrow>
     ('h, 'z) simple_wire_scheme write_outcome option" where
  "wire_write T w from header closed =
     (if write_must_wait w (min_size (write_length T header) (capacity w)) closed
      then Some (Waiting_Head (w\<lparr>wait_for_write := True\<rparr>))
      else if closed then Some (Write_Closed w)
      else (case write_head T w header from of (w', len', from') \<Rightarrow> write_loop closed w' len' from'))"

section \<open>Reading a message\<close>

definition read_head ::
    "'h header_class \<Rightarrow> ('h, 'z) simple_wire_scheme \<Rightarrow> ('h, 'z) simple_wire_scheme \<times> bytes \<times> u64" where
  "read_head T w =
     (let len = ucast (hlength T (header_received w));
          msg_length = min_size len (max_payload_length T w);
          data = read_from_buffer w (read_address w (of_nat (hsize T))) (unat msg_length)
      in (w\<lparr>poped := poped w + (of_nat (hsize T) + msg_length)\<rparr>, data, len - msg_length))"

definition read_body ::
    "('h, 'z) simple_wire_scheme \<Rightarrow> u64 \<Rightarrow> ('h, 'z) simple_wire_scheme \<times> bytes \<times> u64" where
  "read_body w len =
     (let msg_length = min_size len (capacity w);
          data = read_from_buffer w (read_address w 0) (unat msg_length)
      in (w\<lparr>poped := poped w + msg_length\<rparr>, data, len - msg_length))"

definition read_must_wait :: "('h, 'z) simple_wire_scheme \<Rightarrow> u64 \<Rightarrow> bool" where
  "read_must_wait w msg_length \<longleftrightarrow> \<not> stored w \<ge> msg_length"

datatype 'w read_outcome =
    Got 'w bytes
  | Waiting_Data 'w u64 bytes

partial_function (option) read_loop ::
    "('h, 'z) simple_wire_scheme \<Rightarrow> u64 \<Rightarrow> bytes \<Rightarrow> ('h, 'z) simple_wire_scheme read_outcome option" where
  "read_loop w len acc =
     (if len = 0 then Some (Got w acc)
      else if read_must_wait w (min_size len (capacity w))
      then Some (Waiting_Data (w\<lparr>wait_for_read := True\<rparr>) len acc)
      else (case read_body w len of (w', data, len') \<Rightarrow> read_loop w' len' (acc @ data)))"

definition wire_read ::
    "'h header_class \<Rightarrow> ('h, 'z) simple_wire_scheme \<Rightarrow> ('h, 'z) simple_wire_scheme read_outcome option" where
  "wire_read T w = (case read_head T w of (w', data, len') \<Rightarrow> read_loop w' len' data)"

text \<open>
  \<^verbatim>\<open>payload\<close> gives a view of the message in place where it does not wrap around and reads it
  into \<open>copy_of_payload\<close> otherwise; \<^verbatim>\<open>dispose\<close> releases it. The test compares two indices, so
  that a message at least as long as the ring may pass it; the view then reaches beyond the ring,
  where the model has no bytes: \<^const>\<open>memcpy_from\<close> ends with the buffer. The theorems use it for
  messages that are completely in the ring.
\<close>

definition wire_payload ::
    "'h header_class \<Rightarrow> ('h, 'z) simple_wire_scheme \<Rightarrow> ('h, 'z) simple_wire_scheme read_outcome option" where
  "wire_payload T w =
     (let len = ucast (hlength T (header_received w)) :: u64; sz = of_nat (hsize T) in
      if index w (poped w + sz) < index w (poped w + sz + len)
      then Some (Got (w\<lparr>need_dispose := sz + len\<rparr>)
                   (memcpy_from (buffer w) (read_address w sz) (unat len)))
      else (case wire_read T w of
          Some (Got w' data) \<Rightarrow> Some (Got (w'\<lparr>copy_of_payload := Some data\<rparr>) data)
        | r \<Rightarrow> r))"

definition wire_dispose :: "('h, 'z) simple_wire_scheme \<Rightarrow> ('h, 'z) simple_wire_scheme" where
  "wire_dispose w =
     (let w1 = (if need_dispose w > 0
                then w\<lparr>poped := poped w + need_dispose w, need_dispose := 0\<rparr> else w)
      in w1\<lparr>copy_of_payload := None\<rparr>)"

definition read_point :: "('h, 'z) simple_wire_scheme \<Rightarrow> u64" where
  "read_point w = poped w"

text \<open>The constructor, given the memory the segment manager returned.\<close>

definition new_simple_wire :: "'h \<Rightarrow> u64 \<Rightarrow> u64 \<Rightarrow> bytes \<Rightarrow> 'h simple_wire" where
  "new_simple_wire h0 handle cap mem =
     \<lparr>buffer_handle = handle, capacity = cap, pushed = 0, poped = 0,
      wait_for_write = False, wait_for_read = False, header_received = h0,
      need_dispose = 0, copy_of_payload = None, buffer = mem\<rparr>"

section \<open>The bytes in the ring\<close>

definition content :: "('h, 'z) simple_wire_scheme \<Rightarrow> bytes" where
  "content w = ring_view (buffer w) (unat (poped w)) (unat (stored w))"

definition wire_inv :: "('h, 'z) simple_wire_scheme \<Rightarrow> bool" where
  "wire_inv w \<longleftrightarrow> 0 < unat (capacity w) \<and> length (buffer w) = unat (capacity w) \<and>
     unat (stored w) \<le> unat (capacity w) \<and>
     wrap_free (unat (capacity w)) (unat (poped w)) (unat (capacity w))"

lemma wire_invD:
  assumes "wire_inv w"
  shows "0 < unat (capacity w)" "length (buffer w) = unat (capacity w)"
    "unat (stored w) \<le> unat (capacity w)"
    "wrap_free (unat (capacity w)) (unat (poped w)) (unat (capacity w))"
  using assms by (auto simp: wire_inv_def)

lemma length_content [simp]: "length (content w) = unat (stored w)"
  by (simp add: content_def)

lemma unat_min_size [ring_simps]: "unat (min_size a b) = min (unat a) (unat b)"
  by (simp add: min_size_def min_def word_le_nat_alt not_le word_less_nat_alt)

lemma unat_room [ring_simps]: "wire_inv w \<Longrightarrow> unat (room w) = unat (capacity w) - unat (stored w)"
  by (simp add: room_def wire_inv_def unat_sub word_le_nat_alt)

lemma unat_index: "unat (index w n) = unat n mod unat (capacity w)"
  by (simp add: index_def unat_mod)

lemma pushed_eq: "pushed w = poped w + stored w"
  by (simp add: stored_def)

lemma unat_add_of_nat:
  fixes x :: u64
  assumes "unat x + n \<le> unat (y::u64)"
  shows "unat (x + of_nat n) = unat x + n"
proof -
  have "unat x + n < 2 ^ 64"
    using assms unat_lt_u64 [of y] by simp
  then have "unat (of_nat n :: u64) = n" and "unat x + unat (of_nat n :: u64) < 2 ^ 64"
    by simp_all
  then show ?thesis by (simp add: unat_word_ariths)
qed

lemma read_address_eq:
  assumes "wire_inv w" and "unat off \<le> unat (capacity w)"
  shows "read_address w off = (unat (poped w) + unat off) mod length (buffer w)"
proof -
  have "wrap_free (unat (capacity w)) (unat (poped w)) (unat off)"
    using wire_invD(4) [OF assms(1)] assms(2) by (rule wrap_free_mono)
  then show ?thesis
    using wire_invD(2) [OF assms(1)]
    by (simp add: read_address_def unat_index unat_plus_index)
qed

lemma buffer_address_eq:
  assumes "wire_inv w" and "unat (stored w) + off \<le> unat (capacity w)"
  shows "buffer_address w (pushed w + of_nat off) =
    (unat (poped w) + (unat (stored w) + off)) mod length (buffer w)"
proof -
  have u: "unat (stored w + of_nat off) = unat (stored w) + off"
    using assms(2) by (rule unat_add_of_nat)
  have "wrap_free (unat (capacity w)) (unat (poped w)) (unat (stored w + of_nat off))"
    using wire_invD(4) [OF assms(1)] assms(2) u by (auto intro: wrap_free_mono)
  then have "unat (poped w + (stored w + of_nat off)) mod unat (capacity w) =
      (unat (poped w) + (unat (stored w) + off)) mod unat (capacity w)"
    by (simp only: unat_plus_index u)
  moreover have "pushed w + of_nat off = poped w + (stored w + of_nat off)"
    by (simp add: stored_def)
  ultimately show ?thesis
    by (simp only: buffer_address_def unat_index wire_invD(2) [OF assms(1)])
qed

section \<open>Pushing and popping bytes\<close>

lemma write_in_buffer_frame [wire_frame, simp]:
  "capacity (write_in_buffer w d bs) = capacity w"
  "pushed (write_in_buffer w d bs) = pushed w"
  "poped (write_in_buffer w d bs) = poped w"
  "header_received (write_in_buffer w d bs) = header_received w"
  "wait_for_read (write_in_buffer w d bs) = wait_for_read w"
  "wait_for_write (write_in_buffer w d bs) = wait_for_write w"
  "stored (write_in_buffer w d bs) = stored w"
  "index (write_in_buffer w d bs) n = index w n"
  "buffer_address (write_in_buffer w d bs) n = buffer_address w n"
  "simple_wire.more (write_in_buffer w d bs) = simple_wire.more w"
  by (simp_all add: write_in_buffer_def stored_def index_def buffer_address_def)

lemma write_in_buffer_view:
  fixes w :: "('h, 'z) simple_wire_scheme" and bs :: bytes
  assumes "wire_inv w" and "unat (stored w) + off + length bs \<le> unat (capacity w)"
  defines "w' \<equiv> write_in_buffer w (buffer_address w (pushed w + of_nat off)) bs"
  shows "length (buffer w') = unat (capacity w)"
    and "ring_view (buffer w') (unat (poped w)) (unat (stored w) + off + length bs) =
      ring_view (buffer w) (unat (poped w)) (unat (stored w) + off) @ bs"
proof -
  have len: "length (buffer w) = unat (capacity w)" and pos: "0 < length (buffer w)"
    using wire_invD [OF assms(1)] by auto
  have addr: "buffer_address w (pushed w + of_nat off) =
      (unat (poped w) + (unat (stored w) + off)) mod length (buffer w)"
    using assms(1,2) by (intro buffer_address_eq) auto
  have b: "buffer w' = ring_write (length (buffer w)) (buffer w)
      ((unat (poped w) + (unat (stored w) + off)) mod length (buffer w)) bs"
    by (simp add: w'_def write_in_buffer_def addr len)
  show "length (buffer w') = unat (capacity w)"
    unfolding b using pos assms(2) len by (subst length_ring_write) auto
  show "ring_view (buffer w') (unat (poped w)) (unat (stored w) + off + length bs) =
      ring_view (buffer w) (unat (poped w)) (unat (stored w) + off) @ bs"
    unfolding b using pos assms(2) len by (intro ring_view_write) auto
qed

text \<open>A wire whose ring shows \<open>n\<close> more bytes, once the counter says so.\<close>

lemma push_bytes:
  fixes w :: "('h, 'z) simple_wire_scheme" and w' :: "('h2, 'z2) simple_wire_scheme"
  assumes "wire_inv w" and "unat (stored w) + n \<le> unat (capacity w)"
    and "length (buffer w') = unat (capacity w)"
    and "ring_view (buffer w') (unat (poped w)) (unat (stored w) + n) = content w @ bs"
    and "capacity w' = capacity w" "poped w' = poped w" "pushed w' = pushed w + of_nat n"
  shows "wire_inv w' \<and> content w' = content w @ bs \<and> unat (stored w') = unat (stored w) + n"
proof -
  have "stored w' = stored w + of_nat n"
    using assms(6,7) by (simp add: stored_def)
  then have s: "unat (stored w') = unat (stored w) + n"
    using unat_add_of_nat [OF assms(2)] by simp
  then show ?thesis
    using assms by (auto simp: wire_inv_def content_def)
qed

lemma read_from_buffer_eq:
  assumes "wire_inv w" and "unat off + n \<le> unat (stored w)"
  shows "read_from_buffer w (read_address w off) n = take n (drop (unat off) (content w))"
proof -
  have len: "length (buffer w) = unat (capacity w)" and pos: "0 < unat (capacity w)"
    and st: "unat (stored w) \<le> unat (capacity w)"
    using wire_invD [OF assms(1)] by auto
  have "read_address w off = (unat (poped w) + unat off) mod length (buffer w)"
    using assms st by (intro read_address_eq) auto
  then have "read_from_buffer w (read_address w off) n =
      ring_view (buffer w) ((unat (poped w) + unat off) mod length (buffer w)) n"
    using ring_read_view [of "(unat (poped w) + unat off) mod length (buffer w)" "buffer w" n]
      len pos st assms(2)
    by (simp add: read_from_buffer_def del: ring_view_mod)
  then show ?thesis
    using assms(2) by (simp add: content_def slice_ring_view)
qed

lemma pop_bytes:
  fixes w :: "('h, 'z) simple_wire_scheme" and w' :: "('h2, 'z2) simple_wire_scheme"
  assumes "wire_inv w" and "unat n \<le> unat (stored w)"
    and "buffer w' = buffer w" "capacity w' = capacity w" "pushed w' = pushed w"
    and "poped w' = poped w + n"
  shows "unat (stored w') = unat (stored w) - unat n"
    and "content w' = drop (unat n) (content w)"
    and "unat (capacity w) dvd 2 ^ 64 \<Longrightarrow> wire_inv w'"
proof -
  have st: "unat (stored w) \<le> unat (capacity w)" and len: "length (buffer w) = unat (capacity w)"
    using wire_invD [OF assms(1)] by auto
  have "stored w' = stored w - n"
    using assms(5,6) by (simp add: stored_def)
  then show s: "unat (stored w') = unat (stored w) - unat n"
    using assms(2) by (simp add: unat_sub word_le_nat_alt)
  have "wrap_free (unat (capacity w)) (unat (poped w)) (unat n)"
    using wire_invD(4) [OF assms(1)] assms(2) st by (auto intro: wrap_free_mono)
  then have "unat (poped w') mod length (buffer w) = (unat (poped w) + unat n) mod length (buffer w)"
    using assms(6) len by (simp add: unat_plus_index)
  then have "ring_view (buffer w) (unat (poped w')) k = ring_view (buffer w) (unat (poped w) + unat n) k" for k
    by (metis ring_view_mod)
  then show "content w' = drop (unat n) (content w)"
    using assms(2,3) s by (simp add: content_def drop_ring_view)
  show "wire_inv w'" if "unat (capacity w) dvd 2 ^ 64"
    using assms s that by (auto simp: wire_inv_def wrap_free_def)
qed

lemma write_in_buffer_Nil:
  assumes "wire_inv w"
  shows "write_in_buffer w (buffer_address w n) [] = w"
  using wire_invD(1,2) [OF assms]
  by (simp add: write_in_buffer_def ring_write_def buffer_address_def unat_index mod_le_divisor)

text \<open>Header and payload go to the ring in two copies, one after the other.\<close>

lemma write_two_parts:
  fixes w :: "('h, 'z) simple_wire_scheme"
  assumes inv: "wire_inv w" and "unat (stored w) + (length xs + length ys) \<le> unat (capacity w)"
  defines "w1 \<equiv> write_in_buffer w (buffer_address w (pushed w)) xs"
  defines "w2 \<equiv> write_in_buffer w1 (buffer_address w (pushed w + of_nat (length xs))) ys"
  shows "length (buffer w2) = unat (capacity w)"
    and "ring_view (buffer w2) (unat (poped w)) (unat (stored w) + (length xs + length ys)) =
      content w @ xs @ ys"
    and "ys = [] \<Longrightarrow> w2 = w1"
proof -
  have v1: "length (buffer w1) = unat (capacity w)"
    "ring_view (buffer w1) (unat (poped w)) (unat (stored w) + length xs) = content w @ xs"
    using write_in_buffer_view [OF inv, of 0 xs] assms(2) by (simp_all add: w1_def content_def)
  have i1: "wire_inv w1"
    using inv v1(1) by (simp add: w1_def wire_inv_def)
  show "length (buffer w2) = unat (capacity w)"
    and "ring_view (buffer w2) (unat (poped w)) (unat (stored w) + (length xs + length ys)) =
      content w @ xs @ ys"
    using write_in_buffer_view [OF i1, of "length xs" ys] assms(2) v1(2)
    by (simp_all add: w1_def w2_def add.assoc)
  show "w2 = w1" if "ys = []"
    using write_in_buffer_Nil [OF i1] that by (simp add: w2_def w1_def)
qed

lemma write_room:
  assumes "wire_inv w" and "\<not> write_must_wait w m False"
  shows "unat (stored w) + unat m \<le> unat (capacity w)"
proof -
  have "unat m \<le> unat (room w)"
    using assms(2) by (simp add: write_must_wait_def word_le_nat_alt not_less)
  then show ?thesis
    using wire_invD(3) [OF assms(1)] unat_room [OF assms(1)] by simp
qed

section \<open>What each chunk does\<close>

lemma write_body_spec:
  fixes w :: "('h, 'z) simple_wire_scheme"
  assumes "wire_inv w" and "length from = unat len"
    and "\<not> write_must_wait w (min_size len (capacity w)) False"
    and "write_body w len from = (w', len', from')"
  shows "wire_inv w'" and "content w' = content w @ take (unat (capacity w)) from"
    and "from' = drop (unat (capacity w)) from" and "length from' = unat len'"
    and "capacity w' = capacity w" "poped w' = poped w" "header_received w' = header_received w"
proof -
  define m where "m = min_size len (capacity w)"
  define w1 where "w1 = write_in_buffer w (buffer_address w (pushed w + of_nat 0)) (take (unat m) from)"
  have um: "unat m = min (unat len) (unat (capacity w))"
    by (simp add: m_def ring_simps)
  have t: "take (unat m) from = take (unat (capacity w)) from"
    and d: "drop (unat m) from = drop (unat (capacity w)) from"
    using assms(2) by (auto simp: um min_def)
  note r = write_room [OF assms(1,3), folded m_def]
  have lm: "length (take (unat m) from) = unat m"
    using assms(2) um by simp
  have eq: "w' = w1\<lparr>pushed := pushed w + of_nat (unat m)\<rparr>" "len' = len - m" "from' = drop (unat m) from"
    using assms(4) by (auto simp: write_body_def Let_def m_def w1_def)
  have view: "length (buffer w1) = unat (capacity w)"
    "ring_view (buffer w1) (unat (poped w)) (unat (stored w) + unat m) = content w @ take (unat m) from"
    using write_in_buffer_view [OF assms(1), of 0 "take (unat m) from"] r lm
    by (simp_all add: w1_def content_def)
  have "wire_inv w' \<and> content w' = content w @ take (unat m) from \<and>
      unat (stored w') = unat (stored w) + unat m"
    using view by (intro push_bytes [OF assms(1) r]) (simp_all add: eq w1_def)
  then show "wire_inv w'" and "content w' = content w @ take (unat (capacity w)) from"
    by (simp_all add: t)
  show "from' = drop (unat (capacity w)) from" by (simp add: eq d)
  have "m \<le> len" by (simp add: word_le_nat_alt um)
  then have "unat len' = unat len - unat m" by (simp add: eq unat_sub)
  then show "length from' = unat len'" using assms(2) by (simp add: eq)
  show "capacity w' = capacity w" "poped w' = poped w" "header_received w' = header_received w"
    by (simp_all add: eq w1_def)
qed

lemma read_body_spec:
  fixes w :: "('h, 'z) simple_wire_scheme"
  assumes "wire_inv w" and "\<not> read_must_wait w (min_size len (capacity w))"
    and "read_body w len = (w', data, len')"
  shows "data = take (min (unat len) (unat (capacity w))) (content w)"
    and "content w' = drop (min (unat len) (unat (capacity w))) (content w)"
    and "unat len' = unat len - min (unat len) (unat (capacity w))"
    and "min (unat len) (unat (capacity w)) \<le> length (content w)"
    and "capacity w' = capacity w" "header_received w' = header_received w"
    and "unat (capacity w) dvd 2 ^ 64 \<Longrightarrow> wire_inv w'"
proof -
  define m where "m = min_size len (capacity w)"
  have um: "unat m = min (unat len) (unat (capacity w))"
    by (simp add: m_def ring_simps)
  have st: "unat m \<le> unat (stored w)"
    using assms(2) by (simp add: read_must_wait_def m_def word_le_nat_alt)
  have eq: "w' = w\<lparr>poped := poped w + m\<rparr>" "len' = len - m"
      "data = read_from_buffer w (read_address w 0) (unat m)"
    using assms(3) by (auto simp: read_body_def Let_def m_def)
  have fld: "buffer w' = buffer w" "capacity w' = capacity w" "pushed w' = pushed w"
      "poped w' = poped w + m" "header_received w' = header_received w"
    by (simp_all add: eq)
  note pop = pop_bytes [OF assms(1) st fld(1-4)]
  have d: "data = take (unat m) (content w)"
    unfolding eq(3) using read_from_buffer_eq [OF assms(1), of 0 "unat m"] st by simp
  show "data = take (min (unat len) (unat (capacity w))) (content w)"
    by (simp only: d um)
  show "content w' = drop (min (unat len) (unat (capacity w))) (content w)"
    by (simp only: pop(2) um)
  have "m \<le> len" by (simp add: word_le_nat_alt um)
  then have "unat len' = unat len - unat m" by (simp only: eq(2) unat_sub)
  then show "unat len' = unat len - min (unat len) (unat (capacity w))"
    by (simp only: um)
  show "min (unat len) (unat (capacity w)) \<le> length (content w)"
    using st by (simp only: um length_content)
  show "capacity w' = capacity w" "header_received w' = header_received w"
    by (simp_all only: fld)
  show "unat (capacity w) dvd 2 ^ 64 \<Longrightarrow> wire_inv w'" by (rule pop(3))
qed

lemma copy_header_frame [wire_frame, simp]:
  "capacity (copy_header T w) = capacity w" "pushed (copy_header T w) = pushed w"
  "poped (copy_header T w) = poped w" "buffer (copy_header T w) = buffer w"
  "stored (copy_header T w) = stored w" "content (copy_header T w) = content w"
  "wire_inv (copy_header T w) = wire_inv w"
  "simple_wire.more (copy_header T w) = simple_wire.more w"
  "read_address (copy_header T w) off = read_address w off"
  by (auto simp: copy_header_def Let_def stored_def content_def wire_inv_def read_address_def index_def)

lemma unat_u32_u64: "unat (ucast (x :: u32) :: u64) = unat x"
proof -
  have "unat x < 2 ^ 32"
    by (rule order.strict_trans2 [OF unsigned_less]) simp
  then show ?thesis by (simp add: unsigned_ucast_eq take_bit_nat_eq_self)
qed

lemma write_length_eq:
  assumes "hsize T \<le> 8"
  shows "unat (write_length T h) = unat (hlength T h) + hsize T"
proof -
  have "unat (hlength T h) < 2 ^ 32"
    by (rule order.strict_trans2 [OF unsigned_less]) simp
  then show ?thesis
    using assms by (simp add: write_length_def unat_word_ariths unat_u32_u64)
qed

context wire_header
begin

text \<open>The header is read back whether or not it wraps around the end of the ring.\<close>

lemma copy_header_spec:
  assumes "wire_inv w" and "take (hsize T) (content w) = hbuffer T h"
  shows "header_received (copy_header T w) = h"
proof -
  have hs: "hsize T \<le> unat (stored w)"
    using arg_cong [OF assms(2), of length] length_buffer [of h] by simp
  have "ring_read (unat (capacity w)) (buffer w) (read_address w 0) (hsize T) = hbuffer T h"
    using read_from_buffer_eq [OF assms(1), of 0 "hsize T"] hs assms(2)
    by (simp add: read_from_buffer_def)
  then show ?thesis
    by (auto simp: copy_header_def Let_def ring_read_def memcpy_from_def read_address_def
        intro: of_take of_buffer_exact split: if_splits)
qed

lemma read_head_spec:
  fixes w :: "('h, 'z) simple_wire_scheme"
  assumes "wire_inv w" and "hsize T \<le> unat (capacity w)"
  defines "m \<equiv> min (unat (hlength T (header_received w))) (unat (capacity w) - hsize T)"
  assumes "hsize T + m \<le> length (content w)"
    and "read_head T w = (w', data, len')"
  shows "data = take m (drop (hsize T) (content w))"
    and "content w' = drop (hsize T + m) (content w)"
    and "unat len' = unat (hlength T (header_received w)) - m"
    and "capacity w' = capacity w" "header_received w' = header_received w"
    and "unat (capacity w) dvd 2 ^ 64 \<Longrightarrow> wire_inv w'"
proof -
  define len where "len = (ucast (hlength T (header_received w)) :: u64)"
  define ml where "ml = min_size len (max_payload_length T w)"
  have uh: "unat (of_nat (hsize T) :: u64) = hsize T"
    using size_bounds by simp
  have ule: "unat len = unat (hlength T (header_received w))"
    by (simp add: len_def unat_u32_u64)
  have "unat (max_payload_length T w) = unat (capacity w) - hsize T"
    using assms(2) uh by (simp add: max_payload_length_def unat_sub word_le_nat_alt)
  then have um: "unat ml = m"
    by (simp add: ml_def ring_simps m_def ule)
  have um2: "unat (of_nat (hsize T) + ml) = hsize T + m"
  proof -
    have "unat ml + hsize T \<le> unat (capacity w)"
      using um assms(2) by (simp add: m_def)
    then have "unat (ml + of_nat (hsize T)) = unat ml + hsize T"
      by (rule unat_add_of_nat)
    then show ?thesis by (simp add: um add.commute)
  qed
  have eq: "w' = w\<lparr>poped := poped w + (of_nat (hsize T) + ml)\<rparr>" "len' = len - ml"
      "data = read_from_buffer w (read_address w (of_nat (hsize T))) (unat ml)"
    using assms(5) by (auto simp: read_head_def Let_def ml_def len_def)
  have fld: "buffer w' = buffer w" "capacity w' = capacity w" "pushed w' = pushed w"
      "poped w' = poped w + (of_nat (hsize T) + ml)" "header_received w' = header_received w"
    by (simp_all add: eq)
  have st: "unat (of_nat (hsize T) + ml) \<le> unat (stored w)"
    using assms(4) um2 by simp
  note pop = pop_bytes [OF assms(1) st fld(1-4)]
  show "data = take m (drop (hsize T) (content w))"
    using read_from_buffer_eq [OF assms(1), of "of_nat (hsize T)" "unat ml"] assms(4) uh um
    by (simp add: eq)
  show "content w' = drop (hsize T + m) (content w)"
    by (simp only: pop(2) um2)
  have "ml \<le> len" by (simp add: word_le_nat_alt um m_def ule)
  then show "unat len' = unat (hlength T (header_received w)) - m"
    by (simp add: eq(2) unat_sub um ule)
  show "capacity w' = capacity w" "header_received w' = header_received w"
    by (simp_all only: fld)
  show "unat (capacity w) dvd 2 ^ 64 \<Longrightarrow> wire_inv w'" by (rule pop(3))
qed

lemma write_head_spec:
  fixes w :: "('h, 'z) simple_wire_scheme"
  assumes "wire_inv w" and "hsize T \<le> unat (capacity w)" and "length from = unat (hlength T h)"
    and "\<not> write_must_wait w (min_size (write_length T h) (capacity w)) False"
    and "write_head T w h from = (w', len', from')"
  shows "wire_inv w'" and "content w' = content w @ take (unat (capacity w)) (hbuffer T h @ from)"
    and "from' = drop (unat (capacity w) - hsize T) from" and "length from' = unat len'"
    and "capacity w' = capacity w" "poped w' = poped w" "header_received w' = header_received w"
proof -
  define m where "m = min_size (write_length T h) (capacity w)"
  define k where "k = unat m - hsize T"
  define w1 where "w1 = write_in_buffer w (buffer_address w (pushed w)) (hbuffer T h)"
  define w2 where "w2 = write_in_buffer w1 (buffer_address w (pushed w + of_nat (hsize T))) (take k from)"
  have wl: "unat (write_length T h) = length from + hsize T"
    using write_length_eq [OF size_bounds(2)] assms(3) by simp
  have um: "unat m = min (length from + hsize T) (unat (capacity w))"
    by (simp add: m_def ring_simps wl)
  have hm: "hsize T \<le> unat m" using um assms(2) by simp
  have uh: "unat (of_nat (hsize T) :: u64) = hsize T"
    using size_bounds by simp
  have uk: "unat (m - of_nat (hsize T)) = k" and gt: "m > of_nat (hsize T) \<longleftrightarrow> k > 0"
    using hm uh by (simp_all add: k_def unat_sub word_le_nat_alt word_less_nat_alt)
  have mk: "unat m = length (hbuffer T h) + length (take k from)"
    using hm um by (auto simp: k_def length_buffer)
  note r = write_room [OF assms(1,4), folded m_def]
  note v = write_two_parts [OF assms(1) r [unfolded mk], folded w1_def,
      unfolded length_buffer [of h], folded w2_def]
  have same: "w2 = w1" if "k = 0" using v(3) that by simp
  have p2: "pushed w2 = pushed w" by (simp add: w2_def w1_def)
  have eq: "w' = w2\<lparr>pushed := pushed w + of_nat (unat m)\<rparr>" "len' = write_length T h - m"
      "from' = drop k from"
    using assms(5) gt same p2
    by (auto simp: write_head_def Let_def uk w1_def w2_def simp flip: m_def split: if_splits)
  have t: "hbuffer T h @ take k from = take (unat (capacity w)) (hbuffer T h @ from)"
    using um hm by (auto simp: k_def length_buffer min_def)
  have "wire_inv w' \<and> content w' = content w @ (hbuffer T h @ take k from) \<and>
      unat (stored w') = unat (stored w) + unat m"
    using v(1,2) mk by (intro push_bytes [OF assms(1) r]) (simp_all add: eq w2_def w1_def length_buffer)
  then show "wire_inv w'" and "content w' = content w @ take (unat (capacity w)) (hbuffer T h @ from)"
    by (simp_all only: t)
  show "from' = drop (unat (capacity w) - hsize T) from"
    using um by (auto simp: eq k_def min_def)
  have "m \<le> write_length T h" by (simp add: word_le_nat_alt um wl)
  then have "unat len' = length from + hsize T - unat m" by (simp add: eq unat_sub wl)
  then show "length from' = unat len'" using hm by (simp add: eq k_def)
  show "capacity w' = capacity w" "poped w' = poped w" "header_received w' = header_received w"
    by (simp_all add: eq w2_def w1_def)
qed

end

end
