(* ===== verification/Wire_Transfer.thy ===== *)
theory Wire_Transfer
  imports Simple_Wire
begin

text \<open>
  A writer and a reader on one \<open>simple_wire\<close>, in any interleaving of their chunks. The writer
  runs \<^verbatim>\<open>simple_wire::write\<close> for one message after the other, the reader \<^verbatim>\<open>peep\<close> or
  \<^verbatim>\<open>await\<close> and then \<^verbatim>\<open>simple_wire::read\<close>; each stops where the code waits on a condition
  variable. The ghost fields record the messages handed to \<^verbatim>\<open>write\<close> and the messages \<^verbatim>\<open>read\<close>
  has returned.
\<close>

section \<open>The two parties\<close>

datatype 'h writer = W_Idle | W_Head 'h bytes | W_Body u64 bytes

datatype reader = R_Idle | R_Head | R_Body u64 bytes

record 'h channel =
  ch_wire :: "'h simple_wire"
  ch_writer :: "'h writer"
  ch_reader :: reader
  ch_sent :: "('h \<times> bytes) list"
  ch_received :: "('h \<times> bytes) list"

definition init_channel :: "'h \<Rightarrow> u64 \<Rightarrow> bytes \<Rightarrow> 'h channel" where
  "init_channel h0 cap mem =
     \<lparr>ch_wire = new_simple_wire h0 1 cap mem, ch_writer = W_Idle, ch_reader = R_Idle,
      ch_sent = [], ch_received = []\<rparr>"

text \<open>The steps inside the calls; which side moves is up to the scheduler.\<close>

inductive transfer_move :: "'h header_class \<Rightarrow> 'h channel \<Rightarrow> 'h channel \<Rightarrow> bool"
  for T :: "'h header_class" where
  move_write_head:
    "\<lbrakk>ch_writer c = W_Head h p;
      \<not> write_must_wait (ch_wire c) (min_size (write_length T h) (capacity (ch_wire c))) False;
      write_head T (ch_wire c) h p = (w', len', from')\<rbrakk>
     \<Longrightarrow> transfer_move T c (c\<lparr>ch_wire := w',
           ch_writer := (if len' = 0 then W_Idle else W_Body len' from')\<rparr>)"
| move_write_body:
    "\<lbrakk>ch_writer c = W_Body len from;
      \<not> write_must_wait (ch_wire c) (min_size len (capacity (ch_wire c))) False;
      write_body (ch_wire c) len from = (w', len', from')\<rbrakk>
     \<Longrightarrow> transfer_move T c (c\<lparr>ch_wire := w',
           ch_writer := (if len' = 0 then W_Idle else W_Body len' from')\<rparr>)"
| move_peep:
    "\<lbrakk>ch_reader c = R_Idle; stored (ch_wire c) \<ge> of_nat (hsize T)\<rbrakk>
     \<Longrightarrow> transfer_move T c (c\<lparr>ch_wire := copy_header T (ch_wire c), ch_reader := R_Head\<rparr>)"
| move_read_head:
    "\<lbrakk>ch_reader c = R_Head; read_head T (ch_wire c) = (w', data, len')\<rbrakk>
     \<Longrightarrow> transfer_move T c
           (if len' = 0
            then c\<lparr>ch_wire := w', ch_reader := R_Idle,
                   ch_received := ch_received c @ [(header_received (ch_wire c), data)]\<rparr>
            else c\<lparr>ch_wire := w', ch_reader := R_Body len' data\<rparr>)"
| move_read_body:
    "\<lbrakk>ch_reader c = R_Body len acc;
      \<not> read_must_wait (ch_wire c) (min_size len (capacity (ch_wire c)));
      read_body (ch_wire c) len = (w', data, len')\<rbrakk>
     \<Longrightarrow> transfer_move T c
           (if len' = 0
            then c\<lparr>ch_wire := w', ch_reader := R_Idle,
                   ch_received := ch_received c @ [(header_received (ch_wire c), acc @ data)]\<rparr>
            else c\<lparr>ch_wire := w', ch_reader := R_Body len' (acc @ data)\<rparr>)"

text \<open>A step is such a move or the writer's next call, with a payload of the header's length.\<close>

inductive transfer_step :: "'h header_class \<Rightarrow> 'h channel \<Rightarrow> 'h channel \<Rightarrow> bool"
  for T :: "'h header_class" where
  step_call:
    "\<lbrakk>ch_writer c = W_Idle; length p = unat (hlength T h)\<rbrakk>
     \<Longrightarrow> transfer_step T c (c\<lparr>ch_writer := W_Head h p, ch_sent := ch_sent c @ [(h, p)]\<rparr>)"
| step_move: "transfer_move T c c' \<Longrightarrow> transfer_step T c c'"

section \<open>The byte stream\<close>

definition encode_message :: "'h header_class \<Rightarrow> 'h \<times> bytes \<Rightarrow> bytes" where
  "encode_message T m = hbuffer T (fst m) @ snd m"

definition encode_stream :: "'h header_class \<Rightarrow> ('h \<times> bytes) list \<Rightarrow> bytes" where
  "encode_stream T ms = concat (map (encode_message T) ms)"

fun unsent :: "'h header_class \<Rightarrow> 'h writer \<Rightarrow> bytes" where
  "unsent T W_Idle = []"
| "unsent T (W_Head h p) = encode_message T (h, p)"
| "unsent T (W_Body len from) = from"

fun taken :: "'h header_class \<Rightarrow> 'h \<Rightarrow> reader \<Rightarrow> bytes" where
  "taken T h R_Idle = []"
| "taken T h R_Head = []"
| "taken T h (R_Body len acc) = hbuffer T h @ acc"

text \<open>
  What the writer's state says about the message being written, and the reader's about the
  message being read. Chunks after the first start at a multiple of the capacity.
\<close>

definition writer_ok :: "'h header_class \<Rightarrow> nat \<Rightarrow> ('h \<times> bytes) list \<Rightarrow> 'h writer \<Rightarrow> bool" where
  "writer_ok T cap sent wr = (case wr of
     W_Idle \<Rightarrow> True
   | W_Head h p \<Rightarrow> sent \<noteq> [] \<and> last sent = (h, p)
   | W_Body len from \<Rightarrow> sent \<noteq> [] \<and> length from = unat len \<and> len \<noteq> 0 \<and>
       (\<exists>j > 0. from = drop (j * cap) (encode_message T (last sent))))"

definition reader_ok :: "'h header_class \<Rightarrow> nat \<Rightarrow> 'h \<Rightarrow> ('h \<times> bytes) list \<Rightarrow> nat \<Rightarrow> reader \<Rightarrow> bool" where
  "reader_ok T cap h sent n rd = (case rd of
     R_Idle \<Rightarrow> True
   | R_Head \<Rightarrow> n < length sent \<and> h = fst (sent ! n)
   | R_Body len acc \<Rightarrow> n < length sent \<and> h = fst (sent ! n) \<and> len \<noteq> 0 \<and>
       hsize T + length acc + unat len = length (encode_message T (sent ! n)) \<and>
       (\<exists>i > 0. hsize T + length acc = i * cap))"

definition channel_inv :: "'h header_class \<Rightarrow> 'h channel \<Rightarrow> bool" where
  "channel_inv T c \<longleftrightarrow>
     wire_inv (ch_wire c) \<and> unat (capacity (ch_wire c)) dvd 2 ^ 64 \<and>
     hsize T \<le> unat (capacity (ch_wire c)) \<and>
     (\<forall>(h, p) \<in> set (ch_sent c). length p = unat (hlength T h)) \<and>
     ch_received c = take (length (ch_received c)) (ch_sent c) \<and>
     encode_stream T (ch_received c) @ taken T (header_received (ch_wire c)) (ch_reader c) @
       content (ch_wire c) @ unsent T (ch_writer c) = encode_stream T (ch_sent c) \<and>
     writer_ok T (unat (capacity (ch_wire c))) (ch_sent c) (ch_writer c) \<and>
     reader_ok T (unat (capacity (ch_wire c))) (header_received (ch_wire c)) (ch_sent c)
       (length (ch_received c)) (ch_reader c) \<and>
     (ch_reader c = R_Head \<longrightarrow> content (ch_wire c) \<noteq> [])"

definition channel_work :: "'h header_class \<Rightarrow> 'h channel \<Rightarrow> nat" where
  "channel_work T c = 4 * length (unsent T (ch_writer c)) + 2 * length (content (ch_wire c)) +
     (if ch_reader c = R_Idle then 1 else 0)"

lemma channel_invD:
  assumes "channel_inv T c"
  shows "wire_inv (ch_wire c)" "unat (capacity (ch_wire c)) dvd 2 ^ 64"
    "hsize T \<le> unat (capacity (ch_wire c))"
    "(h, p) \<in> set (ch_sent c) \<Longrightarrow> length p = unat (hlength T h)"
    "ch_received c = take (length (ch_received c)) (ch_sent c)"
    "encode_stream T (ch_received c) @ taken T (header_received (ch_wire c)) (ch_reader c) @
       content (ch_wire c) @ unsent T (ch_writer c) = encode_stream T (ch_sent c)"
    "writer_ok T (unat (capacity (ch_wire c))) (ch_sent c) (ch_writer c)"
    "reader_ok T (unat (capacity (ch_wire c))) (header_received (ch_wire c)) (ch_sent c)
       (length (ch_received c)) (ch_reader c)"
    "ch_reader c = R_Head \<Longrightarrow> content (ch_wire c) \<noteq> []"
  using assms by (auto simp: channel_inv_def)

lemma encode_stream_simps [simp]:
  "encode_stream T [] = []"
  "encode_stream T (m # ms) = encode_message T m @ encode_stream T ms"
  "encode_stream T (ms @ ns) = encode_stream T ms @ encode_stream T ns"
  by (simp_all add: encode_stream_def)

text \<open>The bytes that are still under way are the messages not yet received.\<close>

lemma pending_stream:
  assumes "channel_inv T c"
  shows "taken T (header_received (ch_wire c)) (ch_reader c) @ content (ch_wire c) @
      unsent T (ch_writer c) = encode_stream T (drop (length (ch_received c)) (ch_sent c))"
proof -
  have "encode_stream T (ch_sent c) = encode_stream T (ch_received c) @
      encode_stream T (drop (length (ch_received c)) (ch_sent c))"
    by (metis append_take_drop_id channel_invD(5) [OF assms] encode_stream_simps(3))
  then show ?thesis using channel_invD(6) [OF assms] by simp
qed

lemma pending_head:
  assumes "channel_inv T c" and "length (ch_received c) < length (ch_sent c)"
  shows "taken T (header_received (ch_wire c)) (ch_reader c) @ content (ch_wire c) @
      unsent T (ch_writer c) = encode_message T (ch_sent c ! length (ch_received c)) @
        encode_stream T (drop (Suc (length (ch_received c))) (ch_sent c))"
  using pending_stream [OF assms(1)] assms(2) by (simp add: Cons_nth_drop_Suc [symmetric])

lemma unsent_drop:
  assumes "writer_ok T cap sent wr"
  shows "unsent T wr = [] \<or> sent \<noteq> [] \<and> (\<exists>j. unsent T wr = drop (j * cap) (encode_message T (last sent)))"
  using assms by (cases wr) (auto simp: writer_ok_def intro: exI [of _ 0])

context wire_header
begin

lemma length_encode_message: "length (encode_message T m) = hsize T + length (snd m)"
  by (simp add: encode_message_def length_buffer)

text \<open>
  Once a byte of the message at the reader's position is in the ring, the whole chunk the reader
  takes next is.
\<close>

lemma chunk_available:
  assumes "channel_inv T c" and n: "length (ch_received c) < length (ch_sent c)"
    and "length (taken T (header_received (ch_wire c)) (ch_reader c)) = i * unat (capacity (ch_wire c))"
    and "content (ch_wire c) \<noteq> []"
  shows "min (unat (capacity (ch_wire c)))
      (length (encode_message T (ch_sent c ! length (ch_received c))) - i * unat (capacity (ch_wire c)))
    \<le> length (content (ch_wire c))"
proof -
  define cap where "cap = unat (capacity (ch_wire c))"
  define m where "m = encode_message T (ch_sent c ! length (ch_received c))"
  define rest where "rest = encode_stream T (drop (Suc (length (ch_received c))) (ch_sent c))"
  define k where "k = length (content (ch_wire c))"
  have sum: "i * cap + k + length (unsent T (ch_writer c)) = length m + length rest"
    using arg_cong [OF pending_head [OF assms(1) n], of length] assms(3)
    by (simp add: m_def rest_def k_def cap_def)
  have k0: "k > 0" using assms(4) by (simp add: k_def del: length_content)
  from unsent_drop [OF channel_invD(7) [OF assms(1)]]
  have "min cap (length m - i * cap) \<le> k"
  proof (elim disjE conjE exE)
    assume "unsent T (ch_writer c) = []"
    then show ?thesis using sum by simp
  next
    fix j assume j: "unsent T (ch_writer c) = drop (j * unat (capacity (ch_wire c))) (encode_message T (last (ch_sent c)))"
    show ?thesis
    proof (cases "Suc (length (ch_received c)) = length (ch_sent c)")
      case True
      then have "last (ch_sent c) = ch_sent c ! length (ch_received c)"
        by (metis diff_Suc_1 last_conv_nth length_0_conv nat.distinct(1))
      then have u: "length (unsent T (ch_writer c)) = length m - j * cap"
        using j by (simp add: m_def cap_def)
      have r: "rest = []" using True by (simp add: rest_def)
      show ?thesis
      proof (cases "length m \<le> j * cap")
        case False
        then have "i * cap + k = j * cap" using sum u r by simp
        moreover from this have "i < j" using k0 by (metis add_lessD1 less_add_same_cancel1 mult_less_cancel2)
        ultimately have "k = (j - i) * cap" and "j - i > 0" by (simp_all add: diff_mult_distrib)
        then have "cap \<le> k" by (cases "j - i") auto
        then show ?thesis by simp
      qed (use sum u r in simp)
    next
      case False
      then have "drop (Suc (length (ch_received c))) (ch_sent c) \<noteq> []" using n by simp
      then have "\<exists>xs. drop (Suc (length (ch_received c))) (ch_sent c) = xs @ [last (ch_sent c)]"
        by (metis append_butlast_last_id last_drop drop_eq_Nil not_le)
      then have "length (encode_message T (last (ch_sent c))) \<le> length rest"
        by (auto simp: rest_def)
      then show ?thesis using sum j by simp
    qed
  qed
  then show ?thesis by (simp add: cap_def m_def k_def)
qed

section \<open>Every step keeps the invariant\<close>

lemma writer_advance:
  assumes inv: "channel_inv T c" and "wire_inv w'" "capacity w' = capacity (ch_wire c)"
    "header_received w' = header_received (ch_wire c)"
    and "content w' = content (ch_wire c) @ bs" "unsent T (ch_writer c) = bs @ from'"
    and "ch_sent c \<noteq> []" "length from' = unat len'" "j > 0"
    and "from' = drop (j * unat (capacity (ch_wire c))) (encode_message T (last (ch_sent c)))"
  shows "channel_inv T (c\<lparr>ch_wire := w',
      ch_writer := (if len' = 0 then W_Idle else W_Body len' from')\<rparr>)"
proof -
  have "unsent T (if len' = 0 then W_Idle else W_Body len' from') = from'"
    using assms(8) by auto
  moreover have "writer_ok T (unat (capacity (ch_wire c))) (ch_sent c)
      (if len' = 0 then W_Idle else W_Body len' from')"
    using assms by (auto simp: writer_ok_def)
  ultimately show ?thesis
    using assms(2-6) channel_invD [OF inv] unfolding channel_inv_def by auto
qed

lemma reader_advance:
  assumes inv: "channel_inv T c" and n: "length (ch_received c) < length (ch_sent c)"
    and "wire_inv w'" "capacity w' = capacity (ch_wire c)"
    and h: "header_received w' = fst (ch_sent c ! length (ch_received c))"
    and tk: "taken T (header_received (ch_wire c)) (ch_reader c) @ content (ch_wire c) =
      hbuffer T (header_received w') @ acc @ content w'"
    and len: "hsize T + length acc + unat len' = length (encode_message T (ch_sent c ! length (ch_received c)))"
    and pos: "len' \<noteq> 0 \<Longrightarrow> \<exists>i > 0. hsize T + length acc = i * unat (capacity (ch_wire c))"
  shows "channel_inv T (if len' = 0
      then c\<lparr>ch_wire := w', ch_reader := R_Idle,
             ch_received := ch_received c @ [(header_received w', acc)]\<rparr>
      else c\<lparr>ch_wire := w', ch_reader := R_Body len' acc\<rparr>)"
proof -
  have tk': "taken T (header_received (ch_wire c)) (ch_reader c) @ content (ch_wire c) @ xs =
      hbuffer T (header_received w') @ acc @ content w' @ xs" for xs
    using arg_cong [OF tk, of "\<lambda>ys. ys @ xs"] by simp
  show ?thesis
  proof (cases "len' = 0")
  case True
  define m where "m = ch_sent c ! length (ch_received c)"
  have "hbuffer T (header_received w') @ acc @ content w' @ unsent T (ch_writer c) =
      hbuffer T (fst m) @ snd m @ encode_stream T (drop (Suc (length (ch_received c))) (ch_sent c))"
    using pending_head [OF inv n] tk' by (simp add: m_def encode_message_def)
  moreover have "length acc = length (snd m)"
    using len True by (simp add: m_def length_encode_message)
  ultimately have "acc = snd m" by (simp add: h m_def)
  then have e: "(header_received w', acc) = m" by (simp add: h m_def)
  have r: "ch_received c @ [m] = take (length (ch_received c @ [m])) (ch_sent c)"
    using n channel_invD(5) [OF inv] by (simp add: take_Suc_conv_app_nth m_def)
  have st: "encode_stream T (ch_received c @ [m]) @ content w' @ unsent T (ch_writer c) =
      encode_stream T (ch_sent c)"
    using channel_invD(6) [OF inv] tk' by (simp add: encode_message_def flip: e)
  show ?thesis
    using True assms(3,4) r st channel_invD(2,3,4,7) [OF inv] unfolding channel_inv_def
    by (simp add: e reader_ok_def del: length_append encode_stream_simps) auto
  next
  case False
  then show ?thesis
    using assms tk' channel_invD [OF inv] unfolding channel_inv_def by (auto simp: reader_ok_def)
  qed
qed

lemma inv_write_head:
  assumes inv: "channel_inv T c" and "ch_writer c = W_Head h p"
    and "\<not> write_must_wait (ch_wire c) (min_size (write_length T h) (capacity (ch_wire c))) False"
    and "write_head T (ch_wire c) h p = (w', len', from')"
  shows "channel_inv T (c\<lparr>ch_wire := w', ch_writer := (if len' = 0 then W_Idle else W_Body len' from')\<rparr>)"
proof -
  have last: "ch_sent c \<noteq> []" "last (ch_sent c) = (h, p)"
    using channel_invD(7) [OF inv] assms(2) by (simp_all add: writer_ok_def)
  then have p: "length p = unat (hlength T h)"
    by (metis channel_invD(4) [OF inv] last_in_set)
  note spec = write_head_spec [OF channel_invD(1,3) [OF inv] p assms(3,4)]
  have d: "from' = drop (unat (capacity (ch_wire c))) (encode_message T (h, p))"
    using spec(3) channel_invD(3) [OF inv] by (simp add: encode_message_def length_buffer)
  then have "unsent T (ch_writer c) = take (unat (capacity (ch_wire c))) (hbuffer T h @ p) @ from'"
    by (simp only: assms(2) unsent.simps encode_message_def fst_conv snd_conv append_take_drop_id)
  from writer_advance [OF inv spec(1,5,7,2) this last(1) spec(4), of 1] show ?thesis
    using d last(2) by simp
qed

lemma inv_write_body:
  assumes inv: "channel_inv T c" and "ch_writer c = W_Body len from"
    and "\<not> write_must_wait (ch_wire c) (min_size len (capacity (ch_wire c))) False"
    and "write_body (ch_wire c) len from = (w', len', from')"
  shows "channel_inv T (c\<lparr>ch_wire := w', ch_writer := (if len' = 0 then W_Idle else W_Body len' from')\<rparr>)"
proof -
  obtain j where j: "ch_sent c \<noteq> []" "length from = unat len"
      "from = drop (j * unat (capacity (ch_wire c))) (encode_message T (last (ch_sent c)))"
    using channel_invD(7) [OF inv] assms(2) by (auto simp: writer_ok_def)
  note spec = write_body_spec [OF channel_invD(1) [OF inv] j(2) assms(3,4)]
  have "unsent T (ch_writer c) = take (unat (capacity (ch_wire c))) from @ from'"
    by (simp only: assms(2) unsent.simps spec(3) append_take_drop_id)
  from writer_advance [OF inv spec(1,5,7,2) this j(1) spec(4), of "Suc j"] show ?thesis
    using spec(3) j(3) by (simp add: add.commute)
qed

lemma received_lt_sent:
  assumes inv: "channel_inv T c" and "content (ch_wire c) \<noteq> []"
  shows "length (ch_received c) < length (ch_sent c)"
  using pending_stream [OF inv] assms(2) by (cases "length (ch_received c) < length (ch_sent c)") auto

lemma inv_peep:
  assumes inv: "channel_inv T c" and "ch_reader c = R_Idle"
    and "stored (ch_wire c) \<ge> of_nat (hsize T)"
  shows "channel_inv T (c\<lparr>ch_wire := copy_header T (ch_wire c), ch_reader := R_Head\<rparr>)"
proof -
  have hs: "hsize T \<le> length (content (ch_wire c))"
    using assms(3) size_bounds by (simp add: word_le_nat_alt)
  then have ne: "content (ch_wire c) \<noteq> []" using size_bounds by (auto simp del: length_content)
  note n = received_lt_sent [OF inv ne]
  define m where "m = ch_sent c ! length (ch_received c)"
  have "content (ch_wire c) @ unsent T (ch_writer c) = hbuffer T (fst m) @ snd m @
      encode_stream T (drop (Suc (length (ch_received c))) (ch_sent c))"
    using pending_head [OF inv n] assms(2) by (simp add: m_def encode_message_def)
  then have "take (hsize T) (content (ch_wire c) @ unsent T (ch_writer c)) = hbuffer T (fst m)"
    by (simp add: length_buffer)
  then have "take (hsize T) (content (ch_wire c)) = hbuffer T (fst m)"
    using hs by simp
  then have "header_received (copy_header T (ch_wire c)) = fst m"
    by (rule copy_header_spec [OF channel_invD(1) [OF inv]])
  then show ?thesis
    using channel_invD [OF inv] n ne assms(2) unfolding channel_inv_def
    by (auto simp: reader_ok_def m_def)
qed

lemma read_head_ready:
  assumes inv: "channel_inv T c" and "ch_reader c = R_Head"
  shows "length (ch_received c) < length (ch_sent c)"
    and "header_received (ch_wire c) = fst (ch_sent c ! length (ch_received c))"
    and "length (snd (ch_sent c ! length (ch_received c))) = unat (hlength T (header_received (ch_wire c)))"
    and "hsize T + min (unat (hlength T (header_received (ch_wire c))))
      (unat (capacity (ch_wire c)) - hsize T) \<le> length (content (ch_wire c))"
proof -
  show n: "length (ch_received c) < length (ch_sent c)"
    and h: "header_received (ch_wire c) = fst (ch_sent c ! length (ch_received c))"
    using channel_invD(8) [OF inv] assms(2) by (simp_all add: reader_ok_def)
  show l: "length (snd (ch_sent c ! length (ch_received c))) = unat (hlength T (header_received (ch_wire c)))"
    by (metis channel_invD(4) [OF inv] h n nth_mem prod.collapse)
  show "hsize T + min (unat (hlength T (header_received (ch_wire c))))
      (unat (capacity (ch_wire c)) - hsize T) \<le> length (content (ch_wire c))"
    using chunk_available [OF inv n, of 0] channel_invD(3,9) [OF inv] assms(2) l
    by (simp add: length_encode_message)
qed

lemma inv_read_head:
  assumes inv: "channel_inv T c" and "ch_reader c = R_Head"
    and "read_head T (ch_wire c) = (w', data, len')"
  shows "channel_inv T
    (if len' = 0
     then c\<lparr>ch_wire := w', ch_reader := R_Idle,
            ch_received := ch_received c @ [(header_received (ch_wire c), data)]\<rparr>
     else c\<lparr>ch_wire := w', ch_reader := R_Body len' data\<rparr>)"
proof -
  note rdy = read_head_ready [OF inv assms(2)]
  define k where "k = min (unat (hlength T (header_received (ch_wire c)))) (unat (capacity (ch_wire c)) - hsize T)"
  note spec = read_head_spec [OF channel_invD(1,3) [OF inv] rdy(4) assms(3), folded k_def]
  have kl: "hsize T + k \<le> length (content (ch_wire c))" using rdy(4) by (simp only: k_def)
  define m where "m = ch_sent c ! length (ch_received c)"
  have "take (hsize T) (content (ch_wire c) @ unsent T (ch_writer c)) = hbuffer T (fst m)"
    using pending_head [OF inv rdy(1)] assms(2) by (simp add: m_def encode_message_def length_buffer)
  then have hb: "take (hsize T) (content (ch_wire c)) = hbuffer T (header_received (ch_wire c))"
    using kl rdy(2) by (simp add: m_def)
  have "content (ch_wire c) = take (hsize T) (content (ch_wire c)) @ data @ content w'"
    unfolding spec(1,2) by (metis append_assoc append_take_drop_id take_add)
  then have c: "content (ch_wire c) = hbuffer T (header_received (ch_wire c)) @ data @ content w'"
    by (simp only: hb)
  have "length data = k" using spec(1) kl by simp
  moreover have "len' \<noteq> 0 \<Longrightarrow> hsize T + k = 1 * unat (capacity (ch_wire c))"
    using spec(3) channel_invD(3) [OF inv] by (auto simp: k_def min_def unat_eq_0 split: if_splits)
  ultimately show ?thesis
    using reader_advance [OF inv rdy(1) spec(6) [OF channel_invD(2) [OF inv]] spec(4), of data len']
      rdy spec(3,5) c assms(2)
    by (force simp: length_encode_message k_def)
qed

lemma inv_read_body:
  assumes inv: "channel_inv T c" and rd: "ch_reader c = R_Body len acc"
    and "\<not> read_must_wait (ch_wire c) (min_size len (capacity (ch_wire c)))"
    and "read_body (ch_wire c) len = (w', data, len')"
  shows "channel_inv T
    (if len' = 0
     then c\<lparr>ch_wire := w', ch_reader := R_Idle,
            ch_received := ch_received c @ [(header_received (ch_wire c), acc @ data)]\<rparr>
     else c\<lparr>ch_wire := w', ch_reader := R_Body len' (acc @ data)\<rparr>)"
proof -
  define k where "k = min (unat len) (unat (capacity (ch_wire c)))"
  obtain i where n: "length (ch_received c) < length (ch_sent c)"
      and h: "header_received (ch_wire c) = fst (ch_sent c ! length (ch_received c))"
      and len: "hsize T + length acc + unat len = length (encode_message T (ch_sent c ! length (ch_received c)))"
      and i: "hsize T + length acc = i * unat (capacity (ch_wire c))"
    using channel_invD(8) [OF inv] rd by (auto simp: reader_ok_def)
  note spec = read_body_spec [OF channel_invD(1) [OF inv] assms(3,4), folded k_def]
  have "content (ch_wire c) = data @ content w'" by (simp add: spec(1,2))
  moreover have ld: "length data = k" using spec(1,4) by simp
  moreover have "len' \<noteq> 0 \<Longrightarrow> hsize T + length (acc @ data) = Suc i * unat (capacity (ch_wire c))"
    using spec(3) ld i by (auto simp: k_def min_def unat_eq_0 split: if_splits)
  moreover have "hsize T + length (acc @ data) + unat len' =
      length (encode_message T (ch_sent c ! length (ch_received c)))"
    using spec(3) ld len by (simp add: k_def)
  ultimately show ?thesis
    using reader_advance [OF inv n spec(7) [OF channel_invD(2) [OF inv]] spec(5), of "acc @ data" len']
      h spec(6) rd by (simp add: exI [of _ "Suc i"] split: if_splits)
qed

lemma inv_move: "transfer_move T c c' \<Longrightarrow> channel_inv T c \<Longrightarrow> channel_inv T c'"
  by (induction rule: transfer_move.induct)
     (rule inv_write_head inv_write_body inv_peep inv_read_head inv_read_body; assumption)+

lemma inv_step: "transfer_step T c c' \<Longrightarrow> channel_inv T c \<Longrightarrow> channel_inv T c'"
proof (induction rule: transfer_step.induct)
  case (step_call c p h)
  have "take (length (ch_received c)) (ch_sent c @ [(h, p)]) = take (length (ch_received c)) (ch_sent c)"
    using arg_cong [OF channel_invD(5) [OF step_call(3)], of length] by simp
  with step_call channel_invD [OF step_call(3)] show ?case
    unfolding channel_inv_def
    by (auto simp: writer_ok_def reader_ok_def nth_append split: reader.splits)
qed (rule inv_move)

lemma inv_init:
  assumes "unat cap dvd 2 ^ 64" "hsize T \<le> unat cap" "length mem = unat cap"
  shows "channel_inv T (init_channel h0 cap mem)"
  using assms size_bounds
  by (auto simp: channel_inv_def init_channel_def new_simple_wire_def wire_inv_def stored_def
      wrap_free_def writer_ok_def reader_ok_def content_def)

lemma inv_reachable:
  assumes "unat cap dvd 2 ^ 64" "hsize T \<le> unat cap" "length mem = unat cap"
    and "(transfer_step T)\<^sup>*\<^sup>* (init_channel h0 cap mem) c"
  shows "channel_inv T c"
  using assms(4)
  by (induction rule: rtranclp_induct) (auto intro: inv_init [OF assms(1-3)] inv_step)

section \<open>Progress and termination\<close>

lemma writer_progress:
  assumes inv: "channel_inv T c" and "content (ch_wire c) = []" and "ch_writer c \<noteq> W_Idle"
  shows "\<exists>c'. transfer_move T c c'"
proof -
  have "unat (stored (ch_wire c)) = 0" using assms(2) length_content [of "ch_wire c"] by simp
  then have "unat (room (ch_wire c)) = unat (capacity (ch_wire c))"
    using unat_room [OF channel_invD(1) [OF inv]] by simp
  then have "\<not> write_must_wait (ch_wire c) (min_size k (capacity (ch_wire c))) False" for k
    by (simp add: write_must_wait_def word_less_nat_alt unat_min_size)
  then show ?thesis
    using assms(3) by (cases "ch_writer c") (metis move_write_head move_write_body prod_cases3)+
qed

lemma reader_progress:
  assumes inv: "channel_inv T c" and ne: "content (ch_wire c) \<noteq> []"
  shows "\<exists>c'. transfer_move T c c'"
proof (cases "ch_reader c")
  case R_Idle
  have "hsize T \<le> unat (stored (ch_wire c))"
    using chunk_available [OF inv received_lt_sent [OF inv ne], of 0] ne R_Idle channel_invD(3) [OF inv]
    by (simp add: length_encode_message)
  then have "of_nat (hsize T) \<le> stored (ch_wire c)"
    using size_bounds by (simp add: word_le_nat_alt)
  with R_Idle show ?thesis by (blast intro: move_peep)
next
  case R_Head
  then show ?thesis by (metis move_read_head prod_cases3)
next
  case (R_Body len acc)
  then obtain i where i: "hsize T + length acc = i * unat (capacity (ch_wire c))"
      "hsize T + length acc + unat len = length (encode_message T (ch_sent c ! length (ch_received c)))"
    using channel_invD(8) [OF inv] by (auto simp: reader_ok_def)
  have "min (unat (capacity (ch_wire c))) (unat len) \<le> unat (stored (ch_wire c))"
    using chunk_available [OF inv received_lt_sent [OF inv ne], of i] ne R_Body i
    by (simp add: length_buffer)
  then have "\<not> read_must_wait (ch_wire c) (min_size len (capacity (ch_wire c)))"
    by (simp add: read_must_wait_def word_le_nat_alt unat_min_size min.commute)
  with R_Body show ?thesis by (metis move_read_body prod_cases3)
qed

text \<open>Where nothing can move, everything has arrived.\<close>

lemma stuck_delivered:
  assumes inv: "channel_inv T c" and "\<And>c'. \<not> transfer_move T c c'"
  shows "ch_received c = ch_sent c" and "ch_writer c = W_Idle" and "ch_reader c = R_Idle"
    and "content (ch_wire c) = []"
proof -
  show e: "content (ch_wire c) = []" using reader_progress [OF inv] assms(2) by blast
  show w: "ch_writer c = W_Idle" using writer_progress [OF inv e] assms(2) by blast
  have "\<not> length (ch_received c) < length (ch_sent c)"
  proof
    assume n: "length (ch_received c) < length (ch_sent c)"
    then have "length (encode_message T (ch_sent c ! length (ch_received c)))
        \<le> length (taken T (header_received (ch_wire c)) (ch_reader c))"
      using arg_cong [OF pending_head [OF inv n], of length] e w by simp
    then show False
      using channel_invD(8,9) [OF inv] e size_bounds
      by (cases "ch_reader c")
         (auto simp: reader_ok_def length_encode_message length_buffer simp flip: unat_eq_0)
  qed
  then show "ch_received c = ch_sent c" using channel_invD(5) [OF inv] by simp
  with channel_invD(8,9) [OF inv] e show "ch_reader c = R_Idle"
    by (cases "ch_reader c") (auto simp: reader_ok_def)
qed

lemma writer_work:
  assumes "content w' = content (ch_wire c) @ bs" "unsent T (ch_writer c) = bs @ from'"
    and "bs \<noteq> []" "length from' = unat len'"
  shows "channel_work T (c\<lparr>ch_wire := w', ch_writer := (if len' = 0 then W_Idle else W_Body len' from')\<rparr>)
    < channel_work T c"
proof -
  have "unsent T (if len' = 0 then W_Idle else W_Body len' from') = from'"
    using assms(4) by auto
  then show ?thesis
    using assms(1-3) by (simp add: channel_work_def del: length_content)
qed

lemma reader_work:
  assumes "content w' = drop k (content (ch_wire c))" "0 < k" "k \<le> length (content (ch_wire c))"
    and "ch_reader c \<noteq> R_Idle"
  shows "channel_work T (if len' = 0
      then c\<lparr>ch_wire := w', ch_reader := R_Idle, ch_received := rs\<rparr>
      else c\<lparr>ch_wire := w', ch_reader := R_Body len' acc\<rparr>) < channel_work T c"
  using assms by (auto simp: channel_work_def simp del: length_content)

lemma move_work: "transfer_move T c c' \<Longrightarrow> channel_inv T c \<Longrightarrow> channel_work T c' < channel_work T c"
proof (induction rule: transfer_move.induct)
  case (move_write_head c h p w' len' from')
  note inv = move_write_head(4)
  have "last (ch_sent c) = (h, p)" "ch_sent c \<noteq> []"
    using channel_invD(7) [OF inv] move_write_head(1) by (simp_all add: writer_ok_def)
  then have p: "length p = unat (hlength T h)"
    by (metis channel_invD(4) [OF inv] last_in_set)
  note spec = write_head_spec [OF channel_invD(1,3) [OF inv] p move_write_head(2,3)]
  show ?case
    using spec(2,3,4) channel_invD(3) [OF inv] move_write_head(1) size_bounds(1) buffer_not_Nil [of h]
    by (intro writer_work [OF spec(2)]) (auto simp: encode_message_def length_buffer)
next
  case (move_write_body c len "from" w' len' from')
  note inv = move_write_body(4)
  have f: "length from = unat len" "len \<noteq> 0"
    using channel_invD(7) [OF inv] move_write_body(1) by (auto simp: writer_ok_def)
  note spec = write_body_spec [OF channel_invD(1) [OF inv] f(1) move_write_body(2,3)]
  show ?case
    using spec(3,4) f wire_invD(1) [OF channel_invD(1) [OF inv]] move_write_body(1)
    by (intro writer_work [OF spec(2)]) (auto simp: unat_eq_0)
next
  case (move_peep c)
  then show ?case by (simp add: channel_work_def)
next
  case (move_read_head c w' data len')
  note inv = move_read_head(3)
  note rdy = read_head_ready [OF inv move_read_head(1)]
  note spec = read_head_spec [OF channel_invD(1,3) [OF inv] rdy(4) move_read_head(2)]
  show ?case
    using rdy(4) size_bounds(1) move_read_head(1) by (intro reader_work [OF spec(2)]) simp_all
next
  case (move_read_body c len acc w' data len')
  note inv = move_read_body(4)
  note spec = read_body_spec [OF channel_invD(1) [OF inv] move_read_body(2,3)]
  have "len \<noteq> 0" using channel_invD(8) [OF inv] move_read_body(1) by (simp add: reader_ok_def)
  then show ?case
    using spec(4) wire_invD(1) [OF channel_invD(1) [OF inv]] move_read_body(1)
    by (intro reader_work [OF spec(2)]) (auto simp flip: unat_eq_0)
qed

lemma moves_inv: "(transfer_move T)\<^sup>*\<^sup>* c c' \<Longrightarrow> channel_inv T c \<Longrightarrow> channel_inv T c'"
  by (induction rule: rtranclp_induct) (auto intro: inv_move)

lemma move_sent: "transfer_move T c c' \<Longrightarrow> ch_sent c' = ch_sent c"
  by (induction rule: transfer_move.induct) simp_all

lemma moves_sent: "(transfer_move T)\<^sup>*\<^sup>* c c' \<Longrightarrow> ch_sent c' = ch_sent c"
  by (induction rule: rtranclp_induct) (auto dest: move_sent)

lemma delivers:
  assumes "channel_inv T c"
  shows "\<exists>c'. (transfer_move T)\<^sup>*\<^sup>* c c' \<and> (\<forall>c''. \<not> transfer_move T c' c'')"
  using assms
proof (induction c rule: measure_induct_rule [of "channel_work T"])
  case (less c)
  then show ?case
    by (meson converse_rtranclp_into_rtranclp inv_move move_work rtranclp.rtrancl_refl)
qed

lemma no_endless_moves:
  assumes "channel_inv T (f 0)" and "\<And>i. transfer_move T (f i) (f (Suc i))"
  shows False
proof -
  have "channel_inv T (f i)" for i
    by (induction i) (auto intro: assms inv_move)
  then have "channel_work T (f (Suc i)) < channel_work T (f i)" for i
    using assms(2) move_work by blast
  then show False
    by (metis wf_measure in_measure wf_iff_no_infinite_down_chain)
qed

end

section \<open>Safety and liveness of a wire\<close>

text \<open>
  C1. Messages of any size sent over a wire arrive unchanged, in order and without loss or
  duplication, whatever the interleaving of the chunks of writer and reader: what has been
  received is a prefix of what has been sent. The counters never claim more than the ring
  holds and no copy leaves the ring's memory. The capacity is any divisor of \<open>2\<^sup>6\<^sup>4\<close> that has
  room for a header, so the 64-bit counters may wrap around.
\<close>

theorem wire_fifo:
  assumes "wire_header T" and "unat cap dvd 2 ^ 64" "hsize T \<le> unat cap" "length mem = unat cap"
    and "(transfer_step T)\<^sup>*\<^sup>* (init_channel h0 cap mem) c"
  shows "ch_received c = take (length (ch_received c)) (ch_sent c) \<and>
    unat (stored (ch_wire c)) \<le> unat (capacity (ch_wire c)) \<and>
    length (buffer (ch_wire c)) = unat (capacity (ch_wire c))"
  using channel_invD(1,5) [OF wire_header.inv_reachable [OF assms]] by (auto dest: wire_invD)

definition sample_header :: message_header where
  "sample_header = \<lparr>mh_idx = 7, mh_length = 12\<rparr>"

definition sample_payload :: bytes where
  "sample_payload = [1, 2, 3, 4, 5, 6, 7, 8, 9, 10, 11, 12]"

text \<open>A message larger than the ring of 8 bytes it is written to.\<close>

definition sample_channel :: "message_header channel" where
  "sample_channel = (init_channel sample_header 8 (replicate 8 0))
     \<lparr>ch_writer := W_Head sample_header sample_payload, ch_sent := [(sample_header, sample_payload)]\<rparr>"

lemma sample_reachable:
  "(transfer_step message_header_class)\<^sup>*\<^sup>* (init_channel sample_header 8 (replicate 8 0)) sample_channel"
proof -
  let ?c = "init_channel sample_header 8 (replicate 8 0)"
  have "transfer_step message_header_class ?c
      (?c\<lparr>ch_writer := W_Head sample_header sample_payload,
          ch_sent := ch_sent ?c @ [(sample_header, sample_payload)]\<rparr>)"
    by (rule step_call)
       (simp_all add: init_channel_def sample_header_def sample_payload_def message_header_class_def)
  then show ?thesis by (simp add: sample_channel_def init_channel_def)
qed

lemma sample_sizes:
  "unat (8 :: u64) dvd 2 ^ 64" "hsize message_header_class \<le> unat (8 :: u64)"
  "length (replicate 8 (0 :: u8)) = unat (8 :: u64)"
  by (simp_all add: message_header_class_def message_header_size_def)

theorem wire_fifo_witness:
  "ch_received sample_channel = take (length (ch_received sample_channel)) (ch_sent sample_channel) \<and>
   unat (stored (ch_wire sample_channel)) \<le> 8 \<and> length (buffer (ch_wire sample_channel)) = 8"
  using wire_fifo [OF mh.wire_header_axioms sample_sizes sample_reachable]
  by (simp add: sample_channel_def init_channel_def new_simple_wire_def)

text \<open>
  C2. Every message handed to the writer is delivered: from any reachable state, the moves of
  writer and reader cannot go on forever, and where neither can move both have returned from
  their calls and everything sent has been received, in particular a message that is larger
  than the ring. Such a state is reached.
\<close>

theorem wire_delivers:
  assumes "wire_header T" and "unat cap dvd 2 ^ 64" "hsize T \<le> unat cap" "length mem = unat cap"
    and "(transfer_step T)\<^sup>*\<^sup>* (init_channel h0 cap mem) c"
  shows "(\<exists>c'. (transfer_move T)\<^sup>*\<^sup>* c c' \<and> ch_received c' = ch_sent c \<and>
           ch_writer c' = W_Idle \<and> ch_reader c' = R_Idle) \<and>
    (\<forall>c'. (transfer_move T)\<^sup>*\<^sup>* c c' \<and> (\<nexists>c''. transfer_move T c' c'') \<longrightarrow> ch_received c' = ch_sent c) \<and>
    (\<nexists>f. f 0 = c \<and> (\<forall>i. transfer_move T (f i) (f (Suc i))))"
proof -
  note inv = wire_header.inv_reachable [OF assms]
  have final: "ch_received c' = ch_sent c" "ch_writer c' = W_Idle" "ch_reader c' = R_Idle"
    if "(transfer_move T)\<^sup>*\<^sup>* c c'" and "\<nexists>c''. transfer_move T c' c''" for c'
    using wire_header.stuck_delivered [OF assms(1) wire_header.moves_inv [OF assms(1) that(1) inv]]
      wire_header.moves_sent [OF assms(1) that(1)] that(2) by auto
  then show ?thesis
    using wire_header.delivers [OF assms(1) inv] wire_header.no_endless_moves [OF assms(1)] inv
    by blast
qed

theorem wire_delivers_witness:
  "\<exists>c'. (transfer_move message_header_class)\<^sup>*\<^sup>* sample_channel c' \<and>
     ch_received c' = [(sample_header, sample_payload)]"
  using wire_delivers [OF mh.wire_header_axioms sample_sizes sample_reachable]
  by (auto simp: sample_channel_def)

end
