(* ===== verification/Wire_Calls.thy ===== *)
theory Wire_Calls
  imports Simple_Wire
begin

text \<open>
  Whole calls of \<^verbatim>\<open>simple_wire\<close>: the loops of \<^verbatim>\<open>write\<close> and \<^verbatim>\<open>read\<close> come to an end or to a
  wait, a message for which there is room is appended in one go, and a complete message is
  returned by \<^verbatim>\<open>read\<close> and by \<^verbatim>\<open>payload\<close>, whose view \<^verbatim>\<open>dispose\<close> releases.
\<close>

section \<open>The loops end\<close>

lemma min_size_decreases:
  assumes "len \<noteq> 0" and "0 < unat cap"
  shows "unat (len - min_size len cap) < unat len"
proof -
  have "min_size len cap \<le> len" by (auto simp: min_size_def)
  moreover have "0 < unat (min_size len cap)"
    using assms by (simp add: unat_min_size flip: unat_eq_0)
  ultimately show ?thesis
    using assms(1) by (simp add: unat_sub flip: unat_eq_0)
qed

lemma write_loop_total:
  assumes "0 < unat (capacity w)"
  shows "\<exists>r. write_loop closed w len from = Some r"
  using assms
proof (induction "unat len" arbitrary: w len "from" rule: less_induct)
  case less
  obtain w' len' from' where b: "write_body w len from = (w', len', from')"
    by (metis prod_cases3)
  then have "capacity w' = capacity w" "len' = len - min_size len (capacity w)"
    by (auto simp: write_body_def Let_def)
  then have "\<exists>r. write_loop closed w' len' from' = Some r" if "len \<noteq> 0"
    using less that min_size_decreases by metis
  with b show ?case by (subst write_loop.simps) auto
qed

lemma read_loop_total:
  assumes "0 < unat (capacity w)"
  shows "\<exists>r. read_loop w len acc = Some r"
  using assms
proof (induction "unat len" arbitrary: w len acc rule: less_induct)
  case less
  obtain w' data len' where b: "read_body w len = (w', data, len')"
    by (metis prod_cases3)
  then have "capacity w' = capacity w" "len' = len - min_size len (capacity w)"
    by (auto simp: read_body_def Let_def)
  then have "\<exists>r. read_loop w' len' (acc @ data) = Some r" if "len \<noteq> 0"
    using less that min_size_decreases by metis
  with b show ?case by (subst read_loop.simps) auto
qed

lemma write_loop_0 [simp]: "write_loop closed w 0 from = Some (Written w)"
  by (subst write_loop.simps) simp

lemma read_loop_0 [simp]: "read_loop w 0 acc = Some (Got w acc)"
  by (subst read_loop.simps) simp

text \<open>A wire closed for writing is left as it is.\<close>

lemma wire_write_closed: "wire_write T w from h True = Some (Write_Closed w)"
  by (simp add: wire_write_def write_must_wait_def)

lemma wire_write_total:
  assumes "0 < unat (capacity w)"
  shows "\<exists>r. wire_write T w from h closed = Some r"
proof -
  obtain w' len' from' where b: "write_head T w h from = (w', len', from')"
    by (metis prod_cases3)
  then have "capacity w' = capacity w"
    by (auto simp: write_head_def Let_def split: if_splits)
  then show ?thesis
    using write_loop_total [of w' False len' from'] assms b by (auto simp: wire_write_def)
qed

section \<open>One message in one go\<close>

lemma memcpy_from_view:
  assumes "i + n \<le> length buf"
  shows "memcpy_from buf i n = ring_view buf i n"
  using assms by (intro nth_equalityI) (auto simp: memcpy_from_def)

context wire_header
begin

lemma wire_write_fits:
  fixes w :: "('h, 'z) simple_wire_scheme"
  assumes inv: "wire_inv w" and p: "length p = unat (hlength T h)"
    and fits: "hsize T + length p \<le> unat (room w)"
  shows "\<exists>w'. wire_write T w p h False = Some (Written w') \<and> wire_inv w' \<and>
    content w' = content w @ hbuffer T h @ p \<and> capacity w' = capacity w \<and>
    poped w' = poped w \<and> header_received w' = header_received w \<and> need_dispose w' = need_dispose w"
proof -
  have wl: "unat (write_length T h) = length p + hsize T"
    using write_length_eq [OF size_bounds(2)] p by simp
  have cap: "hsize T + length p \<le> unat (capacity w)"
    using fits unat_room [OF inv] by simp
  have nw: "\<not> write_must_wait w (min_size (write_length T h) (capacity w)) False"
    using fits wl by (simp add: write_must_wait_def word_less_nat_alt unat_min_size)
  obtain w' len' from' where b: "write_head T w h p = (w', len', from')"
    by (metis prod_cases3)
  note spec = write_head_spec [OF inv _ p nw b]
  have "unat len' = 0" using spec(3,4) cap by simp
  then have "wire_write T w p h False = Some (Written w')"
    using nw b by (simp add: wire_write_def unat_eq_0)
  moreover have "need_dispose w' = need_dispose w"
    using b by (auto simp: write_head_def write_in_buffer_def Let_def split: if_splits)
  ultimately show ?thesis using spec cap length_buffer [of h] by simp
qed

lemma wire_read_complete:
  fixes w :: "('h, 'z) simple_wire_scheme"
  assumes inv: "wire_inv w" and c: "content w = hbuffer T h @ p @ rest"
    and h: "header_received w = h" and p: "length p = unat (hlength T h)"
  shows "\<exists>w'. wire_read T w = Some (Got w' p) \<and> content w' = rest \<and>
    capacity w' = capacity w \<and> header_received w' = h \<and> need_dispose w' = need_dispose w \<and>
    pushed w' = pushed w \<and> simple_wire.more w' = simple_wire.more w \<and>
    (unat (capacity w) dvd 2 ^ 64 \<longrightarrow> wire_inv w')"
proof -
  have st: "hsize T + length p + length rest \<le> unat (capacity w)"
    using arg_cong [OF c, of length] wire_invD(3) [OF inv] length_buffer [of h] by simp
  obtain w' data len' where b: "read_head T w = (w', data, len')"
    by (metis prod_cases3)
  have m: "min (unat (hlength T (header_received w))) (unat (capacity w) - hsize T) = length p"
    using st p h by simp
  have av: "hsize T + min (unat (hlength T (header_received w))) (unat (capacity w) - hsize T)
      \<le> length (content w)"
    unfolding m c by (simp add: length_buffer)
  note spec = read_head_spec [OF inv _ av b, unfolded m]
  have "len' = 0" using spec(3) st p h by (simp add: unat_eq_0)
  moreover have "data = p" "content w' = rest"
    using spec(1,2) st c length_buffer [of h] by simp_all
  moreover have "need_dispose w' = need_dispose w" "pushed w' = pushed w"
      "simple_wire.more w' = simple_wire.more w"
    using b by (auto simp: read_head_def Let_def)
  ultimately show ?thesis
    using spec(4,5,6) st b h by (simp add: wire_read_def)
qed

text \<open>Where \<^verbatim>\<open>payload\<close> takes the message for unwrapped, it is.\<close>

lemma in_place_view:
  fixes w :: "('h, 'z) simple_wire_scheme"
  assumes inv: "wire_inv w" and c: "content w = hbuffer T h @ p @ rest"
    and us: "unat sz = hsize T" and usl: "unat (sz + len) = hsize T + length p"
    and lt: "index w (poped w + sz) < index w (poped w + sz + len)"
  shows "memcpy_from (buffer w) (read_address w sz) (length p) = p"
proof -
  have sto: "unat (stored w) = hsize T + length p + length rest"
    using arg_cong [OF c, of length] length_buffer [of h] by simp
  then have st: "hsize T + length p + length rest \<le> unat (capacity w)"
    using wire_invD(3) [OF inv] by simp
  have cap: "length (buffer w) = unat (capacity w)" "0 < unat (capacity w)"
    using wire_invD [OF inv] by auto
  define i where "i = read_address w sz"
  have i: "i = (unat (poped w) + hsize T) mod length (buffer w)"
    using read_address_eq [OF inv, of sz] st us by (simp add: i_def)
  have "read_address w (sz + len) = (unat (poped w) + (hsize T + length p)) mod length (buffer w)"
    using read_address_eq [OF inv, of "sz + len"] st usl by simp
  then have "i < (i + length p) mod length (buffer w)"
    using lt i [unfolded i_def]
    by (simp add: i word_less_nat_alt read_address_def add.assoc mod_add_left_eq)
  moreover have "i < length (buffer w)" using cap by (simp add: i)
  ultimately have "i + length p \<le> length (buffer w)"
    using st cap size_bounds mod_wrap [of i "length (buffer w)" "length p"] by (auto split: if_splits)
  then have "memcpy_from (buffer w) i (length p) = ring_view (buffer w) (unat (poped w) + hsize T) (length p)"
    by (simp add: memcpy_from_view i)
  also have "\<dots> = take (length p) (drop (hsize T) (content w))"
    unfolding content_def sto by (subst slice_ring_view) auto
  also have "\<dots> = p" using c length_buffer [of h] by simp
  finally show ?thesis by (simp add: i_def)
qed

text \<open>
  The view \<^verbatim>\<open>payload\<close> gives is the message, whether it lies in one piece or is copied, and
  \<^verbatim>\<open>dispose\<close> leaves what follows it.
\<close>

lemma wire_payload_complete:
  fixes w :: "('h, 'z) simple_wire_scheme"
  assumes inv: "wire_inv w" and c: "content w = hbuffer T h @ p @ rest"
    and h: "header_received w = h" and p: "length p = unat (hlength T h)"
    and nd: "need_dispose w = 0"
  shows "\<exists>w'. wire_payload T w = Some (Got w' p) \<and> content (wire_dispose w') = rest \<and>
    need_dispose (wire_dispose w') = 0 \<and> copy_of_payload (wire_dispose w') = None \<and>
    capacity (wire_dispose w') = capacity w \<and>
    simple_wire.more (wire_dispose w') = simple_wire.more w \<and>
    (unat (capacity w) dvd 2 ^ 64 \<longrightarrow> wire_inv (wire_dispose w'))"
proof -
  define len where "len = (ucast (hlength T h) :: u64)"
  define sz where "sz = (of_nat (hsize T) :: u64)"
  have ul: "unat len = length p" by (simp add: len_def unat_u32_u64 p)
  have us: "unat sz = hsize T" using size_bounds by (simp add: sz_def)
  have sto: "hsize T + length p \<le> unat (stored w)"
    using arg_cong [OF c, of length] length_buffer [of h] by simp
  then have usl: "unat (sz + len) = hsize T + length p"
    using unat_add_of_nat [of sz "length p" "stored w"] us by (simp flip: ul)
  show ?thesis
  proof (cases "index w (poped w + sz) < index w (poped w + sz + len)")
    case False
    then show ?thesis
      using wire_read_complete [OF inv c h p] nd
      by (auto simp: wire_payload_def wire_dispose_def Let_def len_def sz_def h
          content_def stored_def wire_inv_def)
  next
    case True
    have eq: "wire_payload T w = Some (Got (w\<lparr>need_dispose := sz + len\<rparr>) p)"
      using True in_place_view [OF inv c us usl True] ul
      by (simp add: wire_payload_def Let_def h flip: len_def sz_def)
    define w' where "w' = wire_dispose (w\<lparr>need_dispose := sz + len\<rparr>)"
    have "sz + len > 0" using usl size_bounds(1) by (simp add: word_less_nat_alt)
    then have f: "buffer w' = buffer w" "capacity w' = capacity w" "pushed w' = pushed w"
        "poped w' = poped w + (sz + len)" "need_dispose w' = 0" "copy_of_payload w' = None"
        "simple_wire.more w' = simple_wire.more w"
      by (simp_all add: w'_def wire_dispose_def Let_def)
    have "unat (sz + len) \<le> unat (stored w)" using usl sto by simp
    note pop = pop_bytes [OF inv this f(1-4)]
    have "content w' = rest" using pop(2) usl c length_buffer [of h] by simp
    then show ?thesis using eq f pop(3) by (simp add: w'_def)
  qed
qed

end

section \<open>A request through the wire\<close>

text \<open>
  A message for which there is room goes through the wire as a whole: \<^verbatim>\<open>write\<close> returns, and
  once what was in the wire before has been consumed, \<^verbatim>\<open>peep\<close> finds the header, \<^verbatim>\<open>payload\<close>
  gives the payload, either in place or as a copy, and after \<^verbatim>\<open>dispose\<close> the wire is empty.
\<close>

theorem write_payload_roundtrip:
  assumes "wire_header T" and "wire_inv w" "content w = []" "need_dispose w = 0"
    and "length p = unat (hlength T h)" "hsize T + length p \<le> unat (capacity w)"
  shows "\<exists>w1 w2. wire_write T w p h False = Some (Written w1) \<and>
    header_received (copy_header T w1) = h \<and>
    wire_payload T (copy_header T w1) = Some (Got w2 p) \<and> content (wire_dispose w2) = []"
proof -
  have "unat (room w) = unat (capacity w)"
    using unat_room [OF assms(2)] arg_cong [OF assms(3), of length] by simp
  with assms(6) have "hsize T + length p \<le> unat (room w)" by simp
  from wire_header.wire_write_fits [OF assms(1,2,5) this] obtain w1 where
    w1: "wire_write T w p h False = Some (Written w1)" "wire_inv w1" "content w1 = hbuffer T h @ p"
      "need_dispose w1 = 0"
    using assms(3,4) by auto
  then have "need_dispose (copy_header T w1) = 0" by (simp add: copy_header_def Let_def)
  moreover have h: "header_received (copy_header T w1) = h"
    using wire_header.copy_header_spec [OF assms(1) w1(2), of h] w1(3)
      wire_header.length_buffer [OF assms(1), of h] by simp
  ultimately show ?thesis
    using wire_header.wire_payload_complete [OF assms(1), of "copy_header T w1" h p "[]"]
      w1 assms(5) by auto
qed

theorem write_payload_roundtrip_witness:
  "\<exists>w1 w2. wire_write message_header_class (new_simple_wire \<lparr>mh_idx = 0, mh_length = 0\<rparr> 1 8 (replicate 8 0))
      [1, 2] \<lparr>mh_idx = 5, mh_length = 2\<rparr> False = Some (Written w1) \<and>
    wire_payload message_header_class (copy_header message_header_class w1) = Some (Got w2 [1, 2])"
  using write_payload_roundtrip [OF mh.wire_header_axioms,
      of "new_simple_wire \<lparr>mh_idx = 0, mh_length = 0\<rparr> 1 8 (replicate 8 0)" "[1, 2]" "\<lparr>mh_idx = 5, mh_length = 2\<rparr>"]
  by (auto simp: wire_inv_def new_simple_wire_def stored_def wrap_free_def content_def
      message_header_class_def message_header_size_def)

end
