(* ===== verification/Message_Wire.thy ===== *)
theory Message_Wire
  imports Wire_Calls Wire_Transfer
begin

text \<open>
  The request wire \<^verbatim>\<open>unidirectional_message_wire\<close> and the response wire
  \<^verbatim>\<open>unidirectional_response_wire\<close> of \<^verbatim>\<open>endpoint/ipc/wire.h\<close>, as extensions of the
  \<open>simple_wire\<close> record. \<^verbatim>\<open>peep\<close> and \<^verbatim>\<open>await\<close> are loops around a timed wait: one pass of
  the loop is a definition of its own, and the loop takes the list of what the waits end with,
  each the wire as the other side left it or a timeout.
\<close>

section \<open>Timeouts\<close>

definition MAX_TIMEOUT :: int where
  "MAX_TIMEOUT = 10 * 365 * 24 * 3600 * 1000 * 1000"

definition u_cap :: "int \<Rightarrow> int" where
  "u_cap timeout = (if timeout > MAX_TIMEOUT then MAX_TIMEOUT else timeout)"

text \<open>Integer division of C++ truncates toward zero.\<close>

definition quot :: "int \<Rightarrow> int \<Rightarrow> int" where
  "quot a b = sgn a * sgn b * (abs a div abs b)"

definition u_round :: "int \<Rightarrow> int" where
  "u_round timeout = (if timeout = 0 then timeout else (quot (timeout - 500) 1000 + 1) * 1000)"

definition n_cap :: "int \<Rightarrow> int" where
  "n_cap timeout = (if timeout > MAX_TIMEOUT * 1000 then MAX_TIMEOUT * 1000 else timeout)"

datatype 'w wait_end = Woken 'w | Timed_Out 'w

section \<open>The request wire\<close>

record message_wire = "message_header simple_wire" +
  termination_requested :: bool
  onetime_notification :: bool
  request_closed :: bool

datatype ('w, 'h) peep_outcome =
    Peeped 'w 'h
  | Peep_Throws 'w exn
  | Peep_Waiting 'w

text \<open>One pass of the loop; the two flags are sampled before the wire is looked at.\<close>

definition peep_check ::
    "bool \<Rightarrow> bool \<Rightarrow> message_wire \<Rightarrow> (message_wire, message_header) peep_outcome" where
  "peep_check termination onetime w =
     (if stored w \<ge> of_nat message_header_size
      then (let w' = copy_header message_header_class w in Peeped w' (header_received w'))
      else if termination
      then Peeped (w\<lparr>termination_requested := False\<rparr>) \<lparr>mh_idx = terminate_request, mh_length = 0\<rparr>
      else if onetime
      then Peep_Throws w
        (Runtime_Error ''received shutdown request from outside the communication partner'')
      else Peep_Waiting (w\<lparr>wait_for_read := True\<rparr>))"

definition peep_wakes :: "message_wire \<Rightarrow> bool" where
  "peep_wakes w \<longleftrightarrow> stored w \<ge> of_nat message_header_size \<or> termination_requested w \<or> onetime_notification w"

fun peep :: "message_wire \<Rightarrow> message_wire wait_end list \<Rightarrow> (message_wire, message_header) peep_outcome" where
  "peep w ends = (case peep_check (termination_requested w) (onetime_notification w) w of
     Peep_Waiting w1 \<Rightarrow>
       (case ends of
          [] \<Rightarrow> Peep_Waiting w1
        | Timed_Out w2 # _ \<Rightarrow> Peep_Throws (w2\<lparr>wait_for_read := False\<rparr>)
            (Runtime_Error ''request has not been received within the specified time'')
        | Woken w2 # ends' \<Rightarrow> peep (w2\<lparr>wait_for_read := False\<rparr>) ends')
   | r \<Rightarrow> r)"

declare peep.simps [simp del]

definition message_wire_notify :: "message_wire \<Rightarrow> message_wire" where
  "message_wire_notify w = w\<lparr>onetime_notification := True\<rparr>"

definition message_wire_close :: "message_wire \<Rightarrow> message_wire" where
  "message_wire_close w = w\<lparr>request_closed := True\<rparr>"

definition message_wire_write ::
    "message_wire \<Rightarrow> bytes \<Rightarrow> message_header \<Rightarrow> message_wire write_outcome option" where
  "message_wire_write w from header =
     wire_write message_header_class w from header (request_closed w)"

definition message_wire_terminate :: "message_wire \<Rightarrow> message_wire" where
  "message_wire_terminate w = w\<lparr>termination_requested := True\<rparr>"

definition new_message_wire :: "u64 \<Rightarrow> u64 \<Rightarrow> bytes \<Rightarrow> message_wire" where
  "new_message_wire handle cap mem =
     simple_wire.extend (new_simple_wire \<lparr>mh_idx = 0, mh_length = 0\<rparr> handle cap mem)
       \<lparr>termination_requested = False, onetime_notification = False, request_closed = False\<rparr>"

section \<open>The response wire\<close>

record response_wire = "response_header simple_wire" +
  response_closed :: bool
  response_shutdown :: bool

definition response_watch_interval :: int where
  "response_watch_interval = 5"

text \<open>\<^verbatim>\<open>await\<close> has the code of \<^verbatim>\<open>copy_header\<close> in line.\<close>

definition await_check ::
    "bool \<Rightarrow> response_wire \<Rightarrow> (response_wire, response_header) peep_outcome" where
  "await_check closed_shutdown w =
     (if stored w \<ge> of_nat response_header_size
      then (let w' = copy_header response_header_class w in Peeped w' (header_received w'))
      else if closed_shutdown
      then (let w' = w\<lparr>header_received := \<lparr>rh_idx = 0, rh_type = 0, rh_length = 0\<rparr>\<rparr>
            in Peeped w' (header_received w'))
      else Peep_Waiting (w\<lparr>wait_for_read := True\<rparr>))"

definition await_wakes :: "response_wire \<Rightarrow> bool" where
  "await_wakes w \<longleftrightarrow> stored w \<ge> of_nat response_header_size \<or> response_closed w \<or> response_shutdown w"

fun await :: "response_wire \<Rightarrow> response_wire wait_end list \<Rightarrow> (response_wire, response_header) peep_outcome" where
  "await w ends = (case await_check (response_closed w \<or> response_shutdown w) w of
     Peep_Waiting w1 \<Rightarrow>
       (case ends of
          [] \<Rightarrow> Peep_Waiting w1
        | Timed_Out w2 # _ \<Rightarrow> Peep_Throws (w2\<lparr>wait_for_read := False\<rparr>)
            (Runtime_Error ''response has not been received within the specified time'')
        | Woken w2 # ends' \<Rightarrow> await (w2\<lparr>wait_for_read := False\<rparr>) ends')
   | r \<Rightarrow> r)"

declare await.simps [simp del]

text \<open>How long \<^verbatim>\<open>await\<close> waits, in microseconds.\<close>

definition await_timeout :: "int \<Rightarrow> int" where
  "await_timeout timeout =
     u_cap (u_round (if timeout = 0 then response_watch_interval * 1000 * 1000 else timeout))"

definition response_get_length :: "response_wire \<Rightarrow> u32" where
  "response_get_length w = rh_length (header_received w)"

definition response_get_idx :: "response_wire \<Rightarrow> u16" where
  "response_get_idx w = rh_idx (header_received w)"

definition response_get_type :: "response_wire \<Rightarrow> u16" where
  "response_get_type w = rh_type (header_received w)"

definition response_wire_close :: "response_wire \<Rightarrow> response_wire" where
  "response_wire_close w = w\<lparr>response_closed := True\<rparr>"

definition check_shutdown :: "response_wire \<Rightarrow> bool" where
  "check_shutdown w = response_shutdown w"

definition response_wire_write ::
    "response_wire \<Rightarrow> bytes \<Rightarrow> response_header \<Rightarrow> response_wire write_outcome option" where
  "response_wire_write w from header =
     wire_write response_header_class w from header (response_closed w)"

definition is_writable :: "response_wire \<Rightarrow> response_header \<Rightarrow> bool" where
  "is_writable w header \<longleftrightarrow> room w \<ge> ucast (rh_length header)"

definition notify_shutdown :: "response_wire \<Rightarrow> response_wire" where
  "notify_shutdown w = w\<lparr>response_shutdown := True\<rparr>"

definition force_close :: "response_wire \<Rightarrow> response_wire" where
  "force_close w = w\<lparr>response_closed := True\<rparr>"

definition new_response_wire :: "u64 \<Rightarrow> u64 \<Rightarrow> bytes \<Rightarrow> response_wire" where
  "new_response_wire handle cap mem =
     simple_wire.extend (new_simple_wire \<lparr>rh_idx = 0, rh_type = 0, rh_length = 0\<rparr> handle cap mem)
       \<lparr>response_closed = False, response_shutdown = False\<rparr>"

section \<open>Serving requests\<close>

lemma message_wire_flags:
  assumes "simple_wire.more w = simple_wire.more v"
  shows "termination_requested w = termination_requested v"
    "onetime_notification w = onetime_notification v" "request_closed w = request_closed v"
  using assms by (cases w, cases v, simp)+

text \<open>
  What a worker does with its request wire: \<^verbatim>\<open>peep\<close>, \<^verbatim>\<open>payload\<close> and \<^verbatim>\<open>dispose\<close>, so many
  times, without ever having to wait.
\<close>

fun serve_requests :: "nat \<Rightarrow> message_wire \<Rightarrow> ((message_header \<times> bytes) list \<times> message_wire) option" where
  "serve_requests 0 w = Some ([], w)"
| "serve_requests (Suc n) w = (case peep w [] of
     Peeped w1 h \<Rightarrow> (case wire_payload message_header_class w1 of
         Some (Got w2 p) \<Rightarrow> map_option (apfst (Cons (h, p))) (serve_requests n (wire_dispose w2))
       | _ \<Rightarrow> None)
   | _ \<Rightarrow> None)"

lemma peep_message:
  fixes w :: message_wire
  assumes "wire_inv w" and "content w = message_header_get_buffer h @ rest"
  shows "header_received (copy_header message_header_class w) = h"
    and "peep w ends = Peeped (copy_header message_header_class w) h"
proof -
  have "length (message_header_get_buffer h) = message_header_size"
    using mh.length_buffer [of h] by (simp add: message_header_class_def)
  then have "message_header_size \<le> unat (stored w)"
    using arg_cong [OF assms(2), of length] by simp
  moreover show "header_received (copy_header message_header_class w) = h"
    using mh.copy_header_spec [OF assms(1), of h] mh.length_buffer [of h] assms(2)
    by (simp add: message_header_class_def)
  ultimately show "peep w ends = Peeped (copy_header message_header_class w) h"
    by (subst peep.simps) (simp add: peep_check_def Let_def word_le_nat_alt message_header_size_def)
qed

lemma peep_empty:
  fixes w :: message_wire
  assumes "content w = []"
  shows "termination_requested w \<Longrightarrow> peep w ends =
      Peeped (w\<lparr>termination_requested := False\<rparr>) \<lparr>mh_idx = terminate_request, mh_length = 0\<rparr>"
    and "\<not> termination_requested w \<Longrightarrow> onetime_notification w \<Longrightarrow> peep w ends = Peep_Throws w
      (Runtime_Error ''received shutdown request from outside the communication partner'')"
proof -
  have "unat (stored w) = 0" using arg_cong [OF assms, of length] by simp
  then have n: "\<not> of_nat message_header_size \<le> stored w"
    by (simp add: word_le_nat_alt message_header_size_def)
  show "peep w ends = Peeped (w\<lparr>termination_requested := False\<rparr>) \<lparr>mh_idx = terminate_request, mh_length = 0\<rparr>"
    if "termination_requested w"
    using n that by (subst peep.simps) (simp only: peep_check_def if_False if_True peep_outcome.case)
  show "peep w ends = Peep_Throws w
      (Runtime_Error ''received shutdown request from outside the communication partner'')"
    if "\<not> termination_requested w" "onetime_notification w"
    using n that by (subst peep.simps) (simp only: peep_check_def if_False if_True peep_outcome.case)
qed

lemma serve_messages:
  fixes w :: message_wire
  assumes "wire_inv w" "unat (capacity w) dvd 2 ^ 64" "need_dispose w = 0"
    and "content w = encode_stream message_header_class ms"
    and "\<forall>(h, p) \<in> set ms. length p = unat (mh_length h)"
  shows "\<exists>w'. serve_requests (length ms) w = Some (ms, w') \<and> content w' = [] \<and>
    simple_wire.more w' = simple_wire.more w"
  using assms
proof (induction ms arbitrary: w)
  case Nil
  then show ?case by (intro exI [of _ w]) (simp only: encode_stream_simps serve_requests.simps list.size)
next
  case (Cons m ms)
  obtain h p where m: "m = (h, p)" by (cases m)
  define w1 where "w1 = copy_header message_header_class w"
  have c: "content w = message_header_get_buffer h @ p @ encode_stream message_header_class ms"
    using Cons.prems(4) by (simp add: m encode_message_def message_header_class_def)
  note h = peep_message(1) [OF Cons.prems(1) c, folded w1_def]
  note pk = peep_message(2) [OF Cons.prems(1) c, of "[]", folded w1_def]
  have "wire_inv w1" "content w1 = content w" "need_dispose w1 = 0" "capacity w1 = capacity w"
      "simple_wire.more w1 = simple_wire.more w"
    using Cons.prems by (simp_all add: w1_def) (simp add: copy_header_def Let_def)
  then obtain w2 where w2: "wire_payload message_header_class w1 = Some (Got w2 p)"
      "content (wire_dispose w2) = encode_stream message_header_class ms"
      "need_dispose (wire_dispose w2) = 0" "capacity (wire_dispose w2) = capacity w"
      "wire_inv (wire_dispose w2)" "simple_wire.more (wire_dispose w2) = simple_wire.more w"
    using mh.wire_payload_complete [of w1 h p "encode_stream message_header_class ms"] c h
      Cons.prems(2,5) by (auto simp: m message_header_class_def)
  have d: "unat (capacity (wire_dispose w2)) dvd 2 ^ 64"
    unfolding w2(4) by (rule Cons.prems(2))
  have l: "\<forall>(h, p) \<in> set ms. length p = unat (mh_length h)"
    using Cons.prems(5) by simp
  from Cons.IH [OF w2(5) d w2(3,2) l] obtain w' where
    "serve_requests (length ms) (wire_dispose w2) = Some (ms, w')" "content w' = []"
    "simple_wire.more w' = simple_wire.more (wire_dispose w2)"
    by blast
  with pk w2(1,6) show ?case by (intro exI [of _ w']) (simp add: m)
qed

text \<open>
  C19. A termination request does not overtake requests: with any number of complete requests in
  the request wire, a server that has been asked to terminate or to wake up first reads them
  all, in order; only then \<^verbatim>\<open>peep\<close> answers with the terminate header, once, or throws for the
  notification.
\<close>

theorem requests_before_termination:
  fixes w :: message_wire
  assumes "wire_inv w" "unat (capacity w) dvd 2 ^ 64" "need_dispose w = 0"
    and "content w = encode_stream message_header_class ms"
    and "\<forall>(h, p) \<in> set ms. length p = unat (mh_length h)"
  shows "\<exists>w'. serve_requests (length ms) w = Some (ms, w') \<and>
    (termination_requested w \<longrightarrow> peep w' ends =
       Peeped (w'\<lparr>termination_requested := False\<rparr>) \<lparr>mh_idx = terminate_request, mh_length = 0\<rparr>) \<and>
    (\<not> termination_requested w \<and> onetime_notification w \<longrightarrow> peep w' ends = Peep_Throws w'
       (Runtime_Error ''received shutdown request from outside the communication partner''))"
proof -
  obtain w' where s: "serve_requests (length ms) w = Some (ms, w')" "content w' = []"
      "simple_wire.more w' = simple_wire.more w"
    using serve_messages [OF assms] by blast
  then show ?thesis
    using peep_empty [OF s(2)] message_wire_flags [OF s(3)] by blast
qed

definition sample_request_wire :: message_wire where
  "sample_request_wire = message_wire_terminate
     (new_message_wire 1 16 (message_header_get_buffer \<lparr>mh_idx = 3, mh_length = 2\<rparr> @ [8, 9] @ replicate 8 0)
       \<lparr>pushed := 8\<rparr>)"

theorem requests_before_termination_witness:
  "\<exists>w'. serve_requests 1 sample_request_wire = Some ([(\<lparr>mh_idx = 3, mh_length = 2\<rparr>, [8, 9])], w') \<and>
    peep w' [] = Peeped (w'\<lparr>termination_requested := False\<rparr>) \<lparr>mh_idx = terminate_request, mh_length = 0\<rparr>"
proof -
  have "content sample_request_wire =
      encode_stream message_header_class [(\<lparr>mh_idx = 3, mh_length = 2\<rparr>, [8, 9])]"
    by code_simp
  moreover have "wire_inv sample_request_wire \<and> unat (capacity sample_request_wire) dvd 2 ^ 64 \<and>
      need_dispose sample_request_wire = 0 \<and> termination_requested sample_request_wire"
    by (simp add: sample_request_wire_def message_wire_terminate_def new_message_wire_def
        new_simple_wire_def simple_wire.defs wire_inv_def stored_def wrap_free_def
        message_header_get_buffer_def)
  ultimately show ?thesis
    using requests_before_termination [of sample_request_wire "[(\<lparr>mh_idx = 3, mh_length = 2\<rparr>, [8, 9])]" "[]"]
    by auto
qed

section \<open>Waiting\<close>

text \<open>A wait that ends because its predicate holds, or by the timeout.\<close>

definition wait_ends_ok :: "('w \<Rightarrow> bool) \<Rightarrow> 'w wait_end \<Rightarrow> bool" where
  "wait_ends_ok wakes e = (case e of Woken w \<Rightarrow> wakes w | Timed_Out w \<Rightarrow> True)"

lemma check_ready:
  "peep_wakes w \<Longrightarrow> peep_check (termination_requested w) (onetime_notification w)
     (w\<lparr>wait_for_read := b\<rparr>) \<noteq> Peep_Waiting w'"
  "await_wakes v \<Longrightarrow> await_check (response_closed v \<or> response_shutdown v)
     (v\<lparr>wait_for_read := b\<rparr>) \<noteq> Peep_Waiting v'"
  by (auto simp: peep_wakes_def peep_check_def await_wakes_def await_check_def Let_def stored_def)

lemma peep_ready:
  assumes "peep_wakes w"
  shows "peep (w\<lparr>wait_for_read := b\<rparr>) ends =
    peep_check (termination_requested w) (onetime_notification w) (w\<lparr>wait_for_read := b\<rparr>)"
  using check_ready(1) [OF assms, of b] by (subst peep.simps) (auto split: peep_outcome.splits)

lemma await_ready:
  assumes "await_wakes w"
  shows "await (w\<lparr>wait_for_read := b\<rparr>) ends =
    await_check (response_closed w \<or> response_shutdown w) (w\<lparr>wait_for_read := b\<rparr>)"
  using check_ready(2) [OF assms, of b] by (subst await.simps) (auto split: peep_outcome.splits)

text \<open>
  C20. \<^verbatim>\<open>peep\<close> and \<^verbatim>\<open>await\<close> wait at most once: when the wait ends, by a message, by one of the
  flags or by the timeout, the call returns or throws, whatever would come after. Their loops
  thus end for every wait that ends.
\<close>

theorem one_wait:
  assumes "wait_ends_ok peep_wakes e" and "wait_ends_ok await_wakes f"
  shows "(\<forall>w'. peep w (e # es) \<noteq> Peep_Waiting w') \<and> peep w (e # es) = peep w [e] \<and>
    (\<forall>v'. await v (f # fs) \<noteq> Peep_Waiting v') \<and> await v (f # fs) = await v [f]"
proof -
  have "(\<forall>w'. peep w (e # es) \<noteq> Peep_Waiting w') \<and> peep w (e # es) = peep w [e]"
  proof (cases "\<exists>w1. peep_check (termination_requested w) (onetime_notification w) w = Peep_Waiting w1")
    case True
    then show ?thesis
      using assms(1) by (cases e; subst (1 2 3) peep.simps)
        (auto simp: wait_ends_ok_def peep_ready check_ready)
  next
    case False
    then show ?thesis
      by (subst (1 2 3) peep.simps) (auto split: peep_outcome.splits)
  qed
  moreover have "(\<forall>v'. await v (f # fs) \<noteq> Peep_Waiting v') \<and> await v (f # fs) = await v [f]"
  proof (cases "\<exists>v1. await_check (response_closed v \<or> response_shutdown v) v = Peep_Waiting v1")
    case True
    then show ?thesis
      using assms(2) by (cases f; subst (1 2 3) await.simps)
        (auto simp: wait_ends_ok_def await_ready check_ready)
  next
    case False
    then show ?thesis
      by (subst (1 2 3) await.simps) (auto split: peep_outcome.splits)
  qed
  ultimately show ?thesis by blast
qed

theorem one_wait_witness:
  "peep (new_message_wire 1 16 (replicate 16 0))
     [Woken (message_wire_terminate (new_message_wire 1 16 (replicate 16 0))), Timed_Out (new_message_wire 1 16 (replicate 16 0))] =
   peep (new_message_wire 1 16 (replicate 16 0))
     [Woken (message_wire_terminate (new_message_wire 1 16 (replicate 16 0)))]"
  using one_wait [of "Woken (message_wire_terminate (new_message_wire 1 16 (replicate 16 0)))"
      "Timed_Out (new_response_wire 1 16 (replicate 16 0))" "new_message_wire 1 16 (replicate 16 0)"]
  by (simp add: wait_ends_ok_def peep_wakes_def message_wire_terminate_def)

section \<open>Room for a response\<close>

text \<open>
  C30. \<^verbatim>\<open>is_writable\<close> compares the room with the payload alone, without the header: it answers
  true for every response whose payload fits, and when payload and header together do not, the
  \<^verbatim>\<open>write\<close> that follows waits for the client to read.
\<close>

theorem writable_may_wait:
  assumes "wire_inv w" and "\<not> response_closed w"
    and "unat (rh_length h) \<le> unat (room w)" "unat (room w) < unat (rh_length h) + response_header_size"
    and "unat (room w) < unat (capacity w)"
  shows "is_writable w h \<and> response_wire_write w p h = Some (Waiting_Head (w\<lparr>wait_for_write := True\<rparr>))"
proof -
  have "unat (write_length response_header_class h) = unat (rh_length h) + response_header_size"
    using write_length_eq [of response_header_class h]
    by (simp add: response_header_class_def response_header_size_def)
  then have "write_must_wait w (min_size (write_length response_header_class h) (capacity w)) False"
    using assms(4,5) by (simp add: write_must_wait_def word_less_nat_alt unat_min_size)
  then show ?thesis
    using assms(2,3)
    by (simp add: is_writable_def word_le_nat_alt unat_u32_u64 response_wire_write_def wire_write_def)
qed

theorem writable_may_wait_witness:
  "is_writable (new_response_wire 1 16 (replicate 16 0)\<lparr>pushed := 8\<rparr>) \<lparr>rh_idx = 0, rh_type = 1, rh_length = 8\<rparr> \<and>
   response_wire_write (new_response_wire 1 16 (replicate 16 0)\<lparr>pushed := 8\<rparr>) (replicate 8 1)
     \<lparr>rh_idx = 0, rh_type = 1, rh_length = 8\<rparr> =
   Some (Waiting_Head (new_response_wire 1 16 (replicate 16 0)\<lparr>pushed := 8, wait_for_write := True\<rparr>))"
  using writable_may_wait [of "new_response_wire 1 16 (replicate 16 0)\<lparr>pushed := 8\<rparr>"
      "\<lparr>rh_idx = 0, rh_type = 1, rh_length = 8\<rparr>" "replicate 8 1"]
  by (simp add: new_response_wire_def new_simple_wire_def simple_wire.defs wire_inv_def stored_def
      wrap_free_def room_def response_header_size_def)

end
