(* ===== verification/Wire_Wakeup.thy ===== *)
theory Wire_Wakeup
  imports Tateyama_Prelude
begin

text \<open>
  The waiting protocol of the wires. Five places of \<^verbatim>\<open>endpoint/ipc/wire.h\<close> wait in the same way:
  take the mutex \<^verbatim>\<open>m_mutex_\<close> of the wire, set the flag \<^verbatim>\<open>wait_for_read_\<close> or \<^verbatim>\<open>wait_for_write_\<close>, wait
  on the condition variable \<^verbatim>\<open>c_empty_\<close> or \<^verbatim>\<open>c_full_\<close> for a predicate over counters and flags,
  clear the flag. The other side changes a counter or flag \<^emph>\<open>without\<close> the mutex, then reads the
  waiting flag, and only if it is set takes the mutex and notifies.

  A wire has one reader and one writer, which may both be waiting, and any number of threads that
  change it (the reader and the writer themselves while they do not wait, and the threads that
  terminate, notify and close). All share the one mutex. The steps below are the atomic accesses
  in the order of the code, interleaved in any way; the accesses are sequentially consistent, as
  those of \<^verbatim>\<open>std::atomic\<close> are by default.
\<close>

section \<open>Waits and updates\<close>

datatype wire_condition = C_Empty | C_Full

text \<open>
  The waits: \<^verbatim>\<open>simple_wire::read\<close> and \<^verbatim>\<open>wait_to_write\<close>, \<^verbatim>\<open>peep\<close> of the request wire, \<^verbatim>\<open>await\<close> of
  the response wire, \<^verbatim>\<open>wait_to_resultset_write\<close> of a result set.
\<close>

datatype wait_site = Read_Wait | Write_Wait | Peep_Wait | Await_Wait | Resultset_Write_Wait

text \<open>
  The updates: the counters \<^verbatim>\<open>pushed_\<close> (\<^verbatim>\<open>write\<close>) and \<^verbatim>\<open>poped_\<close> (\<^verbatim>\<open>read\<close>, \<^verbatim>\<open>dispose\<close>); \<^verbatim>\<open>terminate\<close>,
  \<^verbatim>\<open>notify\<close> and \<^verbatim>\<open>close\<close> of the request wire; \<^verbatim>\<open>close\<close>, \<^verbatim>\<open>notify_shutdown\<close> and \<^verbatim>\<open>force_close\<close> of the
  response wire; \<^verbatim>\<open>set_closed\<close> of a wire of a result set.
\<close>

datatype wire_update =
    Push
  | Pop
  | Terminate
  | Notify
  | Request_Close
  | Response_Close
  | Notify_Shutdown
  | Force_Close
  | Set_Closed

fun waits_on :: "wait_site \<Rightarrow> wire_condition" where
  "waits_on Read_Wait = C_Empty"
| "waits_on Write_Wait = C_Full"
| "waits_on Peep_Wait = C_Empty"
| "waits_on Await_Wait = C_Empty"
| "waits_on Resultset_Write_Wait = C_Full"

fun timed :: "wait_site \<Rightarrow> bool" where
  "timed Peep_Wait = True"
| "timed Await_Wait = True"
| "timed _ = False"

text \<open>The updates that can make the predicate of a wait true.\<close>

fun awaited :: "wait_site \<Rightarrow> wire_update \<Rightarrow> bool" where
  "awaited Read_Wait u = (u = Push)"
| "awaited Write_Wait u = (u \<in> {Pop, Request_Close, Response_Close, Force_Close})"
| "awaited Peep_Wait u = (u \<in> {Push, Terminate, Notify})"
| "awaited Await_Wait u = (u \<in> {Push, Response_Close, Notify_Shutdown, Force_Close})"
| "awaited Resultset_Write_Wait u = (u \<in> {Pop, Set_Closed})"

text \<open>The conditions for which the thread reads the waiting flag after an update, in order.\<close>

fun looks :: "wire_update \<Rightarrow> wire_condition list" where
  "looks Push = [C_Empty]"
| "looks Pop = [C_Full]"
| "looks Terminate = [C_Empty]"
| "looks Notify = [C_Empty]"
| "looks Request_Close = [C_Full]"
| "looks Response_Close = [C_Full, C_Empty]"
| "looks Notify_Shutdown = [C_Empty]"
| "looks Force_Close = [C_Full]"
| "looks Set_Closed = [C_Full]"

section \<open>Steps\<close>

text \<open>A wait ends with the value of its predicate, which is false only after a timeout.\<close>

datatype waiter_pc =
    Wt_Idle          \<comment> \<open>before \<^verbatim>\<open>scoped_lock lock(m_mutex_)\<close>\<close>
  | Wt_Locked        \<comment> \<open>before the flag is set\<close>
  | Wt_Flagged       \<comment> \<open>before the predicate is evaluated\<close>
  | Wt_Checked       \<comment> \<open>the predicate was false, before the thread goes to sleep\<close>
  | Wt_Asleep
  | Wt_Woken         \<comment> \<open>woken, before the mutex is taken again\<close>
  | Wt_Timed_Out     \<comment> \<open>the time is over, before the mutex is taken again\<close>
  | Wt_Last_Check    \<comment> \<open>before the predicate is evaluated for the last time\<close>
  | Wt_Leaving bool  \<comment> \<open>before the flag is cleared\<close>
  | Wt_Unlocking bool
  | Wt_Done bool

datatype notifier_pc =
    Nt_Look "wire_condition list"                  \<comment> \<open>flags still to be read; none: nothing to do\<close>
  | Nt_Seen wire_condition "wire_condition list"   \<comment> \<open>the flag was set, before the mutex is taken\<close>
  | Nt_Locked wire_condition "wire_condition list" \<comment> \<open>before \<^verbatim>\<open>notify_one\<close>\<close>
  | Nt_Notified "wire_condition list"              \<comment> \<open>before the mutex is released\<close>

datatype mutex_owner = Nobody | Waiter wire_condition | Notifier nat

text \<open>
  The state: what the waiter on each condition waits for and where it is, whether its predicate
  holds (\<open>wk_quiet\<close>: it was made true by an update that does not look at the condition), and
  whether \<^verbatim>\<open>force_close\<close> was called.
\<close>

record wakeup =
  wk_site :: "wire_condition \<Rightarrow> wait_site"
  wk_ready :: "wire_condition \<Rightarrow> bool"
  wk_quiet :: "wire_condition \<Rightarrow> bool"
  wk_forced :: bool
  wk_flag :: "wire_condition \<Rightarrow> bool"
  wk_mutex :: mutex_owner
  wk_waiter :: "wire_condition \<Rightarrow> waiter_pc"
  wk_notifiers :: "notifier_pc list"

definition predicate_holds :: "wakeup \<Rightarrow> wire_condition \<Rightarrow> bool" where
  "predicate_holds s c \<longleftrightarrow> wk_ready s c \<or> wk_quiet s c"

text \<open>A wire with \<open>n\<close> threads that change it; both waits have just been begun.\<close>

definition wakeup_init :: "(wire_condition \<Rightarrow> wait_site) \<Rightarrow> (wire_condition \<Rightarrow> bool) \<Rightarrow> nat \<Rightarrow> wakeup" where
  "wakeup_init sites ready n = \<lparr>wk_site = sites, wk_ready = ready, wk_quiet = (\<lambda>_. False), wk_forced = False,
     wk_flag = (\<lambda>_. False), wk_mutex = Nobody, wk_waiter = (\<lambda>_. Wt_Idle), wk_notifiers = replicate n (Nt_Look [])\<rparr>"

definition go :: "wire_condition \<Rightarrow> waiter_pc \<Rightarrow> wakeup \<Rightarrow> wakeup" where
  "go c p s = s\<lparr>wk_waiter := (wk_waiter s)(c := p)\<rparr>"

definition turn :: "nat \<Rightarrow> notifier_pc \<Rightarrow> wakeup \<Rightarrow> wakeup" where
  "turn i p s = s\<lparr>wk_notifiers := (wk_notifiers s)[i := p]\<rparr>"

definition wake :: "wire_condition \<Rightarrow> wakeup \<Rightarrow> wakeup" where
  "wake c s = (if wk_waiter s c = Wt_Asleep then go c Wt_Woken s else s)"

text \<open>The steps the threads take on their own account once they have begun.\<close>

inductive wakeup_move :: "wakeup \<Rightarrow> wakeup \<Rightarrow> bool" where
  wm_lock: "\<lbrakk>wk_waiter s c = Wt_Idle; wk_mutex s = Nobody\<rbrakk>
    \<Longrightarrow> wakeup_move s (go c Wt_Locked s\<lparr>wk_mutex := Waiter c\<rparr>)"
| wm_flag: "wk_waiter s c = Wt_Locked
    \<Longrightarrow> wakeup_move s (go c Wt_Flagged s\<lparr>wk_flag := (wk_flag s)(c := True)\<rparr>)"
| wm_check: "wk_waiter s c = Wt_Flagged
    \<Longrightarrow> wakeup_move s (go c (if predicate_holds s c then Wt_Leaving True else Wt_Checked) s)"
| wm_sleep: "wk_waiter s c = Wt_Checked
    \<Longrightarrow> wakeup_move s (go c Wt_Asleep s\<lparr>wk_mutex := Nobody\<rparr>)"
| wm_relock: "\<lbrakk>wk_waiter s c = Wt_Woken; wk_mutex s = Nobody\<rbrakk>
    \<Longrightarrow> wakeup_move s (go c Wt_Flagged s\<lparr>wk_mutex := Waiter c\<rparr>)"
| wm_late_lock: "\<lbrakk>wk_waiter s c = Wt_Timed_Out; wk_mutex s = Nobody\<rbrakk>
    \<Longrightarrow> wakeup_move s (go c Wt_Last_Check s\<lparr>wk_mutex := Waiter c\<rparr>)"
| wm_late_check: "wk_waiter s c = Wt_Last_Check
    \<Longrightarrow> wakeup_move s (go c (Wt_Leaving (predicate_holds s c)) s)"
| wm_leave: "wk_waiter s c = Wt_Leaving ok
    \<Longrightarrow> wakeup_move s (go c (Wt_Unlocking ok) s\<lparr>wk_flag := (wk_flag s)(c := False)\<rparr>)"
| wm_unlock: "wk_waiter s c = Wt_Unlocking ok
    \<Longrightarrow> wakeup_move s (go c (Wt_Done ok) s\<lparr>wk_mutex := Nobody\<rparr>)"
| wm_look: "\<lbrakk>i < length (wk_notifiers s); wk_notifiers s ! i = Nt_Look (c # cs)\<rbrakk>
    \<Longrightarrow> wakeup_move s (turn i (if wk_flag s c then Nt_Seen c cs else Nt_Look cs) s)"
| wm_nlock: "\<lbrakk>i < length (wk_notifiers s); wk_notifiers s ! i = Nt_Seen c cs; wk_mutex s = Nobody\<rbrakk>
    \<Longrightarrow> wakeup_move s (turn i (Nt_Locked c cs) s\<lparr>wk_mutex := Notifier i\<rparr>)"
| wm_notify: "\<lbrakk>i < length (wk_notifiers s); wk_notifiers s ! i = Nt_Locked c cs\<rbrakk>
    \<Longrightarrow> wakeup_move s (wake c (turn i (Nt_Notified cs) s))"
| wm_nunlock: "\<lbrakk>i < length (wk_notifiers s); wk_notifiers s ! i = Nt_Notified cs\<rbrakk>
    \<Longrightarrow> wakeup_move s (turn i (Nt_Look cs) s\<lparr>wk_mutex := Nobody\<rparr>)"

text \<open>
  An update by a thread that has nothing else to do. It may make the predicates true of the waits
  that await it (those in \<open>B\<close>); while a thread waits, nothing makes its predicate false: only the
  reader pops and clears the termination request, only the writer pushes, and the other flags are
  never cleared.
\<close>

definition update_wire :: "nat \<Rightarrow> wire_update \<Rightarrow> wire_condition set \<Rightarrow> wakeup \<Rightarrow> wakeup" where
  "update_wire i u B s = turn i (Nt_Look (looks u)) s
     \<lparr>wk_ready := (\<lambda>c. wk_ready s c \<or> c \<in> B \<and> awaited (wk_site s c) u \<and> c \<in> set (looks u)),
      wk_quiet := (\<lambda>c. wk_quiet s c \<or> c \<in> B \<and> awaited (wk_site s c) u \<and> c \<notin> set (looks u)),
      wk_forced := wk_forced s \<or> u = Force_Close\<rparr>"

text \<open>
  Besides the moves: an update; a sleeper that wakes up spuriously; the end of the time of a
  timed wait; and a new wait, of any kind on that condition, by a thread that is past its wait.
\<close>

inductive wakeup_step :: "wakeup \<Rightarrow> wakeup \<Rightarrow> bool" where
  ws_move: "wakeup_move s s' \<Longrightarrow> wakeup_step s s'"
| ws_update: "\<lbrakk>i < length (wk_notifiers s); wk_notifiers s ! i = Nt_Look []\<rbrakk>
    \<Longrightarrow> wakeup_step s (update_wire i u B s)"
| ws_spurious: "wk_waiter s c = Wt_Asleep \<Longrightarrow> wakeup_step s (go c Wt_Woken s)"
| ws_timeout: "\<lbrakk>wk_waiter s c = Wt_Asleep; timed (wk_site s c)\<rbrakk> \<Longrightarrow> wakeup_step s (go c Wt_Timed_Out s)"
| ws_again: "\<lbrakk>wk_waiter s c = Wt_Done ok; waits_on site = c; quiet \<longrightarrow> site = Await_Wait \<and> wk_forced s\<rbrakk>
    \<Longrightarrow> wakeup_step s (go c Wt_Idle s\<lparr>wk_site := (wk_site s)(c := site),
          wk_ready := (wk_ready s)(c := ready), wk_quiet := (wk_quiet s)(c := quiet)\<rparr>)"

section \<open>The invariant\<close>

fun waiter_holds :: "waiter_pc \<Rightarrow> bool" where
  "waiter_holds Wt_Locked = True"
| "waiter_holds Wt_Flagged = True"
| "waiter_holds Wt_Checked = True"
| "waiter_holds Wt_Last_Check = True"
| "waiter_holds (Wt_Leaving ok) = True"
| "waiter_holds (Wt_Unlocking ok) = True"
| "waiter_holds _ = False"

fun notifier_holds :: "notifier_pc \<Rightarrow> bool" where
  "notifier_holds (Nt_Locked c cs) = True"
| "notifier_holds (Nt_Notified cs) = True"
| "notifier_holds _ = False"

text \<open>A thread that will still notify a condition whose flag it finds set.\<close>

fun will_notify :: "wire_condition \<Rightarrow> notifier_pc \<Rightarrow> bool" where
  "will_notify c (Nt_Look cs) = (c \<in> set cs)"
| "will_notify c (Nt_Seen c' cs) = (c = c' \<or> c \<in> set cs)"
| "will_notify c (Nt_Locked c' cs) = (c = c' \<or> c \<in> set cs)"
| "will_notify c (Nt_Notified cs) = (c \<in> set cs)"

definition notified_soon :: "wakeup \<Rightarrow> wire_condition \<Rightarrow> bool" where
  "notified_soon s c \<longleftrightarrow> (\<exists>i < length (wk_notifiers s). will_notify c (wk_notifiers s ! i))"

definition mutex_inv :: "wakeup \<Rightarrow> bool" where
  "mutex_inv s \<longleftrightarrow> (\<forall>c. waiter_holds (wk_waiter s c) \<longleftrightarrow> wk_mutex s = Waiter c) \<and>
     (\<forall>i < length (wk_notifiers s). notifier_holds (wk_notifiers s ! i) \<longleftrightarrow> wk_mutex s = Notifier i) \<and>
     (\<forall>i. wk_mutex s = Notifier i \<longrightarrow> i < length (wk_notifiers s))"

definition waiter_inv :: "wakeup \<Rightarrow> wire_condition \<Rightarrow> bool" where
  "waiter_inv s c \<longleftrightarrow>
     (wk_waiter s c \<in> {Wt_Flagged, Wt_Checked, Wt_Asleep, Wt_Woken, Wt_Timed_Out, Wt_Last_Check} \<longrightarrow> wk_flag s c) \<and>
     (wk_waiter s c \<in> {Wt_Checked, Wt_Asleep} \<and> wk_ready s c \<longrightarrow> notified_soon s c) \<and>
     (wk_quiet s c \<longrightarrow> wk_site s c = Await_Wait \<and> wk_forced s) \<and>
     waits_on (wk_site s c) = c"

definition wakeup_inv :: "wakeup \<Rightarrow> bool" where
  "wakeup_inv s \<longleftrightarrow> mutex_inv s \<and> (\<forall>c. waiter_inv s c)"

text \<open>Only \<^verbatim>\<open>force_close\<close> changes what a wait is for without looking at its condition.\<close>

lemma awaited_looks:
  "awaited site u \<Longrightarrow> waits_on site \<in> set (looks u) \<or> site = Await_Wait \<and> u = Force_Close"
  by (cases site) auto

lemma go_fields [simp]:
  "wk_site (go c p s) = wk_site s" "wk_ready (go c p s) = wk_ready s" "wk_quiet (go c p s) = wk_quiet s"
  "wk_forced (go c p s) = wk_forced s" "wk_flag (go c p s) = wk_flag s" "wk_mutex (go c p s) = wk_mutex s"
  "wk_waiter (go c p s) = (wk_waiter s)(c := p)" "wk_notifiers (go c p s) = wk_notifiers s"
  by (simp_all add: go_def)

lemma turn_fields [simp]:
  "wk_site (turn i q s) = wk_site s" "wk_ready (turn i q s) = wk_ready s" "wk_quiet (turn i q s) = wk_quiet s"
  "wk_forced (turn i q s) = wk_forced s" "wk_flag (turn i q s) = wk_flag s" "wk_mutex (turn i q s) = wk_mutex s"
  "wk_waiter (turn i q s) = wk_waiter s" "wk_notifiers (turn i q s) = (wk_notifiers s)[i := q]"
  by (simp_all add: turn_def)

lemma wake_fields [simp]:
  "wk_site (wake c s) = wk_site s" "wk_ready (wake c s) = wk_ready s" "wk_quiet (wake c s) = wk_quiet s"
  "wk_forced (wake c s) = wk_forced s" "wk_flag (wake c s) = wk_flag s" "wk_mutex (wake c s) = wk_mutex s"
  "wk_waiter (wake c s) = (if wk_waiter s c = Wt_Asleep then (wk_waiter s)(c := Wt_Woken) else wk_waiter s)"
  "wk_notifiers (wake c s) = wk_notifiers s"
  by (simp_all add: wake_def)

lemma mutex_waiter: "mutex_inv s \<Longrightarrow> waiter_holds (wk_waiter s c) \<Longrightarrow> wk_mutex s = Waiter c"
  by (simp add: mutex_inv_def)

lemma mutex_notifier:
  "mutex_inv s \<Longrightarrow> i < length (wk_notifiers s) \<Longrightarrow> notifier_holds (wk_notifiers s ! i) \<Longrightarrow> wk_mutex s = Notifier i"
  by (simp add: mutex_inv_def)

lemma mutex_inv_move: "wakeup_move s s' \<Longrightarrow> mutex_inv s \<Longrightarrow> mutex_inv s'"
proof (induction rule: wakeup_move.induct)
  case (wm_sleep s c)
  then show ?case
    using mutex_waiter [OF wm_sleep(2), of c] by (auto simp: mutex_inv_def)
next
  case (wm_unlock s c ok)
  then show ?case
    using mutex_waiter [OF wm_unlock(2), of c] by (auto simp: mutex_inv_def)
next
  case (wm_nunlock i s cs)
  then show ?case
    using mutex_notifier [OF wm_nunlock(3,1)] by (auto simp: mutex_inv_def nth_update_if)
qed (auto simp: mutex_inv_def nth_update_if split: if_splits)

lemma soon_frame: "wk_notifiers s' = wk_notifiers s \<Longrightarrow> notified_soon s' c \<longleftrightarrow> notified_soon s c"
  by (simp add: notified_soon_def)

text \<open>A step of a thread keeps the notifications it has announced for a waiter that goes to sleep or sleeps.\<close>

lemma waiter_inv_turn:
  assumes "waiter_inv s d" "i < length (wk_notifiers s)" "wk_notifiers s' = (wk_notifiers s)[i := q]"
    "wk_site s' = wk_site s" "wk_ready s' = wk_ready s" "wk_quiet s' = wk_quiet s" "wk_forced s' = wk_forced s"
    "wk_flag s' = wk_flag s"
    "wk_waiter s' d = wk_waiter s d \<or> wk_waiter s d = Wt_Asleep \<and> wk_waiter s' d = Wt_Woken"
    "wk_waiter s' d \<in> {Wt_Checked, Wt_Asleep} \<Longrightarrow> wk_flag s d \<Longrightarrow> will_notify d (wk_notifiers s ! i) \<Longrightarrow> will_notify d q"
  shows "waiter_inv s' d"
proof -
  have soon: "notified_soon s' d"
    if old: "notified_soon s d" and w: "wk_waiter s' d \<in> {Wt_Checked, Wt_Asleep}" and flag: "wk_flag s d"
  proof -
    obtain j where j: "j < length (wk_notifiers s)" "will_notify d (wk_notifiers s ! j)"
      using old unfolding notified_soon_def by blast
    then have "will_notify d (wk_notifiers s' ! j)"
      using assms(10) [OF w flag] assms(3) by (simp add: nth_update_if)
    then show ?thesis
      using j(1) assms(3) unfolding notified_soon_def by (intro exI [of _ j]) simp
  qed
  note same = assms(4-8)
  from assms(9) show ?thesis
  proof
    assume w: "wk_waiter s' d = wk_waiter s d"
    have "wk_waiter s d \<in> {Wt_Checked, Wt_Asleep} \<Longrightarrow> wk_flag s d"
      using assms(1) by (auto simp: waiter_inv_def)
    then show ?thesis
      using assms(1) soon unfolding waiter_inv_def same w by blast
  next
    assume "wk_waiter s d = Wt_Asleep \<and> wk_waiter s' d = Wt_Woken"
    then show ?thesis
      using assms(1) unfolding waiter_inv_def same by simp
  qed
qed

lemma waiter_inv_move:
  assumes "wakeup_move s s'" "mutex_inv s" "\<And>c. waiter_inv s c"
  shows "waiter_inv s' d"
  using assms
proof (induction rule: wakeup_move.induct)
  case (wm_look i s c cs)
  show ?case
    by (rule waiter_inv_turn [OF wm_look(4) wm_look(1)]) (auto simp: wm_look(2))
next
  case (wm_nlock i s c cs)
  show ?case
    by (rule waiter_inv_turn [OF wm_nlock(5) wm_nlock(1)]) (auto simp: wm_nlock(2))
next
  case (wm_notify i s c cs)
  have "\<not> waiter_holds (wk_waiter s d)"
    using mutex_notifier [OF wm_notify(3,1)] mutex_waiter [OF wm_notify(3), of d] wm_notify(2) by auto
  then show ?case
    by (intro waiter_inv_turn [OF wm_notify(4) wm_notify(1)]) (auto simp: wm_notify(2) split: if_splits)
next
  case (wm_nunlock i s cs)
  show ?case
    by (rule waiter_inv_turn [OF wm_nunlock(4) wm_nunlock(1)]) (auto simp: wm_nunlock(2))
next
  case (wm_lock s c)
  show ?case using wm_lock(1,2) wm_lock(4) [of d] by (auto simp: waiter_inv_def notified_soon_def)
next
  case (wm_flag s c)
  show ?case using wm_flag(1) wm_flag(3) [of d] by (auto simp: waiter_inv_def notified_soon_def)
next
  case (wm_check s c)
  show ?case using wm_check(1) wm_check(3) [of d] by (auto simp: waiter_inv_def notified_soon_def predicate_holds_def)
next
  case (wm_sleep s c)
  show ?case using wm_sleep(1) wm_sleep(3) [of d] by (auto simp: waiter_inv_def notified_soon_def)
next
  case (wm_relock s c)
  show ?case using wm_relock(1,2) wm_relock(4) [of d] by (auto simp: waiter_inv_def notified_soon_def)
next
  case (wm_late_lock s c)
  show ?case using wm_late_lock(1,2) wm_late_lock(4) [of d] by (auto simp: waiter_inv_def notified_soon_def)
next
  case (wm_late_check s c)
  show ?case using wm_late_check(1) wm_late_check(3) [of d] by (auto simp: waiter_inv_def notified_soon_def)
next
  case (wm_leave s c ok)
  show ?case using wm_leave(1) wm_leave(3) [of d] by (auto simp: waiter_inv_def notified_soon_def)
next
  case (wm_unlock s c ok)
  show ?case using wm_unlock(1) wm_unlock(3) [of d] by (auto simp: waiter_inv_def notified_soon_def)
qed

lemma wakeup_inv_move: "wakeup_move s s' \<Longrightarrow> wakeup_inv s \<Longrightarrow> wakeup_inv s'"
  by (simp add: wakeup_inv_def mutex_inv_move waiter_inv_move)

lemma wakeup_inv_update:
  assumes "wakeup_inv s" "i < length (wk_notifiers s)" "wk_notifiers s ! i = Nt_Look []"
  shows "wakeup_inv (update_wire i u B s)"
proof -
  have "mutex_inv (update_wire i u B s)"
    using assms by (auto simp: wakeup_inv_def mutex_inv_def update_wire_def nth_update_if)
  moreover have "waiter_inv (update_wire i u B s) c" for c
  proof -
    have inv: "waiter_inv s c"
      using assms(1) by (simp add: wakeup_inv_def)
    have old: "notified_soon (update_wire i u B s) c" if soon: "notified_soon s c"
    proof -
      obtain j where j: "j < length (wk_notifiers s)" "will_notify c (wk_notifiers s ! j)"
        using soon unfolding notified_soon_def by blast
      then have "j \<noteq> i"
        using assms(3) by auto
      then show ?thesis
        using j unfolding notified_soon_def update_wire_def by (intro exI [of _ j]) simp
    qed
    have new: "notified_soon (update_wire i u B s) c" if "c \<in> set (looks u)"
      using that assms(2) unfolding notified_soon_def update_wire_def by (intro exI [of _ i]) simp
    have f: "wk_site (update_wire i u B s) = wk_site s" "wk_flag (update_wire i u B s) = wk_flag s"
      "wk_waiter (update_wire i u B s) = wk_waiter s"
      "wk_ready (update_wire i u B s) c \<Longrightarrow> wk_ready s c \<or> c \<in> set (looks u)"
      "wk_quiet (update_wire i u B s) c \<Longrightarrow> wk_quiet s c \<or> awaited (wk_site s c) u \<and> c \<notin> set (looks u)"
      "wk_forced (update_wire i u B s) = (wk_forced s \<or> u = Force_Close)"
      by (auto simp: update_wire_def)
    have "awaited (wk_site s c) u \<Longrightarrow> c \<in> set (looks u) \<or> wk_site s c = Await_Wait \<and> u = Force_Close"
      using inv awaited_looks [of "wk_site s c" u] by (simp add: waiter_inv_def)
    then show ?thesis
      using inv f(4,5) old new
      unfolding waiter_inv_def f(1,2,3,6) by blast
  qed
  ultimately show ?thesis
    by (simp add: wakeup_inv_def)
qed

lemma wakeup_inv_waiter:
  assumes "wakeup_inv s" "\<not> waiter_holds (wk_waiter s c)" "\<not> waiter_holds p"
    "wk_waiter s' = (wk_waiter s)(c := p)" "wk_mutex s' = wk_mutex s" "wk_notifiers s' = wk_notifiers s"
    "\<And>d. d \<noteq> c \<Longrightarrow> wk_site s' d = wk_site s d \<and> wk_ready s' d = wk_ready s d \<and> wk_quiet s' d = wk_quiet s d"
    "wk_forced s' = wk_forced s" "wk_flag s' = wk_flag s" "waiter_inv s' c"
  shows "wakeup_inv s'"
proof -
  have m: "mutex_inv s" and w: "waiter_inv s d" for d
    using assms(1) by (simp_all add: wakeup_inv_def)
  have "mutex_inv s'"
    using m assms(2-6) by (auto simp: mutex_inv_def)
  moreover have "waiter_inv s' d" if "d \<noteq> c" for d
    using w [of d] that assms(4,8,9) assms(7) [OF that] soon_frame [OF assms(6), of d]
    by (simp add: waiter_inv_def)
  ultimately show ?thesis
    using assms(10) unfolding wakeup_inv_def by metis
qed

lemma wakeup_inv_step: "wakeup_step s s' \<Longrightarrow> wakeup_inv s \<Longrightarrow> wakeup_inv s'"
proof (induction rule: wakeup_step.induct)
  case (ws_move s s')
  then show ?case by (rule wakeup_inv_move)
next
  case (ws_update i s u B)
  then show ?case by (intro wakeup_inv_update)
next
  case (ws_spurious s c)
  then have "waiter_inv s c"
    by (simp add: wakeup_inv_def)
  then show ?case
    using ws_spurious(1) by (intro wakeup_inv_waiter [OF ws_spurious(2)]) (auto simp: waiter_inv_def)
next
  case (ws_timeout s c)
  then have "waiter_inv s c"
    by (simp add: wakeup_inv_def)
  then show ?case
    using ws_timeout(1) by (intro wakeup_inv_waiter [OF ws_timeout(3)]) (auto simp: waiter_inv_def)
next
  case (ws_again s c ok site quiet ready)
  show ?case
    by (rule wakeup_inv_waiter [OF ws_again(4), of c]) (use ws_again(1-3) in \<open>auto simp: waiter_inv_def\<close>)
qed

lemma wakeup_inv_reachable:
  assumes "wakeup_step\<^sup>*\<^sup>* (wakeup_init sites ready n) s" "\<And>c. waits_on (sites c) = c"
  shows "wakeup_inv s"
  using assms(1)
proof (induction rule: rtranclp_induct)
  case base
  then show ?case
    using assms(2) by (auto simp: wakeup_inv_def mutex_inv_def waiter_inv_def wakeup_init_def)
qed (rule wakeup_inv_step)

section \<open>Progress\<close>

text \<open>A measure that every move makes smaller: a notification costs more than the round it starts.\<close>

fun waiter_rank :: "waiter_pc \<Rightarrow> nat" where
  "waiter_rank Wt_Idle = 9"
| "waiter_rank Wt_Locked = 8"
| "waiter_rank Wt_Woken = 8"
| "waiter_rank Wt_Flagged = 7"
| "waiter_rank Wt_Checked = 6"
| "waiter_rank Wt_Asleep = 5"
| "waiter_rank Wt_Timed_Out = 5"
| "waiter_rank Wt_Last_Check = 4"
| "waiter_rank (Wt_Leaving ok) = 3"
| "waiter_rank (Wt_Unlocking ok) = 2"
| "waiter_rank (Wt_Done ok) = 1"

fun notifier_rank :: "notifier_pc \<Rightarrow> nat" where
  "notifier_rank (Nt_Look cs) = 16 * length cs"
| "notifier_rank (Nt_Seen c cs) = 16 * length cs + 12"
| "notifier_rank (Nt_Locked c cs) = 16 * length cs + 8"
| "notifier_rank (Nt_Notified cs) = 16 * length cs + 1"

definition wakeup_rank :: "wakeup \<Rightarrow> nat" where
  "wakeup_rank s = waiter_rank (wk_waiter s C_Empty) + waiter_rank (wk_waiter s C_Full) +
     sum_list (map notifier_rank (wk_notifiers s))"

lemma rank_turn:
  assumes "i < length ns" "notifier_rank q + k \<le> notifier_rank (ns ! i)"
  shows "sum_list (map notifier_rank (ns[i := q])) + k \<le> sum_list (map notifier_rank ns)"
proof -
  have "sum_list (map notifier_rank (take i ns @ ns ! i # drop (Suc i) ns)) = sum_list (map notifier_rank ns)"
    using id_take_nth_drop [OF assms(1)] by simp
  then show ?thesis
    using assms by (simp add: upd_conv_take_nth_drop)
qed

lemma wakeup_rank_move: "wakeup_move s s' \<Longrightarrow> wakeup_rank s' < wakeup_rank s"
proof (induction rule: wakeup_move.induct)
  case (wm_look i s c cs)
  then show ?case
    using rank_turn [of i "wk_notifiers s" "if wk_flag s c then Nt_Seen c cs else Nt_Look cs" 1]
    by (auto simp: wakeup_rank_def)
next
  case (wm_nlock i s c cs)
  then show ?case
    using rank_turn [of i "wk_notifiers s" "Nt_Locked c cs" 1] by (simp add: wakeup_rank_def)
next
  case (wm_notify i s c cs)
  then show ?case
    using rank_turn [of i "wk_notifiers s" "Nt_Notified cs" 7]
    by (cases c) (simp_all add: wakeup_rank_def)
next
  case (wm_nunlock i s cs)
  then show ?case
    using rank_turn [of i "wk_notifiers s" "Nt_Look cs" 1] by (simp add: wakeup_rank_def)
qed (case_tac c; simp add: wakeup_rank_def)+

lemma wakeup_progress:
  assumes "wakeup_inv s" "wk_ready s c" "\<And>ok. wk_waiter s c \<noteq> Wt_Done ok"
  shows "\<exists>s'. wakeup_move s s'"
proof -
  have m: "mutex_inv s" and w: "waiter_inv s c"
    using assms(1) by (simp_all add: wakeup_inv_def)
  show ?thesis
  proof (cases "wk_mutex s")
    case (Waiter d)
    then have "waiter_holds (wk_waiter s d)"
      using m by (simp add: mutex_inv_def)
    then show ?thesis
      by (cases "wk_waiter s d") (auto intro: wm_flag wm_check wm_sleep wm_late_check wm_leave wm_unlock)
  next
    case (Notifier i)
    then have "i < length (wk_notifiers s)" "notifier_holds (wk_notifiers s ! i)"
      using m by (auto simp: mutex_inv_def)
    then show ?thesis
      by (cases "wk_notifiers s ! i") (auto intro: wm_notify wm_nunlock)
  next
    case Nobody
    show ?thesis
    proof (cases "wk_waiter s c = Wt_Asleep")
      case True
      then obtain i where "i < length (wk_notifiers s)" "will_notify c (wk_notifiers s ! i)"
        using w assms(2) by (auto simp: waiter_inv_def notified_soon_def)
      then show ?thesis
      proof (cases "wk_notifiers s ! i")
        case (Nt_Look cs)
        then obtain c' cs' where "wk_notifiers s ! i = Nt_Look (c' # cs')"
          using \<open>will_notify c (wk_notifiers s ! i)\<close> by (cases cs) auto
        then show ?thesis
          using \<open>i < length (wk_notifiers s)\<close> by (blast intro: wm_look)
      qed (use Nobody \<open>i < length (wk_notifiers s)\<close> in \<open>blast intro: wm_nlock wm_notify wm_nunlock\<close>)+
    next
      case False
      moreover have "\<not> waiter_holds (wk_waiter s c)"
        using m Nobody by (simp add: mutex_inv_def)
      ultimately show ?thesis
        using Nobody assms(3) by (cases "wk_waiter s c") (auto intro: wm_lock wm_relock wm_late_lock)
    qed
  qed
qed

text \<open>A waiter that leaves because its time was over before the predicate held.\<close>

fun gave_up :: "waiter_pc \<Rightarrow> bool" where
  "gave_up (Wt_Leaving ok) = (\<not> ok)"
| "gave_up (Wt_Unlocking ok) = (\<not> ok)"
| "gave_up (Wt_Done ok) = (\<not> ok)"
| "gave_up _ = False"

lemma move_keeps:
  assumes "wakeup_move s s'"
  shows "wk_ready s' = wk_ready s" and "wk_quiet s' = wk_quiet s"
    and "predicate_holds s c \<Longrightarrow> \<not> gave_up (wk_waiter s c) \<Longrightarrow> \<not> gave_up (wk_waiter s' c)"
  using assms by (induction rule: wakeup_move.induct) (auto split: if_splits)

lemma moves_keep:
  assumes "wakeup_move\<^sup>*\<^sup>* s s'" "wakeup_inv s" "wk_ready s c"
  shows "wakeup_inv s' \<and> wk_ready s' c \<and> (\<not> gave_up (wk_waiter s c) \<longrightarrow> \<not> gave_up (wk_waiter s' c))"
  using assms(1)
proof (induction rule: rtranclp_induct)
  case (step t u)
  then have "predicate_holds t c"
    by (simp add: predicate_holds_def)
  then show ?case
    using step wakeup_inv_move [of t u] move_keeps(1,3) [OF step(2)] by auto
qed (use assms(2,3) in simp)

lemma moves_end: "\<nexists>f. f 0 = s \<and> (\<forall>i. wakeup_move (f i) (f (Suc i)))"
proof
  assume "\<exists>f. f 0 = s \<and> (\<forall>i. wakeup_move (f i) (f (Suc i)))"
  then obtain f where "\<forall>i. wakeup_move (f i) (f (Suc i))" by blast
  then have "\<forall>i. (f (Suc i), f i) \<in> measure wakeup_rank"
    using wakeup_rank_move by simp
  then show False
    using wf_measure [of wakeup_rank] unfolding wf_iff_no_infinite_down_chain by blast
qed

lemma reaches_done:
  assumes "wakeup_inv s" "wk_ready s c"
  shows "\<exists>s' ok. wakeup_move\<^sup>*\<^sup>* s s' \<and> wk_waiter s' c = Wt_Done ok"
  using assms
proof (induction s rule: measure_induct_rule [of wakeup_rank])
  case (less s)
  show ?case
  proof (cases "\<exists>ok. wk_waiter s c = Wt_Done ok")
    case False
    then obtain s1 where s1: "wakeup_move s s1"
      using wakeup_progress [OF less.prems] by blast
    then obtain s' ok where "wakeup_move\<^sup>*\<^sup>* s1 s'" "wk_waiter s' c = Wt_Done ok"
      using less.IH [of s1] wakeup_rank_move wakeup_inv_move move_keeps(1) less.prems by metis
    then show ?thesis
      using converse_rtranclp_into_rtranclp [of wakeup_move, OF s1] by blast
  qed blast
qed

section \<open>Properties\<close>

text \<open>
  C11. No wakeup is lost although the counters and flags change outside the mutex: on a wire with
  a reader and a writer, each in any of its waits, and any number of threads that push, pop,
  terminate, notify or close, a thread that sleeps while what it waits for has come has a
  notification under way. From every reachable state in which the predicate of a wait holds, all
  further moves end with that waiter past its wait, and with success unless its time was over
  before: they cannot go on forever and they cannot stop before. The one case left out is a
  client in \<^verbatim>\<open>await\<close> after a \<^verbatim>\<open>force_close\<close>, which changes what \<^verbatim>\<open>await\<close> waits for without looking
  at its condition.
\<close>

theorem no_lost_wakeup:
  assumes "wakeup_step\<^sup>*\<^sup>* (wakeup_init sites ready n) s" and "\<And>c. waits_on (sites c) = c"
    and "predicate_holds s c" and "wk_site s c = Await_Wait \<Longrightarrow> \<not> wk_forced s"
  shows "(wk_waiter s c = Wt_Asleep \<longrightarrow> notified_soon s c) \<and>
    (\<exists>s' ok. wakeup_move\<^sup>*\<^sup>* s s' \<and> wk_waiter s' c = Wt_Done ok) \<and>
    (\<forall>s'. wakeup_move\<^sup>*\<^sup>* s s' \<and> (\<nexists>s''. wakeup_move s' s'') \<longrightarrow>
      (\<exists>ok. wk_waiter s' c = Wt_Done ok \<and> (\<not> gave_up (wk_waiter s c) \<longrightarrow> ok))) \<and>
    (\<nexists>f. f 0 = s \<and> (\<forall>i. wakeup_move (f i) (f (Suc i))))"
proof -
  note inv = wakeup_inv_reachable [OF assms(1,2)]
  then have w: "waiter_inv s c"
    by (simp add: wakeup_inv_def)
  then have ready: "wk_ready s c"
    using assms(3,4) by (auto simp: predicate_holds_def waiter_inv_def)
  have "\<exists>ok. wk_waiter s' c = Wt_Done ok \<and> (\<not> gave_up (wk_waiter s c) \<longrightarrow> ok)"
    if "wakeup_move\<^sup>*\<^sup>* s s'" and stuck: "\<nexists>s''. wakeup_move s' s''" for s'
  proof -
    have keep: "wakeup_inv s'" "wk_ready s' c" "\<not> gave_up (wk_waiter s c) \<Longrightarrow> \<not> gave_up (wk_waiter s' c)"
      using moves_keep [OF that(1) inv ready] by simp_all
    then obtain ok where "wk_waiter s' c = Wt_Done ok"
      using wakeup_progress [of s' c] stuck by blast
    then show ?thesis
      using keep(3) by auto
  qed
  moreover have "wk_waiter s c = Wt_Asleep \<longrightarrow> notified_soon s c"
    using w ready by (simp add: waiter_inv_def)
  ultimately show ?thesis
    using reaches_done [OF inv ready] moves_end [of s] by blast
qed

text \<open>A request wire: the worker is about to sleep in \<^verbatim>\<open>peep\<close> when the client pushes a request.\<close>

definition sample_sites :: "wire_condition \<Rightarrow> wait_site" where
  "sample_sites c = (case c of C_Empty \<Rightarrow> Peep_Wait | C_Full \<Rightarrow> Write_Wait)"

theorem no_lost_wakeup_witness:
  "\<exists>s s' ok. wk_waiter s C_Empty = Wt_Asleep \<and> predicate_holds s C_Empty \<and>
    wakeup_step\<^sup>*\<^sup>* (wakeup_init sample_sites (\<lambda>_. False) 2) s \<and>
    wakeup_move\<^sup>*\<^sup>* s s' \<and> wk_waiter s' C_Empty = Wt_Done ok"
proof -
  let ?s0 = "wakeup_init sample_sites (\<lambda>_. False) 2"
  let ?s1 = "go C_Empty Wt_Locked ?s0\<lparr>wk_mutex := Waiter C_Empty\<rparr>"
  let ?s2 = "go C_Empty Wt_Flagged ?s1\<lparr>wk_flag := (wk_flag ?s1)(C_Empty := True)\<rparr>"
  let ?s3 = "go C_Empty (if predicate_holds ?s2 C_Empty then Wt_Leaving True else Wt_Checked) ?s2"
  let ?s4 = "update_wire 1 Push {C_Empty} ?s3"
  let ?s5 = "go C_Empty Wt_Asleep ?s4\<lparr>wk_mutex := Nobody\<rparr>"
  have a1: "wakeup_step ?s0 ?s1" by (intro ws_move wm_lock) (simp_all add: wakeup_init_def)
  have a2: "wakeup_step ?s1 ?s2" by (intro ws_move wm_flag) simp
  have a3: "wakeup_step ?s2 ?s3" by (intro ws_move wm_check) simp
  have a4: "wakeup_step ?s3 ?s4" by (rule ws_update) (simp_all add: wakeup_init_def)
  have a5: "wakeup_step ?s4 ?s5"
    by (intro ws_move wm_sleep) (simp add: wakeup_init_def update_wire_def predicate_holds_def)
  note chain = rtranclp.rtrancl_into_rtrancl [where r = wakeup_step]
  have reach: "wakeup_step\<^sup>*\<^sup>* ?s0 ?s5"
    by (rule chain [OF chain [OF chain [OF chain [OF r_into_rtranclp [where r = wakeup_step, OF a1] a2] a3] a4] a5])
  have sites: "waits_on (sample_sites c) = c" for c
    by (cases c) (simp_all add: sample_sites_def)
  have here: "wk_waiter ?s5 C_Empty = Wt_Asleep" "predicate_holds ?s5 C_Empty" "wk_site ?s5 C_Empty = Peep_Wait"
    by (simp_all add: predicate_holds_def update_wire_def wakeup_init_def sample_sites_def)
  obtain s' ok where "wakeup_move\<^sup>*\<^sup>* ?s5 s'" "wk_waiter s' C_Empty = Wt_Done ok"
    using no_lost_wakeup [OF reach sites here(2)] here(3) by auto
  with here reach show ?thesis by blast
qed

text \<open>
  The case left out: a client that sleeps in \<^verbatim>\<open>await\<close> with no notification under way sleeps on
  after a \<^verbatim>\<open>force_close\<close>, until its time is over or another update comes.
\<close>

lemma asleep_unnotified:
  assumes "wakeup_move s s'" "wk_waiter s c = Wt_Asleep" "\<not> notified_soon s c"
  shows "wk_waiter s' c = Wt_Asleep \<and> \<not> notified_soon s' c"
  using assms
proof (induction rule: wakeup_move.induct)
  case (wm_notify i s d cs)
  then show ?case by (auto simp: notified_soon_def nth_update_if split: if_splits)
qed (auto simp: notified_soon_def nth_update_if split: if_splits)

lemma force_close_unnoticed:
  assumes "wk_waiter s C_Empty = Wt_Asleep" "wk_site s C_Empty = Await_Wait" "\<not> notified_soon s C_Empty"
    and "i < length (wk_notifiers s)" "wakeup_move\<^sup>*\<^sup>* (update_wire i Force_Close {C_Empty} s) s'"
  shows "wk_waiter s' C_Empty = Wt_Asleep \<and> predicate_holds s' C_Empty"
proof -
  have "wk_waiter s' C_Empty = Wt_Asleep \<and> \<not> notified_soon s' C_Empty \<and> wk_quiet s' C_Empty"
    using assms(5)
  proof (induction rule: rtranclp_induct)
    case base
    show ?case
      using assms(1-4) by (auto simp: notified_soon_def update_wire_def nth_update_if)
  next
    case (step t u)
    then show ?case
      using asleep_unnotified [OF step(2)] move_keeps(2) [OF step(2)] by simp
  qed
  then show ?thesis
    by (simp add: predicate_holds_def)
qed

end
