(* ===== verification/Resultset_Wire.thy ===== *)
theory Resultset_Wire
  imports Wire_Calls
begin

text \<open>
  The wire of one writer of a result set, \<^verbatim>\<open>unidirectional_simple_wire\<close> of
  \<^verbatim>\<open>endpoint/ipc/wire.h\<close>. The server writes the parts of a record behind a gap for its length
  header and publishes the record with \<^verbatim>\<open>flush\<close>, which fills in the header; the client takes
  the first record as one or two views of the ring (\<^verbatim>\<open>get_chunk\<close>) and then disposes of it.
  The theory shows that this is a queue of records.
\<close>

section \<open>Operations\<close>

record resultset_wire = "length_header simple_wire" +
  pushed_valid :: u64
  rs_closed :: bool
  continued :: bool

definition length_header_bytes :: u64 where
  "length_header_bytes = of_nat length_header_size"

definition stored_valid :: "resultset_wire \<Rightarrow> u64" where
  "stored_valid w = pushed_valid w - poped w"

definition has_record :: "resultset_wire \<Rightarrow> bool" where
  "has_record w \<longleftrightarrow> stored_valid w > 0"

definition check_room :: "resultset_wire \<Rightarrow> u64 \<Rightarrow> bool" where
  "check_room w len \<longleftrightarrow>
     (if continued w then room w \<ge> len else room w \<ge> len + length_header_bytes)"

text \<open>
  A call that would block answers \<open>Rs_Waits\<close> with the length it waits for; the wait is over when
  \<open>rs_wait_over\<close>.
\<close>

datatype rs_outcome = Rs_Done resultset_wire | Rs_Waits resultset_wire u64

definition rs_wait_over :: "resultset_wire \<Rightarrow> u64 \<Rightarrow> bool" where
  "rs_wait_over w len \<longleftrightarrow> room w \<ge> len \<or> rs_closed w"

definition wait_room_length :: "resultset_wire \<Rightarrow> u64 \<Rightarrow> u64" where
  "wait_room_length w len = (if \<not> continued w then len + length_header_bytes else len)"

definition wait_room :: "resultset_wire \<Rightarrow> u64 \<Rightarrow> rs_outcome \<times> bool" where
  "wait_room w len =
     (if rs_wait_over w (wait_room_length w len) then (Rs_Done w, rs_closed w)
      else (Rs_Waits (w\<lparr>wait_for_write := True\<rparr>) (wait_room_length w len), False))"

definition brand_new :: "resultset_wire \<Rightarrow> rs_outcome" where
  "brand_new w =
     (if length_header_bytes > room w \<and> \<not> rs_wait_over w length_header_bytes
      then Rs_Waits (w\<lparr>wait_for_write := True\<rparr>) length_header_bytes
      else Rs_Done (w\<lparr>pushed := pushed w + length_header_bytes\<rparr>))"

definition write_data :: "resultset_wire \<Rightarrow> bytes \<Rightarrow> rs_outcome" where
  "write_data w from =
     (let len = of_nat (length from) in
      if len > room w \<and> \<not> rs_wait_over w len
      then Rs_Waits (w\<lparr>wait_for_write := True\<rparr>) len
      else Rs_Done ((write_in_buffer w (buffer_address w (pushed w)) from)
             \<lparr>pushed := pushed w + len\<rparr>))"

definition rs_write :: "resultset_wire \<Rightarrow> bytes \<Rightarrow> rs_outcome" where
  "rs_write w from =
     (if \<not> rs_closed w \<and> length from > 0
      then (if \<not> continued w
            then (case brand_new w of
                Rs_Done w1 \<Rightarrow> write_data (w1\<lparr>continued := True\<rparr>) from
              | r \<Rightarrow> r)
            else write_data w from)
      else Rs_Done w)"

definition rs_flush :: "resultset_wire \<Rightarrow> resultset_wire" where
  "rs_flush w =
     (if continued w
      then (let header = length_header_from_size (pushed w - (pushed_valid w + length_header_bytes));
                w1 = write_in_buffer w (buffer_address w (pushed_valid w)) (length_header_get_buffer header)
            in w1\<lparr>pushed_valid := pushed w1, continued := False\<rparr>)
      else w)"

text \<open>The first view, and the second one when the record wraps around.\<close>

definition get_chunk :: "resultset_wire \<Rightarrow> resultset_wire \<times> bytes \<times> bytes option" where
  "get_chunk w =
     (let w1 = copy_header length_header_class w;
          len = ucast (lh_length (header_received w1)) :: u64;
          start = poped w1 + length_header_bytes
      in if start div capacity w1 = (start + len - 1) div capacity w1
         then (w1, memcpy_from (buffer w1) (read_address w1 length_header_bytes) (unat len), None)
         else (let buffer_end = (pushed_valid w1 div capacity w1) * capacity w1;
                   first_length = buffer_end - start
               in (w1, memcpy_from (buffer w1) (read_address w1 length_header_bytes) (unat first_length),
                   Some (memcpy_from (buffer w1) (read_address w1 (length_header_bytes + first_length))
                     (unat (len - first_length))))))"

definition rs_dispose :: "resultset_wire \<Rightarrow> resultset_wire" where
  "rs_dispose w =
     (let w1 = copy_header length_header_class w
      in w1\<lparr>poped := poped w1 + (ucast (lh_length (header_received w1)) + length_header_bytes)\<rparr>)"

definition rs_set_closed :: "resultset_wire \<Rightarrow> resultset_wire" where
  "rs_set_closed w = w\<lparr>rs_closed := True\<rparr>"

definition attach_buffer :: "u64 \<Rightarrow> u64 \<Rightarrow> bytes \<Rightarrow> resultset_wire \<Rightarrow> resultset_wire" where
  "attach_buffer handle cap mem w = w\<lparr>buffer_handle := handle, capacity := cap, buffer := mem\<rparr>"

definition detach_buffer :: "resultset_wire \<Rightarrow> resultset_wire" where
  "detach_buffer w = w\<lparr>buffer_handle := 0, capacity := 0\<rparr>"

definition rs_equal :: "u64 \<Rightarrow> resultset_wire \<Rightarrow> bool" where
  "rs_equal handle w \<longleftrightarrow> handle = buffer_handle w"

definition reset_handle :: "resultset_wire \<Rightarrow> resultset_wire" where
  "reset_handle w = w\<lparr>buffer_handle := 0\<rparr>"

definition new_resultset_wire :: resultset_wire where
  "new_resultset_wire = simple_wire.extend (new_simple_wire \<lparr>lh_length = 0\<rparr> 0 0 [])
     \<lparr>pushed_valid = 0, rs_closed = False, continued = False\<rparr>"

section \<open>Records in the ring\<close>

definition encode_record :: "bytes \<Rightarrow> bytes" where
  "encode_record r = length_header_get_buffer (length_header_from_size (of_nat (length r))) @ r"

definition encode_records :: "bytes list \<Rightarrow> bytes" where
  "encode_records rs = concat (map encode_record rs)"

definition record_ok :: "bytes \<Rightarrow> bool" where
  "record_ok r \<longleftrightarrow> 0 < length r \<and> length r < 2 ^ 32"

text \<open>
  The wire holds the published records \<open>rs\<close>, followed, while a record is being written, by the
  gap for its header and the parts written so far.
\<close>

definition rs_holds :: "resultset_wire \<Rightarrow> bytes list \<Rightarrow> bytes option \<Rightarrow> bool" where
  "rs_holds w rs part \<longleftrightarrow>
     wire_inv w \<and> unat (capacity w) dvd 2 ^ 64 \<and> unat (capacity w) \<le> 2 ^ 32 \<and>
     list_all record_ok rs \<and>
     unat (stored_valid w) = length (encode_records rs) \<and>
     continued w = (part \<noteq> None) \<and>
     (case part of
        None \<Rightarrow> content w = encode_records rs \<and> pushed_valid w = pushed w
      | Some p \<Rightarrow> p \<noteq> [] \<and> (\<exists>gap. length gap = length_header_size \<and> content w = encode_records rs @ gap @ p))"

lemma rs_holdsD:
  assumes "rs_holds w rs part"
  shows "wire_inv w" "unat (capacity w) dvd 2 ^ 64" "unat (capacity w) \<le> 2 ^ 32"
    "list_all record_ok rs" "unat (stored_valid w) = length (encode_records rs)"
    "continued w = (part \<noteq> None)"
  using assms by (auto simp: rs_holds_def)

lemma unat_length_header_bytes [simp]: "unat length_header_bytes = 4"
  by (simp add: length_header_bytes_def length_header_size_def)

lemma length_header_bytes_eq: "length_header_bytes = of_nat 4"
  by (simp add: length_header_bytes_def length_header_size_def)

lemma length_header_buffer [simp]: "length (length_header_get_buffer h) = 4"
  using lh.length_buffer [of h] by (simp add: length_header_class_def length_header_size_def)

lemma encode_records_simps [simp]:
  "encode_records [] = []"
  "encode_records (r # rs) = encode_record r @ encode_records rs"
  "encode_records (rs @ ss) = encode_records rs @ encode_records ss"
  by (simp_all add: encode_records_def)

lemma length_encode_record [simp]: "length (encode_record r) = 4 + length r"
  by (simp add: encode_record_def)

lemma header_of_size:
  assumes "length r < 2 ^ 32"
  shows "unat (lh_length (length_header_from_size (of_nat (length r)))) = length r"
proof -
  have "unat (ucast (of_nat (length r) :: u64) :: u32) = length r"
    using assms by (simp add: unsigned_ucast_eq take_bit_nat_eq_self)
  then show ?thesis by (simp add: length_header_from_size_def)
qed

text \<open>What is stored: published records, gap and parts.\<close>

lemma rs_content:
  assumes "rs_holds w rs part"
  obtains gap where "content w = encode_records rs @ gap"
    and "part = None \<Longrightarrow> gap = []" and "part = Some p \<Longrightarrow> length gap = 4 + length p"
  using assms by (cases part) (auto simp: rs_holds_def length_header_size_def)

lemma has_record_iff:
  assumes "rs_holds w rs part"
  shows "has_record w \<longleftrightarrow> rs \<noteq> []"
  using rs_holdsD(5) [OF assms]
  by (cases rs) (auto simp: has_record_def word_less_nat_alt)

section \<open>The server's side\<close>

text \<open>The gap for a header is whatever the ring has there.\<close>

lemma push_gap:
  fixes w :: resultset_wire
  assumes "wire_inv w" and "unat (stored w) + 4 \<le> unat (capacity w)"
  defines "w' \<equiv> w\<lparr>pushed := pushed w + length_header_bytes\<rparr>"
  shows "\<exists>gap. length gap = 4 \<and> wire_inv w' \<and> content w' = content w @ gap \<and>
    unat (stored w') = unat (stored w) + 4"
proof -
  have "ring_view (buffer w') (unat (poped w)) (unat (stored w) + 4) =
      content w @ ring_view (buffer w) (unat (poped w) + unat (stored w)) 4"
    by (simp add: w'_def content_def ring_view_split)
  from push_bytes [OF assms(1,2) _ this] show ?thesis
    using wire_invD(2) [OF assms(1)] by (auto simp: w'_def length_header_bytes_eq)
qed

lemma write_data_fits:
  assumes "wire_inv w" and "unat (stored w) + length from \<le> unat (capacity w)"
  shows "\<exists>w'. write_data w from = Rs_Done w' \<and> wire_inv w' \<and> content w' = content w @ from \<and>
    capacity w' = capacity w \<and> poped w' = poped w \<and> pushed_valid w' = pushed_valid w \<and>
    continued w' = continued w \<and> rs_closed w' = rs_closed w"
proof -
  define w' where "w' = (write_in_buffer w (buffer_address w (pushed w)) from)
    \<lparr>pushed := pushed w + of_nat (length from)\<rparr>"
  have "unat (of_nat (length from) :: u64) = length from"
    using assms(2) unat_lt_u64 [of "capacity w"] by simp
  then have "\<not> of_nat (length from) > room w"
    using assms(2) unat_room [OF assms(1)] by (simp add: word_less_nat_alt)
  then have "write_data w from = Rs_Done w'"
    by (simp add: write_data_def Let_def w'_def)
  moreover have "wire_inv w' \<and> content w' = content w @ from \<and>
      unat (stored w') = unat (stored w) + length from"
    using write_in_buffer_view [OF assms(1), of 0 "from"] assms(2)
    by (intro push_bytes [OF assms]) (simp_all add: w'_def content_def)
  ultimately show ?thesis
    by (auto simp: w'_def write_in_buffer_def)
qed

lemma rs_write_spec:
  assumes h: "rs_holds w rs part" and "\<not> rs_closed w" "from \<noteq> []" "length from < 2 ^ 32"
    and room: "check_room w (of_nat (length from))"
  shows "\<exists>w'. rs_write w from = Rs_Done w' \<and>
    rs_holds w' rs (Some ((case part of None \<Rightarrow> [] | Some p \<Rightarrow> p) @ from)) \<and>
    rs_closed w' = rs_closed w \<and> capacity w' = capacity w"
proof -
  note d = rs_holdsD [OF h]
  have uf: "unat (of_nat (length from) :: u64) = length from"
    "unat (of_nat (length from) + length_header_bytes :: u64) = length from + 4"
    using assms(4) by (simp_all add: unat_word_ariths)
  have rm: "unat (room w) = unat (capacity w) - unat (stored w)" "unat (stored w) \<le> unat (capacity w)"
    using unat_room [OF d(1)] wire_invD(3) [OF d(1)] by auto
  show ?thesis
  proof (cases part)
    case (Some p)
    have "unat (stored w) + length from \<le> unat (capacity w)"
      using room Some d(6) uf rm by (simp add: check_room_def word_le_nat_alt)
    from write_data_fits [OF d(1) this] show ?thesis
      using assms(2,3) Some h by (auto simp: rs_write_def rs_holds_def stored_valid_def)
  next
    case None
    define w1 where "w1 = w\<lparr>pushed := pushed w + length_header_bytes, continued := True\<rparr>"
    have fit: "unat (stored w) + (4 + length from) \<le> unat (capacity w)"
      using room None d(6) uf rm by (simp add: check_room_def word_le_nat_alt)
    then have "unat (stored w) + 4 \<le> unat (capacity w)" by simp
    from push_gap [OF d(1) this] obtain gap where g: "length gap = 4" "wire_inv w1"
        "content w1 = content w @ gap" "unat (stored w1) = unat (stored w) + 4"
      by (auto simp: w1_def wire_inv_def content_def stored_def)
    have "unat (stored w1) + length from \<le> unat (capacity w1)"
      using fit g(4) by (simp add: w1_def)
    from write_data_fits [OF g(2) this] obtain w' where w': "write_data w1 from = Rs_Done w'"
        "wire_inv w'" "content w' = content w1 @ from" "capacity w' = capacity w1" "poped w' = poped w1"
        "pushed_valid w' = pushed_valid w1" "continued w' = continued w1" "rs_closed w' = rs_closed w1"
      by blast
    have "\<not> length_header_bytes > room w"
      using fit rm by (simp add: word_less_nat_alt)
    then have "rs_write w from = Rs_Done w'"
      using assms(2,3) None d(6) w'(1) by (simp add: rs_write_def brand_new_def w1_def)
    moreover have "content w = encode_records rs" using h None by (simp add: rs_holds_def)
    ultimately show ?thesis
      using w' g d None assms(3)
      by (auto simp: rs_holds_def stored_valid_def w1_def length_header_size_def)
  qed
qed

lemma pushed_valid_address:
  assumes "wire_inv w" and "unat (stored_valid w) \<le> unat (capacity w)"
  shows "buffer_address w (pushed_valid w) =
    (unat (poped w) + unat (stored_valid w)) mod length (buffer w)"
  using read_address_eq [OF assms] by (simp add: read_address_def buffer_address_def stored_valid_def)

lemma overwrite_content:
  fixes w :: "('h, 'z) simple_wire_scheme"
  assumes inv: "wire_inv w" and le: "off + length bs \<le> unat (stored w)"
    and a: "a = (unat (poped w) + off) mod length (buffer w)"
  shows "wire_inv (write_in_buffer w a bs)"
    and "content (write_in_buffer w a bs) = take off (content w) @ bs @ drop (off + length bs) (content w)"
proof -
  have buf: "length (buffer w) = unat (capacity w)" "0 < length (buffer w)"
    "unat (stored w) \<le> unat (capacity w)"
    using wire_invD [OF inv] by auto
  have b: "buffer (write_in_buffer w a bs) = ring_write (length (buffer w)) (buffer w) a bs"
    using buf by (simp add: write_in_buffer_def)
  have "length (buffer (write_in_buffer w a bs)) = length (buffer w)"
    unfolding b using buf le a by (intro length_ring_write) auto
  with inv show "wire_inv (write_in_buffer w a bs)" by (simp add: wire_inv_def)
  show "content (write_in_buffer w a bs) = take off (content w) @ bs @ drop (off + length bs) (content w)"
    unfolding content_def b write_in_buffer_frame unfolding a
    using buf le by (intro ring_view_overwrite) auto
qed

lemma rs_flush_spec:
  assumes h: "rs_holds w rs (Some p)"
  shows "rs_holds (rs_flush w) (rs @ [p]) None"
    and "rs_closed (rs_flush w) = rs_closed w" "capacity (rs_flush w) = capacity w"
proof -
  note d = rs_holdsD [OF h]
  obtain gap where gap: "length gap = 4" "content w = encode_records rs @ gap @ p" "p \<noteq> []"
    using h by (auto simp: rs_holds_def length_header_size_def)
  have st: "unat (stored w) = length (encode_records rs) + 4 + length p"
    using arg_cong [OF gap(2), of length] gap(1) by simp
  have le: "unat (stored w) \<le> unat (capacity w)" using wire_invD(3) [OF d(1)] .
  define hdr where "hdr = length_header_get_buffer (length_header_from_size (of_nat (length p)))"
  have "of_nat (unat (stored w)) = stored w" "of_nat (unat (stored_valid w)) = stored_valid w"
    by simp_all
  from this [unfolded st d(5), symmetric]
  have "stored w - stored_valid w - length_header_bytes = of_nat (length p)"
    by (simp add: length_header_bytes_eq)
  then have sz: "pushed w - (pushed_valid w + length_header_bytes) = of_nat (length p)"
    by (simp add: stored_def stored_valid_def algebra_simps)
  define w1 where "w1 = write_in_buffer w (buffer_address w (pushed_valid w)) hdr"
  have fl: "rs_flush w = w1\<lparr>pushed_valid := pushed w, continued := False\<rparr>"
    using d(6) by (simp add: rs_flush_def Let_def sz hdr_def w1_def)
  have "buffer_address w (pushed_valid w) =
      (unat (poped w) + length (encode_records rs)) mod length (buffer w)"
    using pushed_valid_address [OF d(1)] d(5) st le by simp
  note ow = overwrite_content [OF d(1) _ this, of hdr, folded w1_def]
  have "content w1 = encode_records (rs @ [p])"
    using ow(2) gap(1,2) st by (simp add: hdr_def encode_record_def)
  moreover have "wire_inv w1" using ow(1) st by (simp add: hdr_def)
  moreover have "record_ok p" using gap(3) st le d(3) by (simp add: record_ok_def)
  ultimately show "rs_holds (rs_flush w) (rs @ [p]) None"
    using d st unfolding fl rs_holds_def
    by (auto simp: w1_def stored_valid_def stored_def content_def wire_inv_def)
  show "rs_closed (rs_flush w) = rs_closed w" "capacity (rs_flush w) = capacity w"
    by (simp_all add: fl w1_def write_in_buffer_def)
qed

section \<open>The client's side\<close>

text \<open>
  A page is one round of the ring. Two positions less than a page apart lie in the same page
  iff there is no page boundary between them, also where the counter wraps around.
\<close>

lemma page_same:
  fixes x d c :: u64
  assumes "unat c dvd 2 ^ 64" and "unat d < unat c"
  shows "x div c = (x + d) div c \<longleftrightarrow> unat x mod unat c + unat d < unat c"
proof -
  define X where "X = unat x"
  define C where "C = unat c"
  define D where "D = unat d"
  obtain k where k: "2 ^ 64 = C * k" using assms(1) unfolding C_def by (rule dvdE)
  have C: "D < C" "C < 2 ^ 64" using assms(2) unat_lt_u64 by (auto simp: C_def D_def)
  have u: "unat (x + d) = (X + D) mod 2 ^ 64"
    by (simp add: unat_word_ariths X_def D_def)
  have e: "x div c = (x + d) div c \<longleftrightarrow> X div C = (X + D) mod 2 ^ 64 div C"
    by (simp only: word_unat_eq_iff unat_div u flip: X_def C_def)
  have dv: "(X + D) div C = X div C + (X mod C + D) div C"
    using C(1) by (simp add: div_add1_eq [of X D C])
  show ?thesis
  proof (cases "X + D < 2 ^ 64")
    case True
    then show ?thesis
      using e dv C(1) by (simp add: X_def [symmetric] C_def [symmetric] D_def [symmetric] div_eq_0_iff)
  next
    case False
    have "X < 2 ^ 64" using unat_lt_u64 by (simp add: X_def)
    then have md: "(X + D) mod 2 ^ 64 = X + D - 2 ^ 64"
      using False C by (simp add: mod_if)
    then have z: "(X + D) mod 2 ^ 64 div C = 0"
      using \<open>X < 2 ^ 64\<close> C by simp
    have "k \<ge> 2"
    proof (rule ccontr)
      assume "\<not> 2 \<le> k"
      then have "k = 0 \<or> k = 1" by auto
      with k C show False by auto
    qed
    then have kk: "C * k = C * (k - 1) + C" by (cases k) simp_all
    have "C * (k - 1) \<le> X" using False k kk C by linarith
    moreover have "X < C * (k - 1) + C" using \<open>X < 2 ^ 64\<close> k kk by linarith
    ultimately have q: "X div C = k - 1"
      by (metis add.commute div_nat_eqI mult.commute mult_Suc_right)
    then have "X = C * (k - 1) + X mod C" by (metis mult_div_mod_eq)
    then have "\<not> X mod C + D < C" using False k kk by linarith
    with e z q \<open>k \<ge> 2\<close> show ?thesis
      by (simp add: X_def [symmetric] C_def [symmetric] D_def [symmetric])
  qed
qed

lemma to_page_end:
  fixes x s c :: u64
  assumes "unat c dvd 2 ^ 64" "unat s < unat c" "unat c \<le> unat x mod unat c + unat s"
  shows "(x + s) div c * c - x = of_nat (unat c - unat x mod unat c)"
proof -
  define a where "a = unat x mod unat c + unat s - unat c"
  have c0: "0 < unat c" using assms(2) by simp
  have "unat ((x + s) mod c) = (unat x + unat s) mod unat c"
    using assms(1) by (simp add: unat_mod unat_plus_index wrap_free_def)
  also have "\<dots> = (unat x mod unat c + unat s) mod unat c"
    by (simp add: mod_add_left_eq)
  also have "\<dots> = a"
    using mod_wrap [of "unat x mod unat c" "unat c" "unat s"] assms(2,3) c0 by (simp add: a_def)
  finally have "unat ((x + s) mod c) = a" .
  then have m: "(x + s) mod c = of_nat a" by (metis of_nat_unat ucast_id)
  have "unat s = a + (unat c - unat x mod unat c)"
    using assms(3) c0 mod_less_divisor [of "unat c" "unat x"] unfolding a_def by linarith
  then have "s = of_nat a + of_nat (unat c - unat x mod unat c)"
    by (metis of_nat_add of_nat_unat ucast_id)
  moreover have "(x + s) div c * c = (x + s) - (x + s) mod c"
    by (simp add: minus_mod_eq_div_mult)
  ultimately show ?thesis using m by (simp add: algebra_simps)
qed

lemma copy_header_pushed_valid [simp]:
  "pushed_valid (copy_header length_header_class w) = pushed_valid w"
  "continued (copy_header length_header_class w) = continued w"
  "rs_closed (copy_header length_header_class w) = rs_closed w"
  by (auto simp: copy_header_def Let_def)

lemma rs_holds_copy_header:
  "rs_holds (copy_header length_header_class w) rs part = rs_holds w rs part"
  by (simp add: rs_holds_def stored_valid_def split: option.splits)

text \<open>The first record: its header, its length and where it lies.\<close>

lemma first_record:
  assumes h: "rs_holds w (r # rs) part"
  shows "unat (lh_length (header_received (copy_header length_header_class w))) = length r"
    and "read_from_buffer w (read_address w length_header_bytes) (length r) = r"
    and "unat (stored_valid w) = 4 + length r + length (encode_records rs)"
    and "unat (stored_valid w) \<le> unat (stored w)" and "record_ok r"
    and "take (4 + length r) (content w) = encode_record r"
proof -
  note d = rs_holdsD [OF h]
  obtain tl where c: "content w = encode_record r @ encode_records rs @ tl"
    using rs_content [OF h] by (metis append_assoc encode_records_simps(2))
  show ok: "record_ok r" using d(4) by simp
  show sv: "unat (stored_valid w) = 4 + length r + length (encode_records rs)" using d(5) by simp
  show st: "unat (stored_valid w) \<le> unat (stored w)"
    using arg_cong [OF c, of length] sv by simp
  have "header_received (copy_header length_header_class w) = length_header_from_size (of_nat (length r))"
    using lh.copy_header_spec [OF d(1), of "length_header_from_size (of_nat (length r))"] c
    by (simp add: length_header_class_def length_header_size_def encode_record_def)
  then show "unat (lh_length (header_received (copy_header length_header_class w))) = length r"
    using header_of_size [of r] ok by (simp add: record_ok_def)
  have "unat length_header_bytes + length r \<le> unat (stored w)" using st sv by simp
  from read_from_buffer_eq [OF d(1) this]
  show "read_from_buffer w (read_address w length_header_bytes) (length r) = r"
    by (simp add: c encode_record_def)
  show "take (4 + length r) (content w) = encode_record r" by (simp add: c)
qed

text \<open>Where the record wraps around, the first view ends with the ring and the second begins with it.\<close>

lemma second_view:
  assumes h: "rs_holds w (r # rs) part"
  defines "i \<equiv> read_address w length_header_bytes"
  assumes wrap: "unat (capacity w) < i + length r"
  shows "pushed_valid w div capacity w * capacity w - (poped w + length_header_bytes) =
      of_nat (unat (capacity w) - i)"
    and "read_address w (length_header_bytes + of_nat (unat (capacity w) - i)) = 0"
    and "unat (of_nat (unat (capacity w) - i) :: u64) = unat (capacity w) - i"
proof -
  note d = rs_holdsD [OF h] and f = first_record [OF h]
  define c where "c = capacity w"
  define start where "start = poped w + length_header_bytes"
  have i: "i = unat start mod unat c" "i < unat c"
    using wire_invD(1) [OF d(1)] by (simp_all add: i_def read_address_def unat_index start_def c_def)
  define s where "s = stored_valid w - length_header_bytes"
  have us: "unat s = length r + length (encode_records rs)" "unat s < unat c"
    using f(3,4) wire_invD(3) [OF d(1)] by (simp_all add: s_def c_def unat_sub word_le_nat_alt)
  have "pushed_valid w = start + s" by (simp add: s_def start_def stored_valid_def)
  then show "pushed_valid w div capacity w * capacity w - (poped w + length_header_bytes) =
      of_nat (unat (capacity w) - i)"
    using to_page_end [of c s start] d(2) us wrap unfolding i by (simp add: c_def start_def)
  show un: "unat (of_nat (unat (capacity w) - i) :: u64) = unat (capacity w) - i"
    using unat_lt_u64 [of c] by (simp add: c_def)
  have "read_address w (length_header_bytes + of_nat (unat c - i)) = (unat start + (unat c - i)) mod unat c"
    using unat_plus_index [of "unat c" start "of_nat (unat c - i)"] d(2) un
    by (simp add: read_address_def unat_index start_def c_def wrap_free_def add.assoc)
  also have "\<dots> = (i + (unat c - i)) mod unat c" by (simp add: i(1) mod_add_left_eq)
  also have "\<dots> = 0" using i(2) by simp
  finally show "read_address w (length_header_bytes + of_nat (unat (capacity w) - i)) = 0"
    by (simp add: c_def)
qed

lemma get_chunk_spec:
  assumes h: "rs_holds w (r # rs) part" and g: "get_chunk w = (w1, a, b)"
  shows "a @ (case b of None \<Rightarrow> [] | Some b' \<Rightarrow> b') = r" and "w1 = copy_header length_header_class w"
proof -
  note d = rs_holdsD [OF h] and f = first_record [OF h]
  define start where "start = poped w + length_header_bytes"
  define len where "len = (of_nat (length r) :: u64)"
  define i where "i = read_address w length_header_bytes"
  have lenr: "0 < length r" "unat len = length r" "length r + 4 \<le> unat (capacity w)"
    using f(3-5) wire_invD(3) [OF d(1)] by (auto simp: record_ok_def len_def)
  have ul: "ucast (lh_length (header_received (copy_header length_header_class w))) = len"
    using f(1) by (metis len_def of_nat_unat ucast_id unat_u32_u64)
  have len1: "start + len - 1 = start + (len - 1)" "unat (len - 1) = length r - 1"
    using lenr unat_sub [of 1 len] by (simp_all add: word_le_nat_alt Suc_le_eq)
  have page: "start div capacity w = (start + len - 1) div capacity w \<longleftrightarrow> i + length r \<le> unat (capacity w)"
    unfolding len1(1) using page_same [of "capacity w" "len - 1" start] d(2) lenr
    by (auto simp: len1(2) i_def read_address_def unat_index start_def)
  have g': "(w1, a, b) = (if i + length r \<le> unat (capacity w)
      then (copy_header length_header_class w, memcpy_from (buffer w) i (length r), None)
      else (let fl = pushed_valid w div capacity w * capacity w - start in
        (copy_header length_header_class w, memcpy_from (buffer w) i (unat fl),
         Some (memcpy_from (buffer w) (read_address w (length_header_bytes + fl)) (unat (len - fl))))))"
    using g page lenr(2) by (auto simp: get_chunk_def Let_def ul i_def start_def copy_header_pushed_valid)
  then show "w1 = copy_header length_header_class w" by (auto simp: Let_def split: if_splits)
  have r: "ring_read (unat (capacity w)) (buffer w) i (length r) = r"
    using f(2) by (simp add: read_from_buffer_def i_def)
  show "a @ (case b of None \<Rightarrow> [] | Some b' \<Rightarrow> b') = r"
  proof (cases "i + length r \<le> unat (capacity w)")
    case True
    then show ?thesis using g' r by (simp add: ring_read_def)
  next
    case False
    note sv = second_view [OF h, folded i_def start_def]
    have "unat (len - of_nat (unat (capacity w) - i)) = length r - (unat (capacity w) - i)"
      using False lenr(2) sv(3) by (simp add: unat_sub word_le_nat_alt)
    then show ?thesis
      using g' r False sv by (auto simp: ring_read_def Let_def)
  qed
qed

lemma rs_dispose_spec:
  assumes h: "rs_holds w (r # rs) part"
  shows "rs_holds (rs_dispose w) rs part"
proof -
  note d = rs_holdsD [OF h] and f = first_record [OF h]
  define w1 where "w1 = copy_header length_header_class w"
  define n where "n = (ucast (lh_length (header_received w1)) + length_header_bytes :: u64)"
  have "unat (ucast (lh_length (header_received w1)) :: u64) = length r"
    using f(1) by (simp add: w1_def unat_u32_u64)
  moreover have "length r < 2 ^ 32" using f(5) by (simp add: record_ok_def)
  ultimately have un: "unat n = 4 + length r"
    by (simp add: n_def unat_word_ariths)
  have eq: "rs_dispose w = w1\<lparr>poped := poped w1 + n\<rparr>"
    by (simp add: rs_dispose_def Let_def w1_def n_def)
  have fl: "buffer (rs_dispose w) = buffer w" "capacity (rs_dispose w) = capacity w"
    "pushed (rs_dispose w) = pushed w" "poped (rs_dispose w) = poped w + n"
    by (simp_all add: eq w1_def)
  have le: "unat n \<le> unat (stored w)" using un f(3,4) by simp
  note pop = pop_bytes [OF d(1) le fl]
  have pv: "pushed_valid (rs_dispose w) = pushed_valid w" "continued (rs_dispose w) = continued w"
    by (auto simp: eq w1_def copy_header_def Let_def)
  have "stored_valid (rs_dispose w) = stored_valid w - n"
    by (simp add: stored_valid_def pv fl)
  then have "unat (stored_valid (rs_dispose w)) = length (encode_records rs)"
    using un f(3) by (simp add: unat_sub word_le_nat_alt)
  then show ?thesis
    using h pop(2,3) un pv fl
    by (auto simp: rs_holds_def encode_record_def split: option.splits)
qed

section \<open>A queue of records\<close>

text \<open>
  What the writer of a result set and its reader use of a channel of records: the operations,
  \<open>tick\<close> being what the channel does by itself, and in the locale \<open>record_channel_base\<close> what
  they promise, over the records that are published and the record under construction. In a
  \<open>record_channel\<close> every published record is there to be taken.
\<close>

record 'w record_ops =
  can_put :: "'w \<Rightarrow> bytes \<Rightarrow> bool"
  put_part :: "'w \<Rightarrow> bytes \<Rightarrow> 'w"
  publish :: "'w \<Rightarrow> 'w"
  ready :: "'w \<Rightarrow> bool"
  fetch :: "'w \<Rightarrow> bytes"
  drop_first :: "'w \<Rightarrow> 'w"
  tick :: "'w \<Rightarrow> 'w"

definition join_part :: "bytes option \<Rightarrow> bytes \<Rightarrow> bytes" where
  "join_part part bs = (case part of None \<Rightarrow> [] | Some p \<Rightarrow> p) @ bs"

datatype rc_event = Put bytes | Publish | Take | Tick

text \<open>
  A run of the two sides, with what has been published, what is being written and what has been
  taken. A part for which there is no room is not written: its writer is still waiting.
\<close>

record 'w rc_state =
  rc_channel :: 'w
  rc_published :: "bytes list"
  rc_part :: "bytes option"
  rc_taken :: "bytes list"

fun rc_step :: "'w record_ops \<Rightarrow> rc_event \<Rightarrow> 'w rc_state \<Rightarrow> 'w rc_state" where
  "rc_step R (Put bs) s = (if can_put R (rc_channel s) bs
     then s\<lparr>rc_channel := put_part R (rc_channel s) bs, rc_part := Some (join_part (rc_part s) bs)\<rparr>
     else s)"
| "rc_step R Publish s = s\<lparr>rc_channel := publish R (rc_channel s), rc_part := None,
     rc_published := rc_published s @ (case rc_part s of None \<Rightarrow> [] | Some p \<Rightarrow> [p])\<rparr>"
| "rc_step R Take s = (if ready R (rc_channel s)
     then s\<lparr>rc_channel := drop_first R (rc_channel s),
            rc_taken := rc_taken s @ [fetch R (rc_channel s)]\<rparr>
     else s)"
| "rc_step R Tick s = s\<lparr>rc_channel := tick R (rc_channel s)\<rparr>"

definition rc_run :: "'w record_ops \<Rightarrow> 'w \<Rightarrow> rc_event list \<Rightarrow> 'w rc_state" where
  "rc_run R w evs = fold (rc_step R) evs
     \<lparr>rc_channel = w, rc_published = [], rc_part = None, rc_taken = []\<rparr>"

locale record_channel_base =
  fixes R :: "'w record_ops" and holds :: "'w \<Rightarrow> bytes list \<Rightarrow> bytes option \<Rightarrow> bool"
  assumes put_law: "holds w rs part \<Longrightarrow> can_put R w bs \<Longrightarrow>
      holds (put_part R w bs) rs (Some (join_part part bs))"
    and publish_law: "holds w rs (Some p) \<Longrightarrow> holds (publish R w) (rs @ [p]) None"
    and publish_none: "holds w rs None \<Longrightarrow> holds (publish R w) rs None"
    and ready_law: "holds w rs part \<Longrightarrow> ready R w \<Longrightarrow> rs \<noteq> []"
    and fetch_law: "holds w (r # rs) part \<Longrightarrow> ready R w \<Longrightarrow> fetch R w = r"
    and drop_law: "holds w (r # rs) part \<Longrightarrow> ready R w \<Longrightarrow> holds (drop_first R w) rs part"
    and tick_law: "holds w rs part \<Longrightarrow> holds (tick R w) rs part"
begin

definition rc_inv :: "'w rc_state \<Rightarrow> bool" where
  "rc_inv s \<longleftrightarrow> (\<exists>rs. holds (rc_channel s) rs (rc_part s) \<and> rc_taken s @ rs = rc_published s)"

lemma rc_inv_step:
  assumes "rc_inv s"
  shows "rc_inv (rc_step R e s)"
proof -
  obtain rs where h: "holds (rc_channel s) rs (rc_part s)" "rc_taken s @ rs = rc_published s"
    using assms by (auto simp: rc_inv_def)
  show ?thesis
  proof (cases e)
    case Publish
    with h show ?thesis
      by (cases "rc_part s") (auto simp: rc_inv_def intro: publish_none publish_law)
  next
    case Take
    with h ready_law [OF h(1)] show ?thesis
      by (cases rs) (auto simp: rc_inv_def fetch_law intro: drop_law)
  qed (use h in \<open>auto simp: rc_inv_def intro: put_law tick_law\<close>)
qed

lemma rc_inv_run: "holds w [] None \<Longrightarrow> rc_inv (rc_run R w evs)"
  unfolding rc_run_def
proof (induction evs rule: rev_induct)
  case Nil
  then show ?case by (simp add: rc_inv_def)
next
  case (snoc e evs)
  then show ?case by (simp add: rc_inv_step)
qed

lemma run_fifo:
  assumes "holds w [] None"
  shows "rc_taken (rc_run R w evs) =
      take (length (rc_taken (rc_run R w evs))) (rc_published (rc_run R w evs))"
  using rc_inv_run [OF assms, of evs] by (auto simp: rc_inv_def dest: sym)

end

locale record_channel = record_channel_base +
  assumes published_ready: "holds w rs part \<Longrightarrow> rs \<noteq> [] \<Longrightarrow> ready R w"
begin

lemma run_complete:
  assumes "holds w [] None" and "\<not> ready R (rc_channel (rc_run R w evs))"
  shows "rc_taken (rc_run R w evs) = rc_published (rc_run R w evs)"
  using rc_inv_run [OF assms(1), of evs] assms(2) published_ready by (force simp: rc_inv_def)

end

text \<open>The result-set wire as such a channel, as the server and the client call it.\<close>

definition rs_ops :: "resultset_wire record_ops" where
  "rs_ops =
     \<lparr>can_put = (\<lambda>w bs. \<not> rs_closed w \<and> bs \<noteq> [] \<and> length bs < 2 ^ 32 \<and> check_room w (of_nat (length bs))),
      put_part = (\<lambda>w bs. case rs_write w bs of Rs_Done w' \<Rightarrow> w' | Rs_Waits w' _ \<Rightarrow> w'),
      publish = rs_flush,
      ready = has_record,
      fetch = (\<lambda>w. case get_chunk w of (_, a, b) \<Rightarrow> a @ (case b of None \<Rightarrow> [] | Some b' \<Rightarrow> b')),
      drop_first = rs_dispose,
      tick = (\<lambda>w. w)\<rparr>"

interpretation rsw: record_channel rs_ops rs_holds
proof unfold_locales
  fix w rs part bs
  assume "rs_holds w rs part" "can_put rs_ops w bs"
  then show "rs_holds (put_part rs_ops w bs) rs (Some (join_part part bs))"
    using rs_write_spec [of w rs part bs] by (auto simp: rs_ops_def join_part_def)
next
  fix w rs p assume "rs_holds w rs (Some p)"
  then show "rs_holds (publish rs_ops w) (rs @ [p]) None"
    by (simp add: rs_ops_def rs_flush_spec)
next
  fix w rs assume "rs_holds w rs None"
  then show "rs_holds (publish rs_ops w) rs None"
    by (simp add: rs_ops_def rs_flush_def rs_holds_def)
next
  fix w rs part assume "rs_holds w rs part"
  then show "ready rs_ops w \<Longrightarrow> rs \<noteq> []" "rs \<noteq> [] \<Longrightarrow> ready rs_ops w"
    "rs_holds (tick rs_ops w) rs part"
    by (simp_all add: rs_ops_def has_record_iff)
next
  fix w r rs part assume h: "rs_holds w (r # rs) part"
  obtain w1 a b where g: "get_chunk w = (w1, a, b)" by (metis prod_cases3)
  then show "fetch rs_ops w = r" using get_chunk_spec(1) [OF h g] by (simp add: rs_ops_def)
  show "rs_holds (drop_first rs_ops w) rs part" using rs_dispose_spec [OF h] by (simp add: rs_ops_def)
qed

lemma rs_holds_attached:
  assumes "unat cap dvd 2 ^ 64" "0 < unat cap" "unat cap \<le> 2 ^ 32" "length mem = unat cap"
  shows "rs_holds (attach_buffer handle cap mem new_resultset_wire) [] None"
  using assms
  by (simp add: rs_holds_def attach_buffer_def new_resultset_wire_def new_simple_wire_def
      simple_wire.defs wire_inv_def stored_def stored_valid_def wrap_free_def content_def)

text \<open>
  C4. A result-set wire is a first-in first-out queue of records. Whatever parts the server
  writes, whenever it publishes and whenever the client takes, the records taken are the first
  of the records published, each put together from its parts, whether its bytes lie in one
  piece or wrap around the ring; and a client that finds no record has taken all of them.
\<close>

theorem resultset_fifo:
  assumes "unat cap dvd 2 ^ 64" "0 < unat cap" "unat cap \<le> 2 ^ 32" "length mem = unat cap"
  shows "let s = rc_run rs_ops (attach_buffer handle cap mem new_resultset_wire) evs in
    rc_taken s = take (length (rc_taken s)) (rc_published s) \<and>
    (\<not> has_record (rc_channel s) \<longrightarrow> rc_taken s = rc_published s)"
  using rsw.run_fifo [OF rs_holds_attached [OF assms, of handle], of evs]
    rsw.run_complete [OF rs_holds_attached [OF assms, of handle], of evs]
  by (simp add: Let_def rs_ops_def)

theorem resultset_fifo_witness:
  "let s = rc_run rs_ops (attach_buffer 1 8 (replicate 8 0) new_resultset_wire)
       [Put [1, 2], Put [3], Publish, Take, Put [4, 5, 6], Publish, Take] in
    rc_taken s = take (length (rc_taken s)) (rc_published s) \<and>
    (\<not> has_record (rc_channel s) \<longrightarrow> rc_taken s = rc_published s)"
  by (rule resultset_fifo) simp_all

lemma drained_room:
  assumes "rs_holds w [] part" and "length bs < 2 ^ 32"
    and "length (join_part part bs) + length_header_size \<le> unat (capacity w)"
  shows "check_room w (of_nat (length bs))"
proof -
  note d = rs_holdsD [OF assms(1)]
  have u: "unat (of_nat (length bs) :: u64) = length bs"
    "unat (of_nat (length bs) + length_header_bytes :: u64) = length bs + 4"
    using assms(2) by (simp_all add: unat_word_ariths)
  show ?thesis
  proof (cases part)
    case None
    then have "content w = []" using assms(1) by (simp add: rs_holds_def)
    from arg_cong [OF this, of length] show ?thesis
      using None assms(3) unat_room [OF d(1)] d(6) u
      by (simp add: check_room_def word_le_nat_alt join_part_def length_header_size_def)
  next
    case (Some p)
    then obtain gap where "content w = gap @ p" "length gap = 4"
      using assms(1) by (auto simp: rs_holds_def length_header_size_def)
    from arg_cong [OF this(1), of length] this(2) show ?thesis
      using Some assms(3) unat_room [OF d(1)] d(6) u
      by (simp add: check_room_def word_le_nat_alt join_part_def length_header_size_def)
  qed
qed

text \<open>
  Back pressure resolves: once the client has taken the published records, every further
  part is accepted without waiting as long as the record with its header fits the buffer, so
  a writer never waits for a client that has nothing to read.
\<close>

theorem drained_accepts:
  assumes "rs_holds w [] part" and "\<not> rs_closed w" "bs \<noteq> []" "length bs < 2 ^ 32"
    and "length (join_part part bs) + length_header_size \<le> unat (capacity w)"
  shows "\<exists>w'. rs_write w bs = Rs_Done w' \<and> rs_holds w' [] (Some (join_part part bs))"
  using rs_write_spec [OF assms(1-4) drained_room [OF assms(1,4,5)]] by (auto simp: join_part_def)

theorem drained_accepts_witness:
  "\<exists>w'. rs_write (attach_buffer 1 8 (replicate 8 0) new_resultset_wire) [1, 2, 3, 4] = Rs_Done w' \<and>
    rs_holds w' [] (Some [1, 2, 3, 4])"
proof -
  have "rs_holds (attach_buffer 1 8 (replicate 8 0) new_resultset_wire) [] None"
    by (rule rs_holds_attached) simp_all
  from drained_accepts [OF this, of "[1, 2, 3, 4]"] show ?thesis
    by (simp add: join_part_def length_header_size_def attach_buffer_def new_resultset_wire_def simple_wire.defs)
qed

end
