(* ===== verification/Resultset_Container.thy ===== *)
theory Resultset_Container
  imports Resultset_Wire
begin

text \<open>
  The server's writer of a result set, \<^verbatim>\<open>resultset_wire_container_impl\<close> of
  \<^verbatim>\<open>endpoint/ipc/bootstrap/server_wires_impl.h\<close>. As long as there is room a record goes to the
  shared-memory wire at once; from the first time there is none, parts go to \<open>annex\<close> buffers,
  and a writer thread transfers them to the wire as the client makes room. The server's calls,
  one iteration of the thread's loop and the client's calls are the steps that interleave.
\<close>

section \<open>Annex buffers\<close>

record annex =
  an_buffer :: bytes
  an_capacity :: nat
  an_read :: nat
  an_chunks :: "nat list"
  an_write_pos :: nat
  an_chunk_size :: nat
  an_full :: bool

text \<open>\<^verbatim>\<open>reserve(size)\<close> gives a capacity of at least \<open>size\<close>; it is taken to be \<open>size\<close>.\<close>

definition annex_new :: "nat \<Rightarrow> annex" where
  "annex_new sz = \<lparr>an_buffer = [], an_capacity = sz, an_read = 0, an_chunks = [],
     an_write_pos = 0, an_chunk_size = 0, an_full = False\<rparr>"

definition annex_is_room :: "annex \<Rightarrow> nat \<Rightarrow> annex \<times> bool" where
  "annex_is_room a len =
     (if an_capacity a < an_write_pos a + an_chunk_size a + len then (a\<lparr>an_full := True\<rparr>, False)
      else (a, True))"

definition annex_write :: "annex \<Rightarrow> bytes \<Rightarrow> annex" where
  "annex_write a data =
     a\<lparr>an_buffer := take (an_write_pos a + an_chunk_size a) (an_buffer a) @ data @
          drop (an_write_pos a + an_chunk_size a) (an_buffer a),
       an_chunk_size := an_chunk_size a + length data\<rparr>"

definition annex_flush :: "annex \<Rightarrow> annex" where
  "annex_flush a =
     (let a1 = (if an_chunk_size a > 0 then a\<lparr>an_chunks := an_chunks a @ [an_chunk_size a]\<rparr> else a)
      in a1\<lparr>an_write_pos := an_write_pos a1 + an_chunk_size a1, an_chunk_size := 0\<rparr>)"

definition annex_exhausted :: "annex \<Rightarrow> bool" where
  "annex_exhausted a \<longleftrightarrow> an_full a \<and> an_read a = length (an_buffer a)"

text \<open>
  One iteration of the loop of \<^verbatim>\<open>transfer\<close>: it goes on, returns, or waits, either for a chunk
  or for room in the wire. The chunk is taken off the queue when the room is there.
\<close>

datatype transfer_outcome = Tr_Continue | Tr_Return bool | Tr_Wait_Chunk | Tr_Wait_Room

definition write_part :: "resultset_wire \<Rightarrow> bytes \<Rightarrow> resultset_wire" where
  "write_part w data = (case rs_write w data of Rs_Done w' \<Rightarrow> w' | Rs_Waits w' _ \<Rightarrow> w')"

definition annex_data :: "annex \<Rightarrow> nat \<Rightarrow> bytes" where
  "annex_data a n = take n (drop (an_read a) (an_buffer a))"

definition annex_transfer ::
    "resultset_wire \<Rightarrow> bool \<Rightarrow> annex \<Rightarrow> transfer_outcome \<times> resultset_wire \<times> annex" where
  "annex_transfer w released a =
     (if annex_exhausted a then (Tr_Return True, w, a)
      else (case an_chunks a of
          record_size # chunks \<Rightarrow>
            (case wait_room w (of_nat record_size) of
               (Rs_Waits w' _, _) \<Rightarrow> (Tr_Wait_Room, w', a)
             | (Rs_Done w', True) \<Rightarrow> (Tr_Return False, w', a\<lparr>an_chunks := chunks\<rparr>)
             | (Rs_Done w', False) \<Rightarrow>
                 (Tr_Continue, rs_flush (write_part w' (annex_data a record_size)),
                  a\<lparr>an_chunks := chunks, an_read := an_read a + record_size\<rparr>))
        | [] \<Rightarrow>
            if \<not> an_full a \<and> \<not> released then (Tr_Wait_Chunk, w, a)
            else if released \<and> an_chunk_size a = 0 then (Tr_Return True, w, a)
            else if an_full a
            then (if an_chunk_size a > 0
                  then (case wait_room w (of_nat (an_chunk_size a)) of
                     (Rs_Waits w' _, _) \<Rightarrow> (Tr_Wait_Room, w', a)
                   | (Rs_Done w', True) \<Rightarrow> (Tr_Return False, w', a)
                   | (Rs_Done w', False) \<Rightarrow>
                       (Tr_Return True, write_part w' (annex_data a (an_chunk_size a)),
                        a\<lparr>an_read := an_read a + an_chunk_size a\<rparr>))
                  else (Tr_Return True, w, a))
            else (Tr_Continue, w, a)))"

section \<open>The container\<close>

record container =
  rc_wire :: resultset_wire
  rc_queue :: "annex list"
  annex_mode :: bool
  thread_invoked :: bool
  thread_active :: bool
  rc_released :: bool
  datachannel_buffer_size :: nat
  current_record_size :: nat
  rc_completed :: bool   \<comment> \<open>\<^verbatim>\<open>write_complete\<close> has been called on the envelope\<close>

definition new_container :: "resultset_wire \<Rightarrow> nat \<Rightarrow> container" where
  "new_container w sz = \<lparr>rc_wire = w, rc_queue = [], annex_mode = False, thread_invoked = False,
     thread_active = False, rc_released = False, datachannel_buffer_size = sz,
     current_record_size = 0, rc_completed = False\<rparr>"

text \<open>The part of \<^verbatim>\<open>write\<close> behind the lock on the queue.\<close>

definition annex_append :: "nat \<Rightarrow> annex list \<Rightarrow> bytes \<Rightarrow> annex list" where
  "annex_append sz q data =
     (if q \<noteq> []
      then (case annex_is_room (last q) (length data) of
          (a, True) \<Rightarrow> butlast q @ [annex_write a data]
        | (a, False) \<Rightarrow> butlast q @ [a, annex_write (annex_new sz) data])
      else [annex_write (annex_new sz) data])"

definition enter_annex_mode :: "container \<Rightarrow> container" where
  "enter_annex_mode c =
     (let c1 = c\<lparr>annex_mode := True, rc_queue := rc_queue c @ [annex_new (datachannel_buffer_size c)]\<rparr>
      in if \<not> thread_invoked c1 then c1\<lparr>thread_active := True, thread_invoked := True\<rparr> else c1)"

definition container_write :: "container \<Rightarrow> bytes \<Rightarrow> container \<times> unit result" where
  "container_write c0 data =
     (let c = c0\<lparr>current_record_size := current_record_size c0 + length data\<rparr> in
      if current_record_size c + length_header_size > datachannel_buffer_size c
      then (c, Inl (Runtime_Error ''too large record size''))
      else if \<not> annex_mode c \<and> check_room (rc_wire c) (of_nat (length data))
      then (c\<lparr>rc_wire := write_part (rc_wire c) data\<rparr>, Inr ())
      else (let c1 = (if annex_mode c then c else enter_annex_mode c)
            in (c1\<lparr>rc_queue := annex_append (datachannel_buffer_size c1) (rc_queue c1) data\<rparr>, Inr ())))"

definition container_flush :: "container \<Rightarrow> container" where
  "container_flush c0 =
     (let c = c0\<lparr>current_record_size := 0\<rparr> in
      if \<not> annex_mode c then c\<lparr>rc_wire := rs_flush (rc_wire c)\<rparr>
      else if rc_queue c \<noteq> []
      then c\<lparr>rc_queue := butlast (rc_queue c) @ [annex_flush (last (rc_queue c))]\<rparr>
      else c)"

definition container_release :: "container \<Rightarrow> container" where
  "container_release c =
     (if thread_invoked c then c\<lparr>rc_released := True\<rparr> else c\<lparr>rc_completed := True\<rparr>)"

definition is_disposable :: "container \<Rightarrow> bool" where
  "is_disposable c \<longleftrightarrow> \<not> thread_active c"

text \<open>
  One iteration of the writer thread: nothing while it waits, the end of the thread, or one
  iteration of the transfer of the first annex, which is removed when it is done.
\<close>

definition thread_step :: "container \<Rightarrow> container" where
  "thread_step c =
     (if \<not> thread_active c then c
      else (case rc_queue c of
          [] \<Rightarrow> if rc_released c then c\<lparr>rc_completed := True, thread_active := False\<rparr> else c
        | a # q \<Rightarrow>
            (case annex_transfer (rc_wire c) (rc_released c) a of
               (Tr_Return True, w, _) \<Rightarrow> c\<lparr>rc_wire := w, rc_queue := q\<rparr>
             | (Tr_Return False, w, a') \<Rightarrow> c\<lparr>rc_wire := w, rc_queue := a' # q, thread_active := False\<rparr>
             | (_, w, a') \<Rightarrow> c\<lparr>rc_wire := w, rc_queue := a' # q\<rparr>)))"

section \<open>What an annex adds to the wire\<close>

text \<open>
  Records and unfinished record after the chunks of an annex and its trailing bytes have been
  added: each chunk completes a record.
\<close>

fun apply_chunks :: "nat list \<Rightarrow> bytes \<Rightarrow> bytes list \<times> bytes option \<Rightarrow> bytes list \<times> bytes option" where
  "apply_chunks [] bs (rs, part) = (rs, if bs = [] then part else Some (join_part part bs))"
| "apply_chunks (n # ns) bs (rs, part) =
     apply_chunks ns (drop n bs) (rs @ [join_part part (take n bs)], None)"

definition annex_abs :: "annex \<Rightarrow> bytes list \<times> bytes option \<Rightarrow> bytes list \<times> bytes option" where
  "annex_abs a = apply_chunks (an_chunks a) (drop (an_read a) (an_buffer a))"

definition annex_ok :: "annex \<Rightarrow> bool" where
  "annex_ok a \<longleftrightarrow> an_write_pos a = an_read a + sum_list (an_chunks a) \<and>
     an_write_pos a + an_chunk_size a = length (an_buffer a) \<and>
     (\<forall>n \<in> set (an_chunks a). 0 < n) \<and>
     length (an_buffer a) \<le> an_capacity a \<and> an_capacity a < 2 ^ 32"

definition put_abs :: "bytes \<Rightarrow> bytes list \<times> bytes option \<Rightarrow> bytes list \<times> bytes option" where
  "put_abs bs st = (fst st, Some (join_part (snd st) bs))"

definition publish_abs :: "bytes list \<times> bytes option \<Rightarrow> bytes list \<times> bytes option" where
  "publish_abs st = (fst st @ (case snd st of None \<Rightarrow> [] | Some p \<Rightarrow> [p]), None)"

lemma join_part_simps [simp]:
  "join_part None bs = bs" "join_part (Some p) bs = p @ bs"
  by (simp_all add: join_part_def)

lemma apply_chunks_put:
  "bs' \<noteq> [] \<Longrightarrow> sum_list ns \<le> length bs \<Longrightarrow>
   apply_chunks ns (bs @ bs') st = put_abs bs' (apply_chunks ns bs st)"
  by (induction ns bs st rule: apply_chunks.induct)
     (auto simp: put_abs_def join_part_def)

lemma apply_chunks_publish:
  "length bs = sum_list ns + n \<Longrightarrow> 0 < n \<Longrightarrow>
   apply_chunks (ns @ [n]) bs st = publish_abs (apply_chunks ns bs st)"
  by (induction ns bs st rule: apply_chunks.induct) (auto simp: publish_abs_def)

lemma apply_chunks_part:
  "sum_list ns < length bs \<Longrightarrow> snd (apply_chunks ns bs st) \<noteq> None"
  by (induction ns bs st rule: apply_chunks.induct) auto

lemma apply_chunks_prefix:
  "\<exists>ss. fst (apply_chunks ns bs st) = fst st @ ss"
  by (induction ns bs st rule: apply_chunks.induct) auto

lemma apply_chunks_cons:
  "apply_chunks ns bs (r # rs, part) =
     (r # fst (apply_chunks ns bs (rs, part)), snd (apply_chunks ns bs (rs, part)))"
  by (induction ns bs "(rs, part)" arbitrary: rs part rule: apply_chunks.induct) auto

lemma annex_abs_queue_cons:
  "fold annex_abs q (r # rs, part) =
     (r # fst (fold annex_abs q (rs, part)), snd (fold annex_abs q (rs, part)))"
proof (induction q arbitrary: rs part)
  case (Cons a q)
  show ?case
    using Cons [of "fst (annex_abs a (rs, part))" "snd (annex_abs a (rs, part))"]
    by (simp add: annex_abs_def apply_chunks_cons)
qed simp

lemma annex_ok_length:
  "annex_ok a \<Longrightarrow> length (drop (an_read a) (an_buffer a)) = sum_list (an_chunks a) + an_chunk_size a"
  by (auto simp: annex_ok_def)

lemma annex_write_spec:
  assumes "annex_ok a" "data \<noteq> []" "an_write_pos a + an_chunk_size a + length data \<le> an_capacity a"
  shows "annex_ok (annex_write a data)"
    and "annex_abs (annex_write a data) st = put_abs data (annex_abs a st)"
    and "an_chunk_size (annex_write a data) > 0" "an_full (annex_write a data) = an_full a"
    and "an_capacity (annex_write a data) = an_capacity a"
proof -
  have b: "an_buffer (annex_write a data) = an_buffer a @ data"
    using assms(1) by (simp add: annex_write_def annex_ok_def)
  show "annex_ok (annex_write a data)"
    using assms b by (auto simp: annex_ok_def annex_write_def)
  have "an_read a \<le> length (an_buffer a)" using assms(1) by (auto simp: annex_ok_def)
  then show "annex_abs (annex_write a data) st = put_abs data (annex_abs a st)"
    using annex_ok_length [OF assms(1)] apply_chunks_put [OF assms(2)] b
    by (simp add: annex_abs_def annex_write_def)
  show "an_chunk_size (annex_write a data) > 0" "an_full (annex_write a data) = an_full a"
    "an_capacity (annex_write a data) = an_capacity a"
    using assms(2) by (simp_all add: annex_write_def)
qed

lemma annex_flush_spec:
  assumes "annex_ok a"
  shows "annex_ok (annex_flush a)"
    and "annex_abs (annex_flush a) st =
      (if an_chunk_size a > 0 then publish_abs (annex_abs a st) else annex_abs a st)"
    and "an_full (annex_flush a) = an_full a" "an_capacity (annex_flush a) = an_capacity a"
  using assms apply_chunks_publish [OF annex_ok_length [OF assms]]
  by (auto simp: annex_flush_def annex_ok_def annex_abs_def Let_def)

lemma annex_new_ok: "sz < 2 ^ 32 \<Longrightarrow> annex_ok (annex_new sz)"
  by (simp add: annex_ok_def annex_new_def)

lemma annex_new_abs: "annex_abs (annex_new sz) st = st"
  by (cases st) (simp add: annex_abs_def annex_new_def)

section \<open>The container as a channel of records\<close>

definition container_ok :: "container \<Rightarrow> bytes option \<Rightarrow> bool" where
  "container_ok c part \<longleftrightarrow>
     \<not> rs_closed (rc_wire c) \<and> datachannel_buffer_size c < 2 ^ 32 \<and>
     (\<forall>a \<in> set (rc_queue c). annex_ok a \<and> an_capacity a = datachannel_buffer_size c) \<and>
     (\<not> annex_mode c \<longrightarrow> rc_queue c = []) \<and>
     (annex_mode c \<and> part \<noteq> None \<longrightarrow> rc_queue c \<noteq> [] \<and> an_chunk_size (last (rc_queue c)) > 0) \<and>
     (rc_queue c \<noteq> [] \<longrightarrow> \<not> an_full (last (rc_queue c))) \<and>
     (\<forall>a \<in> set (butlast (rc_queue c)). an_full a) \<and>
     annex_mode c = thread_invoked c \<and> (thread_invoked c \<and> \<not> rc_released c \<longrightarrow> thread_active c)"

text \<open>Every record fits the buffer together with its header, also the one being written.\<close>

definition sizes_le :: "nat \<Rightarrow> bytes list \<times> bytes option \<Rightarrow> bool" where
  "sizes_le n st \<longleftrightarrow> (\<forall>r \<in> set (fst st). length r + length_header_size \<le> n) \<and>
     (case snd st of None \<Rightarrow> True | Some p \<Rightarrow> length p + length_header_size \<le> n)"

definition container_sizes :: "container \<Rightarrow> bytes list \<Rightarrow> bytes option \<Rightarrow> bool" where
  "container_sizes c rs part \<longleftrightarrow>
     unat (capacity (rc_wire c)) = datachannel_buffer_size c \<and>
     current_record_size c = (case part of None \<Rightarrow> 0 | Some p \<Rightarrow> length p) \<and>
     sizes_le (datachannel_buffer_size c) (rs, part)"

definition container_holds :: "container \<Rightarrow> bytes list \<Rightarrow> bytes option \<Rightarrow> bool" where
  "container_holds c rs part \<longleftrightarrow> container_ok c part \<and> container_sizes c rs part \<and>
     (\<exists>ws wp. rs_holds (rc_wire c) ws wp \<and> fold annex_abs (rc_queue c) (ws, wp) = (rs, part))"

lemma write_part_spec:
  assumes "rs_holds w ws wp" "\<not> rs_closed w" "data \<noteq> []" "length data < 2 ^ 32"
    and "check_room w (of_nat (length data))"
  shows "rs_holds (write_part w data) ws (Some (join_part wp data))"
    and "rs_closed (write_part w data) = rs_closed w" "capacity (write_part w data) = capacity w"
  using rs_write_spec [OF assms] by (auto simp: write_part_def join_part_def)

lemma annex_append_spec:
  assumes q: "\<forall>a \<in> set q. annex_ok a \<and> an_capacity a = sz" and "sz < 2 ^ 32"
    and "data \<noteq> []" "length data \<le> sz" and nf: "q \<noteq> [] \<longrightarrow> \<not> an_full (last q)"
    and bf: "\<forall>a \<in> set (butlast q). an_full a"
  shows "(\<forall>a \<in> set (annex_append sz q data). annex_ok a \<and> an_capacity a = sz) \<and>
    fold annex_abs (annex_append sz q data) st = put_abs data (fold annex_abs q st) \<and>
    annex_append sz q data \<noteq> [] \<and> an_chunk_size (last (annex_append sz q data)) > 0 \<and>
    \<not> an_full (last (annex_append sz q data)) \<and>
    (\<forall>a \<in> set (butlast (annex_append sz q data)). an_full a)"
proof -
  define n where "n = annex_write (annex_new sz) data"
  have new: "annex_ok n" "annex_abs n st' = put_abs data st'" "an_chunk_size n > 0" "\<not> an_full n"
    "an_capacity n = sz" for st'
    using annex_write_spec [OF annex_new_ok [OF assms(2)] assms(3)] assms(4)
    by (simp_all add: n_def annex_new_abs) (simp_all add: annex_new_def)
  show ?thesis
  proof (cases q rule: rev_cases)
    case Nil
    then show ?thesis using new by (simp add: annex_append_def n_def)
  next
    case (snoc q' a)
    then have a: "annex_ok a" "an_capacity a = sz" "\<not> an_full a" using q nf by auto
    have full: "annex_ok (a\<lparr>an_full := True\<rparr>)" "annex_abs (a\<lparr>an_full := True\<rparr>) = annex_abs a"
      using a by (simp_all add: annex_ok_def annex_abs_def)
    show ?thesis
    proof (cases "an_write_pos a + an_chunk_size a + length data \<le> an_capacity a")
      case True
      then have "annex_append sz q data = q' @ [annex_write a data]"
        using snoc by (simp add: annex_append_def annex_is_room_def)
      with annex_write_spec [OF a(1) assms(3) True] a q bf snoc show ?thesis by simp
    next
      case False
      then have "annex_append sz q data = q' @ [a\<lparr>an_full := True\<rparr>, n]"
        using snoc by (simp add: annex_append_def annex_is_room_def n_def)
      with new full a q bf snoc show ?thesis by (simp add: butlast_append)
    qed
  qed
qed

lemma container_holdsD:
  assumes "container_holds c rs part"
  obtains ws wp where "container_ok c part" "container_sizes c rs part" "rs_holds (rc_wire c) ws wp"
    "fold annex_abs (rc_queue c) (ws, wp) = (rs, part)"
  using assms by (auto simp: container_holds_def)

lemma container_put:
  assumes h: "container_holds c rs part" and "data \<noteq> []"
    and fits: "current_record_size c + length data + length_header_size \<le> datachannel_buffer_size c"
  shows "snd (container_write c data) = Inr ()"
    and "container_holds (fst (container_write c data)) rs (Some (join_part part data))"
proof -
  from h obtain ws wp where ok: "container_ok c part" and sz: "container_sizes c rs part"
      and w: "rs_holds (rc_wire c) ws wp"
      and ab: "fold annex_abs (rc_queue c) (ws, wp) = (rs, part)"
    by (rule container_holdsD)
  define c1 where "c1 = c\<lparr>current_record_size := current_record_size c + length data\<rparr>"
  have sz': "current_record_size c1 = length (join_part part data)"
    "sizes_le (datachannel_buffer_size c) (rs, Some (join_part part data))"
    "unat (capacity (rc_wire c)) = datachannel_buffer_size c"
    using sz fits by (auto simp: container_sizes_def sizes_le_def c1_def join_part_def split: option.splits)
  have len: "length data \<le> datachannel_buffer_size c" "length data < 2 ^ 32"
    using fits ok by (auto simp: container_ok_def)
  have "snd (container_write c data) = Inr () \<and>
    container_holds (fst (container_write c data)) rs (Some (join_part part data))"
  proof (cases "\<not> annex_mode c \<and> check_room (rc_wire c) (of_nat (length data))")
    case True
    then have e: "container_write c data = (c1\<lparr>rc_wire := write_part (rc_wire c) data\<rparr>, Inr ())"
      using fits by (simp add: container_write_def Let_def c1_def)
    have q: "rc_queue c = []" "ws = rs" "wp = part" using True ok ab by (auto simp: container_ok_def)
    have cl: "\<not> rs_closed (rc_wire c)" using ok by (simp add: container_ok_def)
    note wr = write_part_spec [OF w cl assms(2) len(2) conjunct2 [OF True]]
    show ?thesis
      using wr q cl True ok sz' by (simp add: e container_holds_def container_ok_def container_sizes_def c1_def)
  next
    case False
    define c2 where "c2 = (if annex_mode c then c1 else enter_annex_mode c1)"
    have e: "container_write c data = (c2\<lparr>rc_queue :=
        annex_append (datachannel_buffer_size c) (rc_queue c2) data\<rparr>, Inr ())"
      using fits False
      by (auto simp: container_write_def Let_def c1_def c2_def enter_annex_mode_def)
    have th: "thread_invoked c2" "rc_released c2 = rc_released c" "\<not> rc_released c \<longrightarrow> thread_active c2"
      using ok by (auto simp: c2_def c1_def enter_annex_mode_def Let_def container_ok_def)
    have c2: "annex_mode c2" "current_record_size c2 = current_record_size c1" "rc_wire c2 = rc_wire c" "datachannel_buffer_size c2 = datachannel_buffer_size c"
      by (auto simp: c2_def c1_def enter_annex_mode_def Let_def)
    have q2: "rc_queue c2 = (if annex_mode c then rc_queue c
        else rc_queue c @ [annex_new (datachannel_buffer_size c)])"
      by (auto simp: c2_def c1_def enter_annex_mode_def Let_def)
    have ok2: "\<forall>a \<in> set (rc_queue c2). annex_ok a \<and> an_capacity a = datachannel_buffer_size c"
      "rc_queue c2 \<noteq> [] \<longrightarrow> \<not> an_full (last (rc_queue c2))"
      "fold annex_abs (rc_queue c2) (ws, wp) = (rs, part)" "datachannel_buffer_size c < 2 ^ 32"
      "\<forall>a \<in> set (butlast (rc_queue c2)). an_full a"
      using ok ab annex_new_ok [of "datachannel_buffer_size c"] annex_new_abs [of "datachannel_buffer_size c"]
      unfolding q2 container_ok_def by (cases "annex_mode c"; simp add: annex_new_def)+
    note ap = annex_append_spec [OF ok2(1,4) assms(2) len(1) ok2(2,5)]
    define q' where "q' = annex_append (datachannel_buffer_size c) (rc_queue c2) data"
    have q': "fold annex_abs q' (ws, wp) = (rs, Some (join_part part data))"
      using ap [of "(ws, wp)"] ok2(3) by (simp add: put_abs_def q'_def)
    have "container_ok (c2\<lparr>rc_queue := q'\<rparr>) (Some (join_part part data))"
      using ap ok c2 th by (simp add: container_ok_def q'_def)
    moreover have "container_sizes (c2\<lparr>rc_queue := q'\<rparr>) rs (Some (join_part part data))"
      using sz' c2 by (simp add: container_sizes_def)
    ultimately show ?thesis
      using w c2(3) q' by (auto simp: e container_holds_def simp flip: q'_def)
  qed
  then show "snd (container_write c data) = Inr ()"
    and "container_holds (fst (container_write c data)) rs (Some (join_part part data))"
    by auto
qed

lemma container_publish:
  assumes h: "container_holds c rs part"
  shows "container_holds (container_flush c) (fst (publish_abs (rs, part))) None"
proof -
  from h obtain ws wp where ok: "container_ok c part" and sz: "container_sizes c rs part"
      and w: "rs_holds (rc_wire c) ws wp"
      and ab: "fold annex_abs (rc_queue c) (ws, wp) = (rs, part)"
    by (rule container_holdsD)
  have sz': "sizes_le (datachannel_buffer_size c) (fst (publish_abs (rs, part)), None)"
    "unat (capacity (rc_wire c)) = datachannel_buffer_size c"
    using sz by (auto simp: container_sizes_def sizes_le_def publish_abs_def split: option.splits)
  show ?thesis
  proof (cases "annex_mode c")
    case False
    then have q: "rc_queue c = []" "ws = rs" "wp = part" using ok ab by (auto simp: container_ok_def)
    have "rs_holds (rs_flush (rc_wire c)) (fst (publish_abs (rs, part))) None"
      using rsw.publish_law [of "rc_wire c"] rsw.publish_none [of "rc_wire c"] w q
      by (cases part) (auto simp: publish_abs_def rs_ops_def)
    moreover have "rs_closed (rs_flush (rc_wire c)) = rs_closed (rc_wire c)"
      "capacity (rs_flush (rc_wire c)) = capacity (rc_wire c)"
      by (simp_all add: rs_flush_def Let_def write_in_buffer_def)
    ultimately show ?thesis
      using ok q(1) False sz'
      by (simp add: container_flush_def Let_def container_holds_def container_ok_def container_sizes_def)
  next
    case True
    show ?thesis
    proof (cases "rc_queue c" rule: rev_cases)
      case Nil
      then have "part = None" using ok True by (auto simp: container_ok_def)
      then show ?thesis
        using True Nil h sz'
        by (auto simp: container_flush_def container_holds_def container_ok_def container_sizes_def publish_abs_def)
    next
      case (snoc q a)
      have a: "annex_ok a" using ok snoc by (simp add: container_ok_def)
      have ab': "annex_abs a (fold annex_abs q (ws, wp)) = (rs, part)" using ab snoc by simp
      have "an_chunk_size a > 0 \<longleftrightarrow> part \<noteq> None"
        using apply_chunks_part [of "an_chunks a" "drop (an_read a) (an_buffer a)" "fold annex_abs q (ws, wp)"]
          annex_ok_length [OF a] ab' ok True snoc
        by (auto simp: annex_abs_def container_ok_def)
      then have "annex_abs (annex_flush a) (fold annex_abs q (ws, wp)) = (fst (publish_abs (rs, part)), None)"
        using annex_flush_spec(2) [OF a, of "fold annex_abs q (ws, wp)"] ab'
        by (cases part) (auto simp: publish_abs_def)
      then show ?thesis
        using True snoc ok w annex_flush_spec(1,3,4) [OF a] sz'
        by (auto simp: container_flush_def Let_def container_holds_def container_ok_def container_sizes_def)
    qed
  qed
qed

lemma container_take:
  assumes h: "container_holds c (r # rs) part" and rd: "has_record (rc_wire c)"
  shows "get_chunk (rc_wire c) = (w1, a, b) \<Longrightarrow> a @ (case b of None \<Rightarrow> [] | Some b' \<Rightarrow> b') = r"
    and "container_holds (c\<lparr>rc_wire := rs_dispose (rc_wire c)\<rparr>) rs part"
proof -
  from h obtain ws wp where ok: "container_ok c part" and sz: "container_sizes c (r # rs) part"
      and w: "rs_holds (rc_wire c) ws wp"
      and ab: "fold annex_abs (rc_queue c) (ws, wp) = (r # rs, part)"
    by (rule container_holdsD)
  obtain ws' where ws: "ws = r # ws'" "fold annex_abs (rc_queue c) (ws', wp) = (rs, part)"
    using has_record_iff [OF w] rd ab annex_abs_queue_cons [of "rc_queue c"]
    by (cases ws) (auto simp: prod_eq_iff)
  show "get_chunk (rc_wire c) = (w1, a, b) \<Longrightarrow> a @ (case b of None \<Rightarrow> [] | Some b' \<Rightarrow> b') = r"
    using get_chunk_spec(1) w ws(1) by blast
  have "rs_closed (rs_dispose (rc_wire c)) = rs_closed (rc_wire c)"
    "capacity (rs_dispose (rc_wire c)) = capacity (rc_wire c)"
    by (simp_all add: rs_dispose_def Let_def)
  then show "container_holds (c\<lparr>rc_wire := rs_dispose (rc_wire c)\<rparr>) rs part"
    using rs_dispose_spec w ws ok sz
    by (auto simp: container_holds_def container_ok_def container_sizes_def sizes_le_def)
qed

section \<open>The writer thread\<close>

lemma wait_room_cases [consumes 1, case_names room wait]:
  assumes "\<not> rs_closed w"
  obtains (room) "wait_room w len = (Rs_Done w, False)" "check_room w len"
  | (wait) "wait_room w len = (Rs_Waits (w\<lparr>wait_for_write := True\<rparr>) (wait_room_length w len), False)"
      "\<not> check_room w len"
  using assms
  by (cases "rs_wait_over w (wait_room_length w len)")
     (auto simp: wait_room_def rs_wait_over_def wait_room_length_def check_room_def split: if_splits)

lemma rs_holds_waiting [simp]:
  "rs_holds (w\<lparr>wait_for_write := b\<rparr>) rs part = rs_holds w rs part"
  by (auto simp: rs_holds_def wire_inv_def content_def stored_def stored_valid_def split: option.splits)

lemma annex_data_length:
  assumes "annex_ok a" "n \<le> sum_list (an_chunks a) + an_chunk_size a"
  shows "length (annex_data a n) = n" "n < 2 ^ 32"
  using assms annex_ok_length [OF assms(1)] by (auto simp: annex_data_def annex_ok_def)

lemma transfer_chunk:
  assumes a: "annex_ok a" and ch: "an_chunks a = n # ns"
    and w: "rs_holds w ws wp" "\<not> rs_closed w" "check_room w (of_nat n)"
  defines "w' \<equiv> rs_flush (write_part w (annex_data a n))"
  defines "a' \<equiv> a\<lparr>an_chunks := ns, an_read := an_read a + n\<rparr>"
  shows "rs_holds w' (ws @ [join_part wp (annex_data a n)]) None" "rs_closed w' = rs_closed w"
    "capacity w' = capacity w"
    and "annex_ok a'" "annex_abs a' (ws @ [join_part wp (annex_data a n)], None) = annex_abs a (ws, wp)"
proof -
  have n: "length (annex_data a n) = n" "n < 2 ^ 32" "0 < n"
    using annex_data_length [OF a] a ch by (auto simp: annex_ok_def)
  then have "annex_data a n \<noteq> []" by auto
  note wr = write_part_spec [OF w(1,2) this, unfolded n(1), OF n(2) w(3)]
  show "rs_holds w' (ws @ [join_part wp (annex_data a n)]) None" "rs_closed w' = rs_closed w"
    "capacity w' = capacity w"
    using rs_flush_spec [OF wr(1)] wr(2,3) by (simp_all add: w'_def)
  show "annex_ok a'" using a ch by (auto simp: a'_def annex_ok_def)
  show "annex_abs a' (ws @ [join_part wp (annex_data a n)], None) = annex_abs a (ws, wp)"
    by (simp add: a'_def annex_abs_def ch annex_data_def add.commute)
qed

lemma transfer_rest:
  assumes a: "annex_ok a" and ch: "an_chunks a = []" "an_chunk_size a > 0"
    and w: "rs_holds w ws wp" "\<not> rs_closed w" "check_room w (of_nat (an_chunk_size a))"
  defines "w' \<equiv> write_part w (annex_data a (an_chunk_size a))"
  shows "\<exists>wp'. rs_holds w' ws (Some wp') \<and> annex_abs a (ws, wp) = (ws, Some wp')"
    and "rs_closed w' = rs_closed w" "capacity w' = capacity w"
proof -
  have n: "length (annex_data a (an_chunk_size a)) = an_chunk_size a" "an_chunk_size a < 2 ^ 32"
    using annex_data_length [OF a] by auto
  then have ne: "annex_data a (an_chunk_size a) \<noteq> []" using ch(2) by auto
  note wr = write_part_spec [OF w(1,2) ne, unfolded n(1), OF n(2) w(3)]
  have "annex_data a (an_chunk_size a) = drop (an_read a) (an_buffer a)"
    using annex_ok_length [OF a] ch(1) by (simp add: annex_data_def)
  then show "\<exists>wp'. rs_holds w' ws (Some wp') \<and> annex_abs a (ws, wp) = (ws, Some wp')"
    using wr(1) ne by (auto simp: w'_def annex_abs_def ch(1))
  show "rs_closed w' = rs_closed w" "capacity w' = capacity w" using wr(2,3) by (simp_all add: w'_def)
qed

lemma annex_empty:
  assumes "annex_ok a" and "an_read a = length (an_buffer a) \<or> an_chunks a = [] \<and> an_chunk_size a = 0"
  shows "annex_abs a st = st"
proof -
  have "sum_list (an_chunks a) + an_chunk_size a = 0"
    using annex_ok_length [OF assms(1)] assms(2) by auto
  moreover from this have "an_chunks a = []"
    using assms(1) by (cases "an_chunks a") (auto simp: annex_ok_def)
  ultimately show ?thesis
    using annex_ok_length [OF assms(1)] by (cases st) (simp add: annex_abs_def)
qed

text \<open>Removing the first annex, once its content is in the wire.\<close>

lemma container_pop:
  assumes "container_ok c part" "container_sizes c rs part" "capacity w' = capacity (rc_wire c)" "rc_queue c = a # q" "rs_holds w' ws' wp'" "\<not> rs_closed w'"
    and "fold annex_abs q (ws', wp') = (rs, part)" and "an_full a \<or> an_chunk_size a = 0"
  shows "container_holds (c\<lparr>rc_wire := w', rc_queue := q\<rparr>) rs part"
  using assms by (auto simp: container_holds_def container_ok_def container_sizes_def split: if_splits)

lemma container_front:
  assumes "container_ok c part" "container_sizes c rs part" "capacity w' = capacity (rc_wire c)" "rc_queue c = a # q" "rs_holds w' ws' wp'" "\<not> rs_closed w'"
    and "annex_ok a'" "fold annex_abs (a' # q) (ws', wp') = (rs, part)"
    and "an_capacity a' = an_capacity a" "an_full a' = an_full a" "an_chunk_size a' = an_chunk_size a"
  shows "container_holds (c\<lparr>rc_wire := w', rc_queue := a' # q\<rparr>) rs part"
  using assms by (auto simp: container_holds_def container_ok_def container_sizes_def split: if_splits)

definition transfer_ok ::
    "annex \<Rightarrow> resultset_wire \<Rightarrow> bytes list \<times> bytes option \<Rightarrow>
     transfer_outcome \<times> resultset_wire \<times> annex \<Rightarrow> bool" where
  "transfer_ok a w st r = (case r of (out, w', a') \<Rightarrow> out \<noteq> Tr_Return False \<and> \<not> rs_closed w' \<and>
     capacity w' = capacity w \<and>
     (\<exists>ws' wp'. rs_holds w' ws' wp' \<and>
        (if out = Tr_Return True then annex_abs a st = (ws', wp') \<and> (an_full a \<or> an_chunk_size a = 0)
         else annex_ok a' \<and> annex_abs a' (ws', wp') = annex_abs a st \<and> an_capacity a' = an_capacity a \<and>
           an_full a' = an_full a \<and> an_chunk_size a' = an_chunk_size a)))"

lemma transfer_ok_same:
  assumes "annex_ok a" "rs_holds w ws wp" "\<not> rs_closed w" and "out \<noteq> Tr_Return True" "out \<noteq> Tr_Return False"
  shows "transfer_ok a w (ws, wp) (out, w, a)"
    and "transfer_ok a w (ws, wp) (out, w\<lparr>wait_for_write := True\<rparr>, a)"
  using assms by (auto simp: transfer_ok_def)

lemma transfer_ok_done:
  assumes "annex_ok a" "rs_holds w ws wp" "\<not> rs_closed w" and "an_full a \<or> an_chunk_size a = 0"
    and "an_read a = length (an_buffer a) \<or> an_chunks a = [] \<and> an_chunk_size a = 0"
  shows "transfer_ok a w (ws, wp) (Tr_Return True, w, a)"
  using assms annex_empty [OF assms(1,5)] by (auto simp: transfer_ok_def)

lemma transfer_spec_chunk:
  assumes a: "annex_ok a" and w: "rs_holds w ws wp" "\<not> rs_closed w"
    and ne: "\<not> annex_exhausted a" and ch: "an_chunks a = n # ns"
  shows "transfer_ok a w (ws, wp) (annex_transfer w released a)"
  using w(2)
proof (cases rule: wait_room_cases [where len = "of_nat n"])
  case room
  note tr = transfer_chunk [OF a ch w room(2)]
  show ?thesis
    using ne ch room(1) tr w(2) by (auto simp: annex_transfer_def transfer_ok_def)
next
  case wait
  then show ?thesis
    using ne ch transfer_ok_same [OF a w] by (simp add: annex_transfer_def)
qed

lemma transfer_spec_nil:
  assumes a: "annex_ok a" and w: "rs_holds w ws wp" "\<not> rs_closed w"
    and ne: "\<not> annex_exhausted a" and ch: "an_chunks a = []"
  shows "transfer_ok a w (ws, wp) (annex_transfer w released a)"
proof (cases "an_full a \<and> an_chunk_size a > 0")
  case True
  show ?thesis
    using w(2)
  proof (cases rule: wait_room_cases [where len = "of_nat (an_chunk_size a)"])
    case room
    note tr = transfer_rest [OF a ch _ w room(2)]
    show ?thesis
      using True ne ch room(1) tr w(2) by (auto simp: annex_transfer_def transfer_ok_def)
  next
    case wait
    then show ?thesis
      using True ne ch transfer_ok_same [OF a w] by (simp add: annex_transfer_def)
  qed
next
  case False
  then show ?thesis
    using ne ch transfer_ok_same [OF a w] transfer_ok_done [OF a w] by (simp add: annex_transfer_def)
qed

lemma transfer_spec:
  assumes a: "annex_ok a" and w: "rs_holds w ws wp" "\<not> rs_closed w"
  shows "transfer_ok a w (ws, wp) (annex_transfer w released a)"
proof (cases "annex_exhausted a")
  case True
  then show ?thesis
    using transfer_ok_done [OF a w] by (simp add: annex_transfer_def annex_exhausted_def)
next
  case False
  then show ?thesis
    using transfer_spec_chunk [OF a w False] transfer_spec_nil [OF a w False]
    by (cases "an_chunks a") auto
qed

lemma container_tick:
  assumes h: "container_holds c rs part"
  shows "container_holds (thread_step c) rs part"
proof -
  from h obtain ws wp where ok: "container_ok c part" and sz: "container_sizes c rs part"
      and w: "rs_holds (rc_wire c) ws wp"
      and ab: "fold annex_abs (rc_queue c) (ws, wp) = (rs, part)"
    by (rule container_holdsD)
  have cl: "\<not> rs_closed (rc_wire c)" using ok by (simp add: container_ok_def)
  show ?thesis
  proof (cases "thread_active c \<and> rc_queue c \<noteq> []")
    case False
    then show ?thesis
      using h by (auto simp: thread_step_def container_holds_def container_ok_def container_sizes_def split: list.splits)
  next
    case True
    then obtain a q where q: "rc_queue c = a # q" by (cases "rc_queue c") auto
    have a: "annex_ok a" using ok q by (simp add: container_ok_def)
    have abq: "fold annex_abs q (annex_abs a (ws, wp)) = (rs, part)" using ab q by simp
    obtain out w' a' where r: "annex_transfer (rc_wire c) (rc_released c) a = (out, w', a')"
      by (metis prod_cases3)
    from transfer_spec [OF a w cl, of "rc_released c"] obtain ws' wp' where
      t: "out \<noteq> Tr_Return False" "\<not> rs_closed w'" "rs_holds w' ws' wp'" "capacity w' = capacity (rc_wire c)"
        "if out = Tr_Return True then annex_abs a (ws, wp) = (ws', wp') \<and> (an_full a \<or> an_chunk_size a = 0)
         else annex_ok a' \<and> annex_abs a' (ws', wp') = annex_abs a (ws, wp) \<and> an_capacity a' = an_capacity a \<and>
           an_full a' = an_full a \<and> an_chunk_size a' = an_chunk_size a"
      by (auto simp: r transfer_ok_def)
    show ?thesis
    proof (cases "out = Tr_Return True")
      case ret: True
      have "container_holds (c\<lparr>rc_wire := w', rc_queue := q\<rparr>) rs part"
        using container_pop [OF ok sz t(4) q t(3,2)] t(5) ret abq by simp
      then show ?thesis using True q r ret by (simp add: thread_step_def)
    next
      case False
      have "container_holds (c\<lparr>rc_wire := w', rc_queue := a' # q\<rparr>) rs part"
        using container_front [OF ok sz t(4) q t(3,2)] t(5) False abq by simp
      then show ?thesis
        using True q r False t(1)
        by (auto simp: thread_step_def split: transfer_outcome.splits bool.splits)
    qed
  qed
qed

section \<open>Records through the container\<close>

definition container_ops :: "container record_ops" where
  "container_ops =
     \<lparr>can_put = (\<lambda>c bs. bs \<noteq> [] \<and>
        current_record_size c + length bs + length_header_size \<le> datachannel_buffer_size c),
      put_part = (\<lambda>c bs. fst (container_write c bs)),
      publish = container_flush,
      ready = (\<lambda>c. has_record (rc_wire c)),
      fetch = (\<lambda>c. case get_chunk (rc_wire c) of (_, a, b) \<Rightarrow> a @ (case b of None \<Rightarrow> [] | Some b' \<Rightarrow> b')),
      drop_first = (\<lambda>c. c\<lparr>rc_wire := rs_dispose (rc_wire c)\<rparr>),
      tick = thread_step\<rparr>"

interpretation cw: record_channel_base container_ops container_holds
proof unfold_locales
  fix c rs part bs
  assume "container_holds c rs part" "can_put container_ops c bs"
  then show "container_holds (put_part container_ops c bs) rs (Some (join_part part bs))"
    using container_put(2) by (simp add: container_ops_def)
next
  fix c rs p assume "container_holds c rs (Some p)"
  from container_publish [OF this]
  show "container_holds (publish container_ops c) (rs @ [p]) None"
    by (simp add: container_ops_def publish_abs_def)
next
  fix c rs assume "container_holds c rs None"
  from container_publish [OF this] show "container_holds (publish container_ops c) rs None"
    by (simp add: container_ops_def publish_abs_def)
next
  fix c rs part assume h: "container_holds c rs part" and "ready container_ops c"
  then have rd: "has_record (rc_wire c)" by (simp add: container_ops_def)
  from h obtain ws wp where "rs_holds (rc_wire c) ws wp" "fold annex_abs (rc_queue c) (ws, wp) = (rs, part)"
    by (rule container_holdsD)
  then show "rs \<noteq> []"
    using has_record_iff rd annex_abs_queue_cons [of "rc_queue c"] by (cases ws) (auto simp: prod_eq_iff)
next
  fix c r rs part assume h: "container_holds c (r # rs) part" and "ready container_ops c"
  then have rd: "has_record (rc_wire c)" by (simp add: container_ops_def)
  obtain w1 a b where g: "get_chunk (rc_wire c) = (w1, a, b)" by (metis prod_cases3)
  show "fetch container_ops c = r" using container_take(1) [OF h rd g] g by (simp add: container_ops_def)
  show "container_holds (drop_first container_ops c) rs part"
    using container_take(2) [OF h rd] by (simp add: container_ops_def)
next
  fix c rs part assume "container_holds c rs part"
  then show "container_holds (tick container_ops c) rs part"
    by (simp add: container_ops_def container_tick)
qed

lemma new_container_holds:
  assumes "unat cap dvd 2 ^ 64" "0 < unat cap" "unat cap < 2 ^ 32" "length mem = unat cap"
  shows "container_holds (new_container (attach_buffer handle cap mem new_resultset_wire) (unat cap)) [] None"
  using rs_holds_attached [of cap mem handle] assms
  by (auto simp: container_holds_def container_ok_def container_sizes_def sizes_le_def new_container_def
      attach_buffer_def new_resultset_wire_def simple_wire.defs)

text \<open>
  C3. The records of a result set reach the client complete and in order also when they take
  the way through the annex buffers: for every sequence of writes and flushes of the server,
  iterations of the writer thread and reads of the client, the records the client has taken
  are the first of the records flushed.
\<close>

theorem container_fifo:
  assumes "unat cap dvd 2 ^ 64" "0 < unat cap" "unat cap < 2 ^ 32" "length mem = unat cap"
  shows "let s = rc_run container_ops
      (new_container (attach_buffer handle cap mem new_resultset_wire) (unat cap)) evs in
    rc_taken s = take (length (rc_taken s)) (rc_published s)"
  using cw.run_fifo [OF new_container_holds [OF assms, of handle], of evs] by (simp add: Let_def)

theorem container_fifo_witness:
  "let s = rc_run container_ops (new_container (attach_buffer 1 8 (replicate 8 0) new_resultset_wire) 8)
      [Put [1, 2], Publish, Put [3, 4, 5], Publish, Tick, Take, Tick, Take] in
    rc_taken s = take (length (rc_taken s)) (rc_published s)"
  using container_fifo [of 8 "replicate 8 0" 1 "[Put [1, 2], Publish, Put [3, 4, 5], Publish, Tick, Take, Tick, Take]"]
  by simp

text \<open>How much the thread has still to do.\<close>

definition queue_work :: "container \<Rightarrow> nat" where
  "queue_work c = sum_list (map (\<lambda>a. Suc (length (an_buffer a) - an_read a)) (rc_queue c))"

lemma apply_chunks_sizes: "sizes_le n (apply_chunks ns bs st) \<Longrightarrow> sizes_le n st"
proof (induction ns bs st rule: apply_chunks.induct)
  case (1 bs rs part)
  then show ?case by (cases part; cases "bs = []") (simp_all add: sizes_le_def)
next
  case (2 n' ns bs rs part)
  from 2(1) [OF 2(2) [unfolded apply_chunks.simps]] show ?case
    by (cases part) (simp_all add: sizes_le_def)
qed

lemma queue_sizes: "sizes_le n (fold annex_abs q st) \<Longrightarrow> sizes_le n st"
proof (induction q arbitrary: st)
  case (Cons a q)
  from Cons.IH [of "annex_abs a st"] Cons.prems have "sizes_le n (annex_abs a st)" by simp
  then show ?case unfolding annex_abs_def by (rule apply_chunks_sizes)
qed simp

text \<open>
  With the client up to date, an iteration of the thread on a released container makes progress:
  it neither waits for room nor spins.
\<close>

lemma transfer_progress:
  assumes a: "annex_ok a" and w: "rs_holds w [] wp" "\<not> rs_closed w"
    and sz: "sizes_le (unat (capacity w)) (annex_abs a ([], wp))"
    and ok: "an_full a \<or> an_chunk_size a = 0"
    and r: "annex_transfer w True a = (out, w', a')"
  shows "out = Tr_Return True \<or> out = Tr_Continue \<and>
    length (an_buffer a') - an_read a' < length (an_buffer a) - an_read a"
proof (cases "annex_exhausted a")
  case True
  with r show ?thesis by (simp add: annex_transfer_def)
next
  case ne: False
  show ?thesis
  proof (cases "an_chunks a")
    case (Cons n ns)
    have n: "length (annex_data a n) = n" "n < 2 ^ 32" "0 < n"
      using annex_data_length [OF a, of n] a Cons by (auto simp: annex_ok_def)
    have "sizes_le (unat (capacity w)) ([join_part wp (annex_data a n)], None)"
      using sz Cons apply_chunks_sizes [of "unat (capacity w)" ns] by (simp add: annex_abs_def annex_data_def)
    then have "check_room w (of_nat n)"
      using drained_room [OF w(1), of "annex_data a n"] n by (simp add: sizes_le_def)
    with w(2) have "wait_room w (of_nat n) = (Rs_Done w, False)"
      by (cases rule: wait_room_cases [where len = "of_nat n"]) auto
    then show ?thesis
      using r ne Cons n(3) annex_ok_length [OF a] by (auto simp: annex_transfer_def)
  next
    case Nil
    show ?thesis
    proof (cases "an_chunk_size a = 0")
      case True
      then show ?thesis using r ne Nil by (simp add: annex_transfer_def)
    next
      case False
      define n where "n = an_chunk_size a"
      have n: "length (annex_data a n) = n" "n < 2 ^ 32" "annex_data a n = drop (an_read a) (an_buffer a)"
        using annex_data_length [OF a, of n] annex_ok_length [OF a] Nil by (auto simp: annex_data_def n_def)
      have "sizes_le (unat (capacity w)) ([], Some (join_part wp (annex_data a n)))"
        using sz Nil False n by (auto simp: annex_abs_def n_def split: if_splits)
      then have "check_room w (of_nat n)"
        using drained_room [OF w(1), of "annex_data a n"] n by (simp add: sizes_le_def)
      with w(2) have "wait_room w (of_nat n) = (Rs_Done w, False)"
        by (cases rule: wait_room_cases [where len = "of_nat n"]) auto
      then show ?thesis
        using r ne Nil False ok by (auto simp: annex_transfer_def n_def)
    qed
  qed
qed

lemma thread_progress:
  assumes h: "container_holds c rs None" and rl: "rc_released c" "thread_active c"
    and nr: "\<not> has_record (rc_wire c)" and q: "rc_queue c = a # q"
  shows "queue_work (thread_step c) < queue_work c \<and> rc_released (thread_step c) \<and>
    thread_active (thread_step c)"
proof -
  from h obtain ws wp where ok: "container_ok c None" and sz: "container_sizes c rs None"
      and w: "rs_holds (rc_wire c) ws wp"
      and ab: "fold annex_abs (rc_queue c) (ws, wp) = (rs, None)"
    by (rule container_holdsD)
  have ws: "ws = []" using has_record_iff [OF w] nr by simp
  have a: "annex_ok a" and cl: "\<not> rs_closed (rc_wire c)" using ok q by (simp_all add: container_ok_def)
  have "sizes_le (unat (capacity (rc_wire c))) (fold annex_abs q (annex_abs a ([], wp)))"
    using sz ab q ws by (simp add: container_sizes_def)
  then have le: "sizes_le (unat (capacity (rc_wire c))) (annex_abs a ([], wp))" by (rule queue_sizes)
  have af: "an_full a \<or> an_chunk_size a = 0"
  proof (cases "q = []")
    case True
    then have "snd (annex_abs a ([], wp)) = None" using ab q ws by simp
    then show ?thesis
      using apply_chunks_part [of "an_chunks a" "drop (an_read a) (an_buffer a)" "([], wp)"]
        annex_ok_length [OF a] by (auto simp: annex_abs_def)
  qed (use ok q in \<open>auto simp: container_ok_def\<close>)
  obtain out w' a' where r: "annex_transfer (rc_wire c) True a = (out, w', a')"
    by (metis prod_cases3)
  from transfer_progress [OF a w [unfolded ws] cl le af r] show ?thesis
    using r rl q by (auto simp: thread_step_def queue_work_def)
qed

text \<open>Steps of thread and client alone can deliver everything and end the writer.\<close>

definition drainable :: "container rc_state \<Rightarrow> bool" where
  "drainable s \<longleftrightarrow> (\<exists>evs. set evs \<subseteq> {Take, Tick} \<and>
     rc_taken (fold (rc_step container_ops) evs s) = rc_published s \<and>
     rc_completed (rc_channel (fold (rc_step container_ops) evs s)))"

lemma drainable_step:
  assumes "drainable (rc_step container_ops e s)" "e \<in> {Take, Tick}"
  shows "drainable s"
proof -
  from assms(1) obtain evs where "set evs \<subseteq> {Take, Tick}"
      "rc_taken (fold (rc_step container_ops) evs (rc_step container_ops e s)) =
        rc_published (rc_step container_ops e s)"
      "rc_completed (rc_channel (fold (rc_step container_ops) evs (rc_step container_ops e s)))"
    by (auto simp: drainable_def)
  moreover have "rc_published (rc_step container_ops e s) = rc_published s"
    using assms(2) by auto
  ultimately show ?thesis
    unfolding drainable_def using assms(2) by (intro exI [of _ "e # evs"]) simp
qed

lemma drainable_now:
  assumes "container_holds (rc_channel s) rs None" "rc_taken s @ rs = rc_published s"
    and "rc_released (rc_channel s)" "thread_active (rc_channel s)"
    and "\<not> has_record (rc_wire (rc_channel s))" "rc_queue (rc_channel s) = []"
  shows "drainable s"
proof -
  have "rs = []"
    using assms(1,5,6) by (auto simp: container_holds_def has_record_iff)
  then show ?thesis
    using assms(2-6) unfolding drainable_def
    by (intro exI [of _ "[Tick]"]) (simp add: thread_step_def container_ops_def)
qed

lemma container_drains:
  assumes "container_holds (rc_channel s) rs None" "rc_taken s @ rs = rc_published s"
    and "rc_released (rc_channel s)" "thread_active (rc_channel s)"
  shows "drainable s"
  using assms
proof (induction "(queue_work (rc_channel s), length rs)" arbitrary: s rs
    rule: wf_induct_rule [OF wf_lex_prod [OF wf_less_than wf_less_than]])
  case less: 1
  note h = less(2)
  show ?case
  proof (cases "has_record (rc_wire (rc_channel s))")
    case True
    then have rd: "ready container_ops (rc_channel s)" by (simp add: container_ops_def)
    obtain r rs' where rs: "rs = r # rs'" using cw.ready_law [OF h rd] by (cases rs) auto
    define s' where "s' = rc_step container_ops Take s"
    have c: "rc_channel s' = (rc_channel s)\<lparr>rc_wire := rs_dispose (rc_wire (rc_channel s))\<rparr>"
      using True by (simp add: s'_def container_ops_def)
    have "rc_taken s' @ rs' = rc_published s'"
      using rd cw.fetch_law [OF h [unfolded rs] rd] less(3) rs by (simp add: s'_def)
    moreover have "container_holds (rc_channel s') rs' None"
      using container_take(2) [OF h [unfolded rs] True] by (simp only: c)
    moreover have "((queue_work (rc_channel s'), length rs'), queue_work (rc_channel s), length rs)
        \<in> less_than <*lex*> less_than"
      by (simp add: rs c queue_work_def)
    ultimately have "drainable s'" using less(4,5) by (intro less(1) [of s' rs']) (simp_all add: c)
    then show ?thesis unfolding s'_def by (rule drainable_step) simp
  next
    case nr: False
    show ?thesis
    proof (cases "rc_queue (rc_channel s)")
      case Nil
      then show ?thesis using drainable_now [OF h less(3-5) nr] by simp
    next
      case (Cons a q)
      define s' where "s' = rc_step container_ops Tick s"
      have c: "rc_channel s' = thread_step (rc_channel s)" "rc_taken s' = rc_taken s"
        "rc_published s' = rc_published s"
        by (simp_all add: s'_def container_ops_def)
      have "drainable s'"
        using thread_progress [OF h less(4,5) nr Cons] container_tick [OF h] less(3)
        by (intro less(1) [of s' rs]) (simp_all add: c)
      then show ?thesis unfolding s'_def by (rule drainable_step) simp
    qed
  qed
qed

text \<open>
  C18. A released writer comes to its end: when the server has flushed its last record and
  releases the writer, the writer thread and the client can always bring every record to the
  client and the writer to its completion, which is what the end-of-records notification waits
  for. Neither the room in the wire nor the annex buffers can keep them from it.
\<close>

theorem released_container_drains:
  assumes "unat cap dvd 2 ^ 64" "0 < unat cap" "unat cap < 2 ^ 32" "length mem = unat cap"
    and "s = rc_run container_ops (new_container (attach_buffer handle cap mem new_resultset_wire) (unat cap)) evs"
    and "rc_part s = None" "thread_invoked (rc_channel s)" "\<not> rc_released (rc_channel s)"
  shows "\<exists>evs'. set evs' \<subseteq> {Take, Tick} \<and>
    (let s' = fold (rc_step container_ops) evs' (s\<lparr>rc_channel := container_release (rc_channel s)\<rparr>)
     in rc_taken s' = rc_published s \<and> rc_completed (rc_channel s'))"
proof -
  have "cw.rc_inv s"
    unfolding assms(5) by (rule cw.rc_inv_run [OF new_container_holds [OF assms(1-4)]])
  then obtain rs where h: "container_holds (rc_channel s) rs None" "rc_taken s @ rs = rc_published s"
    using assms(6) by (auto simp: cw.rc_inv_def)
  have "thread_active (rc_channel s)"
    using h(1) assms(7,8) by (auto simp: container_holds_def container_ok_def)
  moreover have "container_holds (container_release (rc_channel s)) rs None"
    using h(1) assms(7)
    by (simp add: container_release_def container_holds_def container_ok_def container_sizes_def)
  ultimately have "drainable (s\<lparr>rc_channel := container_release (rc_channel s)\<rparr>)"
    using h(2) assms(7) by (intro container_drains [of _ rs]) (simp_all add: container_release_def)
  then show ?thesis by (auto simp: drainable_def Let_def)
qed

definition sample_run :: "container rc_state" where
  "sample_run = rc_run container_ops (new_container (attach_buffer 1 8 (replicate 8 0) new_resultset_wire) 8)
     [Put [1, 2], Publish, Put [3, 4, 5], Publish]"

theorem released_container_drains_witness:
  "\<exists>evs'. set evs' \<subseteq> {Take, Tick} \<and>
    (let s' = fold (rc_step container_ops) evs' (sample_run\<lparr>rc_channel := container_release (rc_channel sample_run)\<rparr>)
     in rc_taken s' = rc_published sample_run \<and> rc_completed (rc_channel s'))"
proof (rule released_container_drains)
  show "sample_run = rc_run container_ops
      (new_container (attach_buffer 1 8 (replicate 8 0) new_resultset_wire) (unat (8 :: u64)))
      [Put [1, 2], Publish, Put [3, 4, 5], Publish]"
    by (simp add: sample_run_def)
  show "rc_part sample_run = None" "thread_invoked (rc_channel sample_run)"
    "\<not> rc_released (rc_channel sample_run)"
    by code_simp+
qed simp_all

text \<open>
  C31. A writer that is released with an unfinished record in its annex never ends: each
  iteration of the thread leaves everything as it is, so it repeats without waiting, and the
  completion the end-of-records notification needs does not come.
\<close>

theorem released_unfinished_spins:
  assumes "thread_active c" "rc_released c" "rc_queue c = [a]"
    and "\<not> an_full a" "an_chunks a = []" "an_chunk_size a > 0" "\<not> rc_completed c"
  shows "annex_transfer (rc_wire c) (rc_released c) a = (Tr_Continue, rc_wire c, a) \<and>
    (thread_step ^^ n) c = c \<and> \<not> rc_completed ((thread_step ^^ n) c)"
proof -
  have t: "annex_transfer (rc_wire c) (rc_released c) a = (Tr_Continue, rc_wire c, a)"
    using assms by (simp add: annex_transfer_def annex_exhausted_def)
  then have "thread_step c = c\<lparr>rc_wire := rc_wire c, rc_queue := rc_queue c\<rparr>"
    using assms(1-3) by (simp add: thread_step_def)
  then have "thread_step c = c" by simp
  then have "(thread_step ^^ n) c = c" by (induction n) simp_all
  with t assms(7) show ?thesis by simp
qed

definition unfinished_run :: "container rc_state" where
  "unfinished_run = rc_run container_ops (new_container (attach_buffer 1 8 (replicate 8 0) new_resultset_wire) 8)
     [Put [1, 2], Publish, Put [3, 4, 5]]"

theorem released_unfinished_spins_witness:
  "\<exists>a. annex_transfer (rc_wire (rc_channel unfinished_run)) True a =
      (Tr_Continue, rc_wire (rc_channel unfinished_run), a) \<and>
    (thread_step ^^ 1000) (container_release (rc_channel unfinished_run)) =
      container_release (rc_channel unfinished_run)"
proof -
  define c where "c = container_release (rc_channel unfinished_run)"
  define a where "a = hd (rc_queue (rc_channel unfinished_run))"
  have inv: "thread_invoked (rc_channel unfinished_run)" by code_simp
  have "thread_active (rc_channel unfinished_run)" "rc_queue (rc_channel unfinished_run) = [a]"
    "\<not> an_full a" "an_chunks a = []" "an_chunk_size a > 0" "\<not> rc_completed (rc_channel unfinished_run)"
    unfolding a_def by code_simp+
  then have "annex_transfer (rc_wire c) (rc_released c) a = (Tr_Continue, rc_wire c, a) \<and>
      (thread_step ^^ 1000) c = c \<and> \<not> rc_completed ((thread_step ^^ 1000) c)"
    using inv by (intro released_unfinished_spins) (simp_all add: c_def container_release_def)
  then show ?thesis
    using inv by (intro exI [of _ a]) (simp add: c_def container_release_def)
qed

end
