(* ===== verification/Resultset_Wires.thy ===== *)
theory Resultset_Wires
  imports Resultset_Wire "HOL-Library.Multiset"
begin

text \<open>
  The wires of a result set, \<^verbatim>\<open>unidirectional_simple_wires\<close> of \<^verbatim>\<open>endpoint/ipc/wire.h\<close>: one wire
  for each writer, with a buffer that is allocated in the shared memory when the writer comes and
  kept in reserve or freed when it goes; the choice of a wire with a record; and the marks for
  the end of the records and for a client that has closed the result set. The allocator of the
  shared memory is a parameter: an operation is given the handle of the buffer it would return.
\<close>

section \<open>Operations\<close>

record resultset_wires =
  rw_wires :: "resultset_wire list"
  rw_buffer_size :: u64
  reserved :: "u64 option"
  count_using :: nat
  next_index :: nat
  only_one_buffer :: bool
  rw_eor :: bool
  rw_closed :: bool

definition new_resultset_wires :: "nat \<Rightarrow> u64 \<Rightarrow> u64 option \<Rightarrow> resultset_wires result" where
  "new_resultset_wires n bsize alloc = (case alloc of
     None \<Rightarrow> Inl (Runtime_Error ''cannot allocate shared memory'')
   | Some h \<Rightarrow> Inr \<lparr>rw_wires = replicate n new_resultset_wire, rw_buffer_size = bsize, reserved = Some h,
       count_using = 0, next_index = 0, only_one_buffer = False, rw_eor = False, rw_closed = False\<rparr>)"

text \<open>The first wire without a buffer among some; an index out of range ends the program, as both
searches are \<^verbatim>\<open>noexcept\<close>.\<close>

fun first_free :: "nat list \<Rightarrow> resultset_wire list \<Rightarrow> nat result" where
  "first_free [] ws = Inl Std_Abort"
| "first_free (i # is) ws =
     (if i \<ge> length ws then Inl Std_Abort
      else if rs_equal 0 (ws ! i) then Inr i
      else first_free is ws)"

definition search_free_wire :: "resultset_wires \<Rightarrow> nat result \<times> resultset_wires" where
  "search_free_wire r =
     (if count_using r = next_index r
      then (Inr (next_index r), r\<lparr>count_using := Suc (count_using r), next_index := Suc (next_index r)\<rparr>)
      else (case first_free [0..<next_index r] (rw_wires r) of
        Inr i \<Rightarrow> (Inr i, r\<lparr>count_using := Suc (count_using r)\<rparr>)
      | Inl e \<Rightarrow> (Inl e, r)))"

definition attach_at :: "(u64 \<Rightarrow> bytes) \<Rightarrow> nat \<Rightarrow> u64 \<Rightarrow> resultset_wires \<Rightarrow> resultset_wires" where
  "attach_at mem i h r = r\<lparr>rw_wires := (rw_wires r)[i := attach_buffer h (rw_buffer_size r) (mem h) (rw_wires r ! i)]\<rparr>"

text \<open>
  \<^verbatim>\<open>acquire\<close>: the index of the wire, or the exception; what was changed before an exception
  stays changed. (Without a wire in use there is always a buffer in reserve.)
\<close>

definition rw_acquire :: "(u64 \<Rightarrow> bytes) \<Rightarrow> u64 option \<Rightarrow> resultset_wires \<Rightarrow> nat result \<times> resultset_wires" where
  "rw_acquire mem alloc r =
     (if count_using r = 0 then
        (let r = r\<lparr>count_using := 1, next_index := 1\<rparr> in
         if rw_wires r = [] then (Inl Out_Of_Range, r)
         else (case reserved r of
           None \<Rightarrow> (Inl Std_Abort, r)
         | Some h \<Rightarrow> (Inr 0, (attach_at mem 0 h r)\<lparr>reserved := None, only_one_buffer := True\<rparr>)))
      else (case (case reserved r of Some h \<Rightarrow> Some h | None \<Rightarrow> alloc) of
        None \<Rightarrow> (Inl (Runtime_Error ''cannot allocate shared memory''), r)
      | Some h \<Rightarrow>
          (case search_free_wire (r\<lparr>reserved := None\<rparr>) of
             (Inl e, r) \<Rightarrow> (Inl e, r)
           | (Inr i, r) \<Rightarrow>
               if i < length (rw_wires r)
               then (Inr i, (attach_at mem i h r)\<lparr>only_one_buffer := False\<rparr>)
               else (Inl Out_Of_Range, r))))"

definition search_wire :: "u64 \<Rightarrow> resultset_wires \<Rightarrow> nat option" where
  "search_wire h r = find (\<lambda>i. rs_equal h (rw_wires r ! i)) [0..<min (next_index r) (length (rw_wires r))]"

text \<open>\<^verbatim>\<open>release\<close> of the wire with an index: the buffer that is freed, if any.\<close>

definition rw_release :: "nat \<Rightarrow> resultset_wires \<Rightarrow> u64 option result \<times> resultset_wires" where
  "rw_release w r =
     (let h = buffer_handle (rw_wires r ! w) in
      case search_wire h r of
        None \<Rightarrow> (Inl Std_Abort, r)
      | Some i \<Rightarrow>
          (let r = r\<lparr>rw_wires := (rw_wires r)[i := reset_handle (rw_wires r ! i)]\<rparr>;
               freed = (if reserved r = None then None else Some h);
               r = r\<lparr>reserved := (if reserved r = None then Some h else reserved r)\<rparr>
           in (Inr freed, r\<lparr>count_using := count_using r - 1\<rparr>)))"

definition record_wire :: "resultset_wires \<Rightarrow> nat option" where
  "record_wire r = find (\<lambda>i. has_record (rw_wires r ! i)) [0..<length (rw_wires r)]"

text \<open>
  \<^verbatim>\<open>active_wire\<close>: the wire with a record, no wire at the end of the records, or the exception of
  a wait that ran out; \<open>later\<close> are the wires at the last evaluation of the wait's predicate.
\<close>

definition active_wire :: "resultset_wires \<Rightarrow> resultset_wires \<Rightarrow> nat option result" where
  "active_wire later r = (case record_wire r of
     Some i \<Rightarrow> Inr (Some i)
   | None \<Rightarrow>
       if record_wire later = None \<and> \<not> rw_eor later
       then Inl (Runtime_Error ''record has not been received within the specified time'')
       else Inr (record_wire later))"

definition rw_set_closed :: "resultset_wires \<Rightarrow> resultset_wires" where
  "rw_set_closed r = r\<lparr>rw_wires := map rs_set_closed (rw_wires r), rw_closed := True\<rparr>"

definition rw_set_eor :: "resultset_wires \<Rightarrow> resultset_wires" where
  "rw_set_eor r = r\<lparr>rw_eor := True\<rparr>"

text \<open>The destructor: the buffers it frees.\<close>

definition rw_destroy :: "resultset_wires \<Rightarrow> u64 list" where
  "rw_destroy r = (case reserved r of Some h \<Rightarrow> [h] | None \<Rightarrow> []) @
     map buffer_handle (filter (\<lambda>w. \<not> rs_equal 0 w) (rw_wires r))"

section \<open>Exclusive buffers\<close>

definition used :: "resultset_wires \<Rightarrow> u64 list" where
  "used r = filter (\<lambda>h. h \<noteq> 0) (map buffer_handle (rw_wires r))"

definition fresh_buffer :: "u64 option \<Rightarrow> resultset_wires \<Rightarrow> bool" where
  "fresh_buffer alloc r \<longleftrightarrow> (\<forall>h. alloc = Some h \<longrightarrow> h \<noteq> 0 \<and> h \<notin> set (used r) \<and> reserved r \<noteq> Some h)"

definition wires_inv :: "resultset_wires \<Rightarrow> bool" where
  "wires_inv r \<longleftrightarrow> distinct (used r) \<and>
     (\<forall>h. reserved r = Some h \<longrightarrow> h \<noteq> 0 \<and> h \<notin> set (used r)) \<and>
     (count_using r = 0 \<longrightarrow> reserved r \<noteq> None) \<and>
     length (used r) \<le> count_using r \<and>
     (\<forall>i < length (rw_wires r). next_index r \<le> i \<longrightarrow> buffer_handle (rw_wires r ! i) = 0)"

lemma used_nil: "length (used r) = 0 \<longleftrightarrow> (\<forall>i < length (rw_wires r). buffer_handle (rw_wires r ! i) = 0)"
  by (auto simp: used_def filter_empty_conv all_set_conv_all_nth)

lemma used_attach:
  assumes "i < length (rw_wires r)" "buffer_handle (rw_wires r ! i) = 0" "h \<noteq> 0"
  shows "mset (used (attach_at mem i h r)) = add_mset h (mset (used r))"
proof -
  let ?hs = "map buffer_handle (rw_wires r)"
  have split: "?hs = take i ?hs @ 0 # drop (Suc i) ?hs"
    using assms(1,2) id_take_nth_drop [of i ?hs] by simp
  have "map buffer_handle (rw_wires (attach_at mem i h r)) = ?hs[i := h]"
    using assms(1) by (simp add: attach_at_def attach_buffer_def map_update)
  then have hs: "map buffer_handle (rw_wires (attach_at mem i h r)) = take i ?hs @ h # drop (Suc i) ?hs"
    using assms(1) by (simp add: upd_conv_take_nth_drop)
  have "used r = filter (\<lambda>h. h \<noteq> 0) (take i ?hs) @ filter (\<lambda>h. h \<noteq> 0) (drop (Suc i) ?hs)"
    unfolding used_def by (subst split) simp
  then show ?thesis
    unfolding used_def hs using assms(3) by simp
qed

lemma first_free_Inr:
  "first_free is ws = Inr i \<Longrightarrow> i \<in> set is \<and> i < length ws \<and> buffer_handle (ws ! i) = 0"
  by (induction "is") (auto simp: rs_equal_def split: if_splits)

lemma search_free_free:
  assumes "wires_inv r" "search_free_wire (r\<lparr>reserved := None\<rparr>) = (Inr i, r')" "i < length (rw_wires r)"
  shows "buffer_handle (rw_wires r ! i) = 0" "rw_wires r' = rw_wires r" "rw_buffer_size r' = rw_buffer_size r"
    "count_using r' = Suc (count_using r)" "next_index r \<le> next_index r'" "i < next_index r'" "reserved r' = None"
  using assms first_free_Inr [of "[0..<next_index r]" "rw_wires r" i]
  by (auto simp: search_free_wire_def wires_inv_def split: if_splits sum.splits)

text \<open>What a successful \<^verbatim>\<open>acquire\<close> does: it attaches a buffer nobody uses to a wire nobody uses.\<close>

lemma acquire_attaches:
  assumes "wires_inv r" "fresh_buffer alloc r" "rw_acquire mem alloc r = (Inr i, r')"
  obtains h where "i < length (rw_wires r)" "buffer_handle (rw_wires r ! i) = 0"
    "h \<noteq> 0" "h \<notin> set (used r)" "rw_wires r' = rw_wires (attach_at mem i h r)" "reserved r' = None"
    "count_using r' = Suc (count_using r)" "i < next_index r'"
    "\<forall>j < length (rw_wires r). next_index r' \<le> j \<longrightarrow> buffer_handle (rw_wires r ! j) = 0"
proof (cases "count_using r = 0")
  case True
  then have "used r = []"
    using assms(1) by (simp add: wires_inv_def)
  then have free: "\<forall>j < length (rw_wires r). buffer_handle (rw_wires r ! j) = 0"
    using used_nil [of r] by simp
  obtain h where h: "reserved r = Some h"
    using assms(1) True by (auto simp: wires_inv_def)
  have "i = 0" "rw_wires r \<noteq> []" and r': "r' = (attach_at mem 0 h (r\<lparr>count_using := 1, next_index := 1\<rparr>))
      \<lparr>reserved := None, only_one_buffer := True\<rparr>"
    using assms(3) True h by (auto simp: rw_acquire_def Let_def split: if_splits)
  then show thesis
    using assms(1) free h True by (intro that [of h]) (simp_all add: wires_inv_def attach_at_def)
next
  case False
  obtain h where h: "(case reserved r of Some h \<Rightarrow> Some h | None \<Rightarrow> alloc) = Some h"
    using assms(3) False by (cases "case reserved r of Some h \<Rightarrow> Some h | None \<Rightarrow> alloc")
      (auto simp: rw_acquire_def)
  then have fresh: "h \<noteq> 0" "h \<notin> set (used r)"
    using assms(1,2) by (auto simp: wires_inv_def fresh_buffer_def split: option.splits)
  obtain r1 where search: "search_free_wire (r\<lparr>reserved := None\<rparr>) = (Inr i, r1)" "i < length (rw_wires r1)"
    and r': "r' = (attach_at mem i h r1)\<lparr>only_one_buffer := False\<rparr>"
    using assms(3) False h by (auto simp: rw_acquire_def split: prod.splits sum.splits if_splits)
  have same: "rw_wires r1 = rw_wires r"
    using search(1) by (auto simp: search_free_wire_def split: if_splits sum.splits)
  note found = search_free_free [OF assms(1) search(1)]
  have i: "i < length (rw_wires r)"
    using search(2) same by simp
  have later: "buffer_handle (rw_wires r ! j) = 0" if "j < length (rw_wires r)" "next_index r1 \<le> j" for j
    using assms(1) that found(5) [OF i] by (simp add: wires_inv_def)
  show thesis
  proof (rule that [of h, OF i found(1) [OF i] fresh])
    show "rw_wires r' = rw_wires (attach_at mem i h r)"
      using found(3) [OF i] same r' by (simp add: attach_at_def)
    show "\<forall>j < length (rw_wires r). next_index r' \<le> j \<longrightarrow> buffer_handle (rw_wires r ! j) = 0"
      using later r' by (simp add: attach_at_def)
  qed (use found(4,6,7) [OF i] r' in \<open>simp_all add: attach_at_def\<close>)
qed

lemma used_cong: "rw_wires r' = rw_wires r \<Longrightarrow> used r' = used r"
  by (simp add: used_def)

lemma acquire_inv:
  assumes "wires_inv r" "fresh_buffer alloc r" "rw_acquire mem alloc r = (res, r')"
  shows "wires_inv r'"
proof (cases res)
  case (Inr i)
  then obtain h where a: "i < length (rw_wires r)" "buffer_handle (rw_wires r ! i) = 0"
    "h \<noteq> 0" "h \<notin> set (used r)" "rw_wires r' = rw_wires (attach_at mem i h r)" "reserved r' = None"
    "count_using r' = Suc (count_using r)" "i < next_index r'"
    "\<forall>j < length (rw_wires r). next_index r' \<le> j \<longrightarrow> buffer_handle (rw_wires r ! j) = 0"
    using acquire_attaches [OF assms(1,2)] assms(3) by blast
  have "mset (used r') = mset (h # used r)"
    using used_attach [OF a(1,2,3)] used_cong [OF a(5)] by simp
  then have "distinct (used r')" "length (used r') = Suc (length (used r))"
    using assms(1) a(4) mset_eq_imp_distinct_iff [of "used r'" "h # used r"] mset_eq_length [of "used r'" "h # used r"]
    by (simp_all add: wires_inv_def)
  moreover have "buffer_handle (rw_wires r' ! j) = 0" if "j < length (rw_wires r')" "next_index r' \<le> j" for j
    using a that by (simp add: attach_at_def nth_list_update)
  ultimately show ?thesis
    using assms(1) a(6,7) by (simp add: wires_inv_def)
next
  case (Inl e)
  have e: "rw_wires r' = rw_wires r" "count_using r \<le> count_using r'" "next_index r \<le> next_index r' \<or> used r = []"
    "reserved r' = reserved r \<or> reserved r' = None \<and> count_using r' > 0"
    using assms(1,3) Inl
    by (auto simp: rw_acquire_def search_free_wire_def wires_inv_def Let_def
      split: if_splits option.splits sum.splits prod.splits)
  have same: "used r' = used r"
    by (rule used_cong [OF e(1)])
  have "h \<noteq> 0 \<and> h \<notin> set (used r')" if "reserved r' = Some h" for h
    using that e(4) assms(1) by (simp add: wires_inv_def same)
  moreover have "buffer_handle (rw_wires r' ! i) = 0" if "i < length (rw_wires r')" "next_index r' \<le> i" for i
    using that e(1,3) assms(1) used_nil [of r] by (auto simp: wires_inv_def)
  moreover have "count_using r' = 0 \<longrightarrow> reserved r' \<noteq> None"
    using e(2,4) assms(1) by (auto simp: wires_inv_def)
  ultimately show ?thesis
    using assms(1) e(2) by (simp add: wires_inv_def same)
qed

lemma distinct_nonzero_nth:
  assumes "distinct (filter (\<lambda>h. h \<noteq> 0) hs)" "i < length hs" "j < length hs" "hs ! i = hs ! j" "hs ! i \<noteq> (0 :: u64)"
  shows "i = j"
  using assms
proof (induction hs arbitrary: i j)
  case (Cons x hs)
  then show ?case
    by (cases i; cases j) (auto split: if_splits)
qed simp

lemma search_wire_self:
  assumes "wires_inv r" "i < length (rw_wires r)" "buffer_handle (rw_wires r ! i) \<noteq> 0"
  shows "search_wire (buffer_handle (rw_wires r ! i)) r = Some i"
proof -
  have range: "i < next_index r"
    using assms(1-3) by (auto simp: wires_inv_def not_less [symmetric])
  have before: "buffer_handle (rw_wires r ! i) \<noteq> buffer_handle (rw_wires r ! j)" if "j < i" for j
    using distinct_nonzero_nth [of "map buffer_handle (rw_wires r)" i j] that assms(1-3)
    by (auto simp: wires_inv_def used_def)
  show ?thesis
    unfolding search_wire_def rs_equal_def find_Some_iff
    using range before assms(2) by (intro exI [of _ i]) simp
qed

lemma used_reset:
  assumes "i < length (rw_wires r)" "buffer_handle (rw_wires r ! i) \<noteq> 0"
  shows "mset (used r) = add_mset (buffer_handle (rw_wires r ! i))
    (mset (used (r\<lparr>rw_wires := (rw_wires r)[i := reset_handle (rw_wires r ! i)]\<rparr>)))"
proof -
  let ?hs = "map buffer_handle (rw_wires r)" and ?h = "buffer_handle (rw_wires r ! i)"
  have split: "?hs = take i ?hs @ ?h # drop (Suc i) ?hs"
    using assms(1) id_take_nth_drop [of i ?hs] by simp
  have "map buffer_handle ((rw_wires r)[i := reset_handle (rw_wires r ! i)]) = take i ?hs @ 0 # drop (Suc i) ?hs"
    using assms(1) by (simp add: reset_handle_def map_update upd_conv_take_nth_drop take_map drop_map)
  then have "used (r\<lparr>rw_wires := (rw_wires r)[i := reset_handle (rw_wires r ! i)]\<rparr>) =
      filter (\<lambda>h. h \<noteq> 0) (take i ?hs) @ filter (\<lambda>h. h \<noteq> 0) (drop (Suc i) ?hs)"
    by (simp add: used_def)
  moreover have "used r = filter (\<lambda>h. h \<noteq> 0) (take i ?hs) @ ?h # filter (\<lambda>h. h \<noteq> 0) (drop (Suc i) ?hs)"
    unfolding used_def using assms(2) by (subst split) simp
  ultimately show ?thesis by simp
qed

lemma release_inv:
  assumes "wires_inv r" "i < length (rw_wires r)" "buffer_handle (rw_wires r ! i) \<noteq> 0"
    "rw_release i r = (res, r')"
  shows "wires_inv r'"
proof -
  let ?h = "buffer_handle (rw_wires r ! i)"
  let ?r = "r\<lparr>rw_wires := (rw_wires r)[i := reset_handle (rw_wires r ! i)]\<rparr>"
  have r': "r' = ?r\<lparr>reserved := (if reserved r = None then Some ?h else reserved r), count_using := count_using r - 1\<rparr>"
    using assms(4) search_wire_self [OF assms(1-3)] by (auto simp: rw_release_def Let_def)
  have used: "mset (used r) = mset (?h # used ?r)"
    using used_reset [OF assms(2,3)] by simp
  have facts: "distinct (?h # used ?r)" "length (used r) = Suc (length (used ?r))" "set (used r) = insert ?h (set (used ?r))"
    using assms(1) mset_eq_imp_distinct_iff [OF used] mset_eq_length [OF used] mset_eq_setD [OF used]
    by (simp_all add: wires_inv_def)
  have same: "used r' = used ?r"
    by (rule used_cong) (simp add: r')
  have "x \<noteq> 0 \<and> x \<notin> set (used r')" if "reserved r' = Some x" for x
    using that assms(1,3) facts unfolding same by (auto simp: r' wires_inv_def split: if_splits)
  moreover have "buffer_handle (rw_wires r' ! j) = 0" if "j < length (rw_wires r')" "next_index r' \<le> j" for j
    using that assms(1) by (cases "j = i") (simp_all add: r' wires_inv_def reset_handle_def)
  moreover have "reserved r' \<noteq> None" "length (used r') \<le> count_using r'"
    using assms(1) facts(2) unfolding same by (auto simp: r' wires_inv_def)
  ultimately show ?thesis
    using facts(1) unfolding same wires_inv_def by simp
qed

text \<open>Writers come and go in any order; the allocator gives buffers that are not in use.\<close>

inductive wires_step :: "resultset_wires \<Rightarrow> resultset_wires \<Rightarrow> bool" where
  acquired: "fresh_buffer alloc r \<Longrightarrow> wires_step r (snd (rw_acquire mem alloc r))"
| released: "i < length (rw_wires r) \<Longrightarrow> buffer_handle (rw_wires r ! i) \<noteq> 0 \<Longrightarrow>
    wires_step r (snd (rw_release i r))"

lemma wires_step_inv: "wires_step r r' \<Longrightarrow> wires_inv r \<Longrightarrow> wires_inv r'"
  by (erule wires_step.cases) (metis acquire_inv release_inv prod.collapse)+

lemma new_wires_inv:
  assumes "new_resultset_wires n s (Some h) = Inr r" "h \<noteq> 0"
  shows "wires_inv r"
proof -
  have "buffer_handle new_resultset_wire = 0"
    by (simp add: new_resultset_wire_def new_simple_wire_def simple_wire.defs)
  then show ?thesis
    using assms by (auto simp: new_resultset_wires_def wires_inv_def used_def)
qed

text \<open>
  C15. A writer of a result set never shares: after any sequence of writers that come, are
  refused and go, the wire a new writer gets was in use by nobody, its buffer belongs to no other
  wire, and the other wires are as they were.
\<close>

theorem writers_exclusive:
  assumes "new_resultset_wires n s (Some h) = Inr new" "h \<noteq> 0" "wires_step\<^sup>*\<^sup>* new r"
    "fresh_buffer alloc r" "rw_acquire mem alloc r = (Inr i, r')"
  shows "i < length (rw_wires r) \<and> buffer_handle (rw_wires r ! i) = 0 \<and> buffer_handle (rw_wires r' ! i) \<noteq> 0 \<and>
    (\<forall>j < length (rw_wires r). j \<noteq> i \<longrightarrow> rw_wires r' ! j = rw_wires r ! j \<and>
      buffer_handle (rw_wires r' ! j) \<noteq> buffer_handle (rw_wires r' ! i))"
proof -
  have inv: "wires_inv r"
    using assms(3) new_wires_inv [OF assms(1,2)] by (induction rule: rtranclp_induct) (auto intro: wires_step_inv)
  obtain x where a: "i < length (rw_wires r)" "buffer_handle (rw_wires r ! i) = 0"
    "x \<noteq> 0" "x \<notin> set (used r)" "rw_wires r' = rw_wires (attach_at mem i x r)"
    using acquire_attaches [OF inv assms(4,5)] by blast
  have "buffer_handle (rw_wires r ! j) \<noteq> x" if "j < length (rw_wires r)" for j
    using a(3,4) that by (auto simp: used_def)
  then show ?thesis
    using a by (simp add: attach_at_def attach_buffer_def)
qed

theorem writers_exclusive_witness:
  "\<exists>new r r'. new_resultset_wires 2 64 (Some 8) = Inr new \<and> rw_acquire (\<lambda>_. []) None new = (Inr 0, r) \<and>
    rw_acquire (\<lambda>_. []) (Some 16) r = (Inr 1, r') \<and> buffer_handle (rw_wires r' ! 0) \<noteq> buffer_handle (rw_wires r' ! 1)"
proof -
  obtain new where new: "new_resultset_wires 2 64 (Some 8) = Inr new"
    by (simp add: new_resultset_wires_def)
  let ?r = "snd (rw_acquire (\<lambda>_. []) None new)"
  have one: "rw_acquire (\<lambda>_. []) None new = (Inr 0, ?r)"
    using new by (auto simp: new_resultset_wires_def rw_acquire_def)
  let ?r' = "snd (rw_acquire (\<lambda>_. []) (Some 16) ?r)"
  have two: "rw_acquire (\<lambda>_. []) (Some 16) ?r = (Inr 1, ?r')"
    using new by (auto simp: new_resultset_wires_def rw_acquire_def attach_at_def search_free_wire_def)
  have two_wires: "replicate 2 w = [w, w]" for w :: resultset_wire
    by (simp add: numeral_2_eq_2)
  have fresh: "fresh_buffer (Some 16) ?r" "length (rw_wires ?r) = 2"
    using new by (auto simp: two_wires new_resultset_wires_def rw_acquire_def attach_at_def fresh_buffer_def used_def
      attach_buffer_def new_resultset_wire_def new_simple_wire_def simple_wire.defs)
  have run: "wires_step\<^sup>*\<^sup>* new ?r"
    by (intro r_into_rtranclp acquired) (simp add: fresh_buffer_def)
  have "buffer_handle (rw_wires ?r' ! 0) \<noteq> buffer_handle (rw_wires ?r' ! 1)"
    using writers_exclusive [OF new _ run fresh(1) two, THEN conjunct2, THEN conjunct2, THEN conjunct2,
      rule_format, of 0, THEN conjunct2] fresh(2) by simp
  with new one two show ?thesis
    by blast
qed

end
