(* ===== verification/Connection_Queue.thy ===== *)
theory Connection_Queue
  imports Ring_Buffer "HOL-Library.Multiset"
begin

text \<open>
  The connection queue of the IPC endpoint (\<^verbatim>\<open>connection_queue\<close> of \<^verbatim>\<open>ipc/wire.h\<close>), by
  which clients ask for a session and the listener accepts or rejects them: the two
  \<^verbatim>\<open>index_queue\<close>s of slots, the \<^verbatim>\<open>element\<close> in which a client waits for its session id, and
  the operations of clients, listener and sessions on them. An operation runs under the
  mutex of the queue it changes, so each is one function; a wait on a condition variable is a
  function of what the wait ended with.
\<close>

section \<open>Queues of slots\<close>

record index_queue =
  iq_queue :: "u64 list"
  iq_capacity :: u32
  admin_slots_in_use :: u8
  iq_pushed :: u64
  iq_poped :: u64

definition admin_bit :: u64 where
  "admin_bit = push_bit 63 1"

definition set_admin :: "u64 \<Rightarrow> u64" where
  "set_admin sl = sl OR admin_bit"

definition reset_admin :: "u64 \<Rightarrow> u64" where
  "reset_admin sl = sl AND NOT admin_bit"

definition is_admin :: "u64 \<Rightarrow> bool" where
  "is_admin sl = (sl AND admin_bit \<noteq> 0)"

definition new_index_queue :: "u64 \<Rightarrow> index_queue" where
  "new_index_queue sz = (let cap = ucast sz in
     \<lparr>iq_queue = replicate (unat cap) 0, iq_capacity = cap, admin_slots_in_use = 0,
      iq_pushed = 0, iq_poped = 0\<rparr>)"

definition iq_fill :: "index_queue \<Rightarrow> u8 \<Rightarrow> index_queue" where
  "iq_fill q admin_slots = q\<lparr>iq_queue := map of_nat [0..<unat (iq_capacity q)],
     iq_pushed := ucast (iq_capacity q - ucast admin_slots)\<rparr>"

definition iq_index :: "index_queue \<Rightarrow> u64 \<Rightarrow> u64" where
  "iq_index q n = n mod ucast (iq_capacity q)"

definition iq_push :: "index_queue \<Rightarrow> u64 \<Rightarrow> u64 \<Rightarrow> index_queue result" where
  "iq_push q sid admin_slots =
     (let i = unat (iq_index q (iq_pushed q + admin_slots)) in
      if admin_slots > 0 \<and> is_admin sid
      then bind_result (update_checked (iq_queue q) i (reset_admin sid)) (\<lambda>qs.
        Inr (q\<lparr>iq_queue := qs, admin_slots_in_use := admin_slots_in_use q - 1,
               iq_pushed := iq_pushed q + 1\<rparr>))
      else bind_result (update_checked (iq_queue q) i sid) (\<lambda>qs.
        Inr (q\<lparr>iq_queue := qs, iq_pushed := iq_pushed q + 1\<rparr>)))"

definition try_pop :: "index_queue \<Rightarrow> (u64 \<times> index_queue) result" where
  "try_pop q =
     (if iq_pushed q + ucast (admin_slots_in_use q) \<le> iq_poped q
      then Inl (Runtime_Error ''no request slot is available for normal request'')
      else bind_result (at_checked (iq_queue q) (unat (iq_index q (iq_poped q)))) (\<lambda>sid.
        Inr (sid, q\<lparr>iq_poped := iq_poped q + 1\<rparr>)))"

text \<open>
  The difference of the two 8-bit counts is an \<^verbatim>\<open>int\<close>, converted to 64 bits for the sum.
\<close>

definition try_pop_admin :: "index_queue \<Rightarrow> u8 \<Rightarrow> (u64 \<times> index_queue) result" where
  "try_pop_admin q admin_slots =
     (if iq_pushed q + word_of_int (uint admin_slots - uint (admin_slots_in_use q))
           \<le> iq_poped q
      then Inl (Runtime_Error ''no request slot is available for admin request'')
      else bind_result (at_checked (iq_queue q) (unat (iq_index q (iq_poped q)))) (\<lambda>sid.
        Inr (set_admin sid, q\<lparr>iq_poped := iq_poped q + 1,
          admin_slots_in_use := admin_slots_in_use q + 1\<rparr>)))"

definition iq_wait_over :: "index_queue \<Rightarrow> bool \<Rightarrow> bool" where
  "iq_wait_over q terminate \<longleftrightarrow> iq_pushed q > iq_poped q \<or> terminate"

definition iq_pop :: "index_queue \<Rightarrow> index_queue" where
  "iq_pop q = q\<lparr>iq_poped := iq_poped q + 1\<rparr>"

definition iq_front :: "index_queue \<Rightarrow> u64 result" where
  "iq_front q = at_checked (iq_queue q) (unat (iq_index q (iq_poped q)))"

definition iq_size :: "index_queue \<Rightarrow> u64" where
  "iq_size q = iq_pushed q - iq_poped q"

section \<open>The connection queue\<close>

text \<open>
  An \<^verbatim>\<open>element\<close> is its session id: 0 while no answer is there, \<^verbatim>\<open>UINT64_MAX\<close> after a
  rejection.
\<close>

type_synonym element = u64

definition session_id_indicating_error :: u64 where
  "session_id_indicating_error = - 1"

definition element_accept :: "u64 \<Rightarrow> element \<Rightarrow> element" where
  "element_accept session_id e = session_id"

definition element_reject :: "element \<Rightarrow> element" where
  "element_reject e = session_id_indicating_error"

definition element_check :: "element \<Rightarrow> bool" where
  "element_check e \<longleftrightarrow> e \<noteq> 0"

definition element_reuse :: "element \<Rightarrow> element" where
  "element_reuse e = 0"

text \<open>
  The client's wait, with the value of the element when the wait ends: without a timeout it
  only ends once there is an answer (\<open>None\<close> is a client that goes on waiting); with one it
  ends in an exception when there is no answer by then.
\<close>

definition element_wait :: "int \<Rightarrow> element \<Rightarrow> u64 result option" where
  "element_wait timeout e =
     (if element_check e then Some (Inr e)
      else if timeout \<le> 0 then None
      else Some (Inl (Runtime_Error
        ''connection response has not been accepted within the specified time'')))"

record connection_queue =
  q_free :: index_queue
  q_requested :: index_queue
  v_requested :: "element list"
  cq_terminate :: bool
  cq_admin_slots :: u8
  s_terminated :: nat
  cq_session_id :: u64

definition new_connection_queue :: "u64 \<Rightarrow> u8 \<Rightarrow> connection_queue" where
  "new_connection_queue n as_n =
     \<lparr>q_free = iq_fill (new_index_queue (n + ucast as_n)) as_n,
      q_requested = new_index_queue (n + ucast as_n),
      v_requested = replicate (unat (n + ucast as_n)) 0,
      cq_terminate = False, cq_admin_slots = as_n, s_terminated = 0, cq_session_id = 0\<rparr>"

definition cq_request :: "connection_queue \<Rightarrow> (u64 \<times> connection_queue) result" where
  "cq_request q = bind_result (try_pop (q_free q)) (\<lambda>(sid, f).
     bind_result (iq_push (q_requested q) sid 0) (\<lambda>r.
       Inr (sid, q\<lparr>q_free := f, q_requested := r\<rparr>)))"

definition cq_request_admin :: "connection_queue \<Rightarrow> (u64 \<times> connection_queue) result" where
  "cq_request_admin q = bind_result (try_pop_admin (q_free q) (cq_admin_slots q)) (\<lambda>(sid, f).
     bind_result (iq_push (q_requested q) sid 0) (\<lambda>r.
       Inr (sid, q\<lparr>q_free := f, q_requested := r\<rparr>)))"

definition cq_wait :: "connection_queue \<Rightarrow> u64 \<Rightarrow> int \<Rightarrow>
    (u64 result \<times> connection_queue) option result" where
  "cq_wait q sid timeout =
     (let i = unat (reset_admin sid) in
      bind_result (at_checked (v_requested q) i) (\<lambda>entry.
        Inr (map_option
          (\<lambda>rtnv. (rtnv, q\<lparr>v_requested := (v_requested q)[i := element_reuse entry]\<rparr>))
          (element_wait timeout entry))))"

definition cq_check :: "connection_queue \<Rightarrow> u64 \<Rightarrow> bool result" where
  "cq_check q sid = bind_result (at_checked (v_requested q) (unat (reset_admin sid)))
     (\<lambda>entry. Inr (element_check entry))"

definition cq_listen :: "connection_queue \<Rightarrow> u64 \<times> connection_queue" where
  "cq_listen q =
     (if iq_wait_over (q_requested q) (cq_terminate q)
      then (cq_session_id q + 1, q\<lparr>cq_session_id := cq_session_id q + 1\<rparr>)
      else (0, q))"

definition cq_slot :: "connection_queue \<Rightarrow> u64 result" where
  "cq_slot q = iq_front (q_requested q)"

definition cq_accept :: "connection_queue \<Rightarrow> u64 \<Rightarrow> u64 \<Rightarrow> connection_queue result" where
  "cq_accept q sid session_id =
     (let i = unat (reset_admin sid); q = q\<lparr>q_requested := iq_pop (q_requested q)\<rparr> in
      bind_result (at_checked (v_requested q) i) (\<lambda>entry.
        Inr (q\<lparr>v_requested := (v_requested q)[i := element_accept session_id entry]\<rparr>)))"

definition cq_disconnect :: "connection_queue \<Rightarrow> u64 \<Rightarrow> connection_queue result" where
  "cq_disconnect q sid =
     bind_result (iq_push (q_free q) sid (ucast (cq_admin_slots q))) (\<lambda>f.
       Inr (q\<lparr>q_free := f\<rparr>))"

definition cq_reject :: "connection_queue \<Rightarrow> u64 \<Rightarrow> connection_queue result" where
  "cq_reject q sid =
     (let i = unat (reset_admin sid); q = q\<lparr>q_requested := iq_pop (q_requested q)\<rparr> in
      bind_result (at_checked (v_requested q) i) (\<lambda>entry.
        let q = q\<lparr>v_requested := (v_requested q)[i := element_reject entry]\<rparr> in
        bind_result (iq_push (q_free q) sid (ucast (cq_admin_slots q))) (\<lambda>f.
          Inr (q\<lparr>q_free := f\<rparr>))))"

text \<open>
  A call of \<^verbatim>\<open>request_terminate\<close> sets the flag and then blocks until the listener has
  posted the semaphore.
\<close>

definition cq_request_terminate :: "connection_queue \<Rightarrow> connection_queue" where
  "cq_request_terminate q = q\<lparr>cq_terminate := True\<rparr>"

definition cq_terminate_returns :: "connection_queue \<Rightarrow> connection_queue option" where
  "cq_terminate_returns q =
     (if s_terminated q = 0 then None else Some (q\<lparr>s_terminated := s_terminated q - 1\<rparr>))"

definition cq_is_terminated :: "connection_queue \<Rightarrow> bool" where
  "cq_is_terminated q = cq_terminate q"

definition cq_confirm_terminated :: "connection_queue \<Rightarrow> connection_queue" where
  "cq_confirm_terminated q = q\<lparr>s_terminated := s_terminated q + 1\<rparr>"

definition cq_pending_requests :: "connection_queue \<Rightarrow> u64" where
  "cq_pending_requests q = iq_size (q_requested q)"

definition cq_session_id_accepted :: "connection_queue \<Rightarrow> u64" where
  "cq_session_id_accepted q = cq_session_id q"

section \<open>Clients, listener and sessions\<close>

text \<open>
  The steps on a connection queue, with the slots that are in use (\<open>used\<close>: requested and
  neither rejected nor disconnected yet) and those whose request waits for the listener
  (\<open>waiting\<close>, oldest first). Administrators keep to the number of admin slots: the step of an
  admin request has the guard that fewer admin slots are in use. The listener answers the slot
  at the front; a session disconnects once it was accepted.
\<close>

record connections =
  conn_queue :: connection_queue
  used :: "u64 list"
  waiting :: "u64 list"

inductive connection_step :: "connections \<Rightarrow> connections \<Rightarrow> bool" where
  normal_request: "cq_request (conn_queue c) = Inr (sid, q) \<Longrightarrow>
    connection_step c \<lparr>conn_queue = q, used = sid # used c, waiting = waiting c @ [sid]\<rparr>"
| admin_request: "admin_slots_in_use (q_free (conn_queue c)) < cq_admin_slots (conn_queue c) \<Longrightarrow>
    cq_request_admin (conn_queue c) = Inr (sid, q) \<Longrightarrow>
    connection_step c \<lparr>conn_queue = q, used = sid # used c, waiting = waiting c @ [sid]\<rparr>"
| accepted: "waiting c \<noteq> [] \<Longrightarrow> cq_listen (conn_queue c) = (session_id, q) \<Longrightarrow>
    cq_slot q = Inr sid \<Longrightarrow> cq_accept q sid session_id = Inr q' \<Longrightarrow>
    connection_step c (c\<lparr>conn_queue := q', waiting := tl (waiting c)\<rparr>)"
| rejected: "waiting c \<noteq> [] \<Longrightarrow> cq_listen (conn_queue c) = (session_id, q) \<Longrightarrow>
    cq_slot q = Inr sid \<Longrightarrow> cq_reject q sid = Inr q' \<Longrightarrow>
    connection_step c
      \<lparr>conn_queue = q', used = remove1 sid (used c), waiting = tl (waiting c)\<rparr>"
| disconnected: "sid \<in> set (used c) \<Longrightarrow> sid \<notin> set (waiting c) \<Longrightarrow>
    cq_disconnect (conn_queue c) sid = Inr q \<Longrightarrow>
    connection_step c (c\<lparr>conn_queue := q, used := remove1 sid (used c)\<rparr>)"
| answered: "cq_wait (conn_queue c) sid timeout = Inr (Some (answer, q)) \<Longrightarrow>
    connection_step c (c\<lparr>conn_queue := q\<rparr>)"

definition new_connections :: "u64 \<Rightarrow> u8 \<Rightarrow> connections" where
  "new_connections n as_n =
     \<lparr>conn_queue = new_connection_queue n as_n, used = [], waiting = []\<rparr>"

section \<open>Slot numbers and the admin bit\<close>

lemma bit_admin_bit [simp]: "bit admin_bit n \<longleftrightarrow> n = 63"
proof -
  have "bit admin_bit n \<longleftrightarrow> n < 64 \<and> 63 \<le> n \<and> n - 63 = 0"
    unfolding admin_bit_def
    by (simp only: bit_push_bit_iff bit_1_iff possible_bit_word) auto
  then show ?thesis by auto
qed

lemma is_admin_bit: "is_admin sl \<longleftrightarrow> bit sl 63"
proof -
  have "sl AND admin_bit = (if bit sl 63 then admin_bit else 0)"
    by (rule bit_word_eqI) (auto simp: bit_simps)
  moreover have "admin_bit \<noteq> 0"
    by (simp add: admin_bit_def)
  ultimately show ?thesis
    by (simp add: is_admin_def)
qed

lemma is_admin_set_admin [simp]: "is_admin (set_admin sl)"
  by (simp add: is_admin_bit set_admin_def bit_simps)

lemma reset_admin_normal: "\<not> is_admin sl \<Longrightarrow> reset_admin sl = sl"
  by (rule bit_word_eqI) (auto simp: reset_admin_def is_admin_bit bit_simps)

lemma reset_set_admin: "\<not> is_admin sl \<Longrightarrow> reset_admin (set_admin sl) = sl"
  by (rule bit_word_eqI) (auto simp: reset_admin_def set_admin_def is_admin_bit bit_simps)

lemma small_not_admin:
  assumes "n < 2 ^ 32"
  shows "\<not> is_admin (of_nat n)"
proof -
  have "n div 2 ^ 63 = 0"
    using assms by (intro div_less) simp
  then have "\<not> bit n 63"
    by (simp only: bit_iff_odd) simp
  then show ?thesis
    by (simp add: is_admin_bit bit_simps)
qed

section \<open>Rings of single entries\<close>

lemma ring_view_snoc:
  assumes "n < length buf"
  shows "ring_view (buf[(p + n) mod length buf := x]) p (Suc n) = ring_view buf p n @ [x]"
proof (rule nth_equalityI)
  fix i
  assume "i < length (ring_view (buf[(p + n) mod length buf := x]) p (Suc n))"
  then have i: "i < Suc n" by simp
  have "(p + n) mod length buf < length buf"
    using assms by (intro mod_less_divisor) linarith
  moreover have "(p + i) mod length buf \<noteq> (p + n) mod length buf" if "i < n"
    using mod_add_inj [of p i "length buf" n] that assms by auto
  ultimately show "ring_view (buf[(p + n) mod length buf := x]) p (Suc n) ! i =
      (ring_view buf p n @ [x]) ! i"
    using i assms by (cases "i = n") (simp_all add: nth_append)
qed simp

lemma ring_view_Cons:
  "0 < n \<Longrightarrow> ring_view buf p n = buf ! (p mod length buf) # ring_view buf (Suc p) (n - 1)"
  using ring_view_split [of buf p 1 "n - 1"] by (simp add: ring_view_def)

lemma unat_add_u64: "unat x + unat y < 2 ^ 64 \<Longrightarrow> unat (x + y :: u64) = unat x + unat y"
  by (simp add: unat_word_ariths)

lemma unat_ucast_u32 [simp]: "unat (ucast (x :: u32) :: u64) = unat x"
  using unsigned_less [of x, where 'a = nat]
  by (simp add: unsigned_ucast_eq take_bit_nat_eq_self)

lemma unat_ucast_u8 [simp]: "unat (ucast (x :: u8) :: u64) = unat x"
  using unsigned_less [of x, where 'a = nat]
  by (simp add: unsigned_ucast_eq take_bit_nat_eq_self)

lemma unat_iq_index [simp]: "unat (iq_index q n) = unat n mod unat (iq_capacity q)"
  by (simp add: iq_index_def unat_mod_distrib)

lemma unat_Suc_u64: "unat x + 1 < 2 ^ 64 \<Longrightarrow> unat (x + 1 :: u64) = Suc (unat x)"
  using unat_add_u64 [of x 1] by simp

section \<open>The free slots\<close>

text \<open>
  What the queue of free slots and the slots in use are to each other, after at most \<open>k\<close>
  operations: together they are all the slots, each once; the counters tell how many are in
  use; sessions without the admin bit keep to their part of the slots.
\<close>

definition all_slots :: "nat \<Rightarrow> u64 list" where
  "all_slots cap = map of_nat [0..<cap]"

definition free_inv :: "nat \<Rightarrow> nat \<Rightarrow> index_queue \<Rightarrow> u64 list \<Rightarrow> bool" where
  "free_inv k a f us \<longleftrightarrow>
     length (iq_queue f) = unat (iq_capacity f) \<and>
     unat (admin_slots_in_use f) = length (filter is_admin us) \<and>
     length (filter is_admin us) \<le> a \<and>
     length (filter (\<lambda>s. \<not> is_admin s) us) + a \<le> unat (iq_capacity f) \<and>
     unat (iq_pushed f) + a + length us = unat (iq_poped f) + unat (iq_capacity f) \<and>
     unat (iq_pushed f) \<le> unat (iq_capacity f) + k \<and> unat (iq_poped f) \<le> k \<and>
     mset (ring_view (iq_queue f) (unat (iq_poped f)) (unat (iq_capacity f) - length us)) +
       mset (map reset_admin us) = mset (all_slots (unat (iq_capacity f)))"

lemma free_inv_length: "free_inv k a f us \<Longrightarrow> length us \<le> unat (iq_capacity f)"
  using sum_length_filter_compl [of is_admin us] by (auto simp: free_inv_def)

lemma free_inv_counters:
  "free_inv k a f us \<Longrightarrow> unat (iq_pushed f) + a + length us = unat (iq_poped f) + unat (iq_capacity f)"
  by (simp add: free_inv_def)

lemma capacity_bound: "unat (iq_capacity f) < 2 ^ 32"
  using unsigned_less [of "iq_capacity f"] by simp

lemma all_slots_normal:
  assumes "sl \<in> set (all_slots cap)" and "cap < 2 ^ 32"
  shows "\<not> is_admin sl"
proof -
  obtain i where i: "i < cap" and sl: "sl = of_nat i"
    using assms(1) by (auto simp: all_slots_def)
  show ?thesis
    unfolding sl by (rule small_not_admin) (rule less_trans [OF i assms(2)])
qed

lemma free_inv_slots:
  assumes "free_inv k a f us"
  shows "mset (ring_view (iq_queue f) (unat (iq_poped f)) (unat (iq_capacity f) - length us) @
    map reset_admin us) = mset (all_slots (unat (iq_capacity f)))"
  using assms unfolding free_inv_def mset_append by (elim conjE)

lemma free_slot_normal:
  assumes "free_inv k a f us"
    and "sl \<in> set (ring_view (iq_queue f) (unat (iq_poped f)) (unat (iq_capacity f) - length us))"
  shows "\<not> is_admin sl"
proof (rule all_slots_normal)
  show "sl \<in> set (all_slots (unat (iq_capacity f)))"
    using mset_eq_setD [OF free_inv_slots [OF assms(1)]] assms(2) by (simp only: set_append) blast
  show "unat (iq_capacity f) < 2 ^ 32"
    by (rule capacity_bound)
qed

lemma distinct_all_slots:
  assumes "cap < 2 ^ 32"
  shows "distinct (all_slots cap)"
  unfolding all_slots_def distinct_map
proof (intro conjI inj_onI distinct_upt)
  fix i j
  assume "i \<in> set [0..<cap]" and "j \<in> set [0..<cap]" and eq: "(of_nat i :: u64) = of_nat j"
  then have "i < 2 ^ 64" and "j < 2 ^ 64"
    using assms by auto
  then show "i = j"
    using eq unat_of_nat_u64 by metis
qed

lemma used_distinct:
  assumes "free_inv k a f us"
  shows "distinct (map reset_admin us)"
  using mset_eq_imp_distinct_iff [OF free_inv_slots [OF assms]]
    distinct_all_slots [OF capacity_bound [of f]] unfolding distinct_append by blast

lemma used_slot_bound:
  assumes "free_inv k a f us" and "sid \<in> set us"
  shows "unat (reset_admin sid) < unat (iq_capacity f)"
proof -
  have "reset_admin sid \<in> set (all_slots (unat (iq_capacity f)))"
    using mset_eq_setD [OF free_inv_slots [OF assms(1)]] assms(2)
    by (simp only: set_append set_map) blast
  then obtain i where i: "i < unat (iq_capacity f)" and sid: "reset_admin sid = of_nat i"
    by (auto simp: all_slots_def)
  have "i < 2 ^ 64"
    using i capacity_bound [of f] by simp
  then have "unat (reset_admin sid) = i"
    unfolding sid by (rule unat_of_nat_u64)
  then show ?thesis using i by simp
qed

lemma free_queue_Cons:
  assumes "free_inv k a f us" and "length us < unat (iq_capacity f)"
  shows "ring_view (iq_queue f) (unat (iq_poped f)) (unat (iq_capacity f) - length us) =
    iq_queue f ! (unat (iq_poped f) mod unat (iq_capacity f)) #
    ring_view (iq_queue f) (Suc (unat (iq_poped f))) (unat (iq_capacity f) - length us - 1)"
  using assms
    ring_view_Cons [of "unat (iq_capacity f) - length us" "iq_queue f" "unat (iq_poped f)"]
  by (simp add: free_inv_def)

lemma free_counters:
  assumes "free_inv k a f us" and "k < 2 ^ 63"
  shows "unat (iq_pushed f) < 2 ^ 63 + 2 ^ 32" and "unat (iq_poped f) < 2 ^ 63" and "a < 2 ^ 32"
  using assms capacity_bound [of f] by (auto simp: free_inv_def)

text \<open>
  A slot that is taken. The admin bit of the answer tells which of the two counts of sessions
  grows; everything else is the same for both kinds of request.
\<close>

lemma taken_slot:
  assumes inv: "free_inv k a f us" and k: "k < 2 ^ 63" and less: "length us < unat (iq_capacity f)"
  defines "sl \<equiv> iq_queue f ! (unat (iq_poped f) mod unat (iq_capacity f))"
  shows "at_checked (iq_queue f) (unat (iq_index f (iq_poped f))) = Inr sl"
    and "\<not> is_admin sl" and "unat (iq_poped f + 1) = Suc (unat (iq_poped f))"
    and "reset_admin sid = sl \<Longrightarrow> mset (ring_view (iq_queue f) (Suc (unat (iq_poped f)))
        (unat (iq_capacity f) - length (sid # us))) + mset (map reset_admin (sid # us)) =
      mset (all_slots (unat (iq_capacity f)))"
proof -
  note view = free_queue_Cons [OF inv less, folded sl_def]
  have "0 < unat (iq_capacity f)"
    using less by linarith
  then show "at_checked (iq_queue f) (unat (iq_index f (iq_poped f))) = Inr sl"
    using inv by (simp add: free_inv_def sl_def)
  show "\<not> is_admin sl"
    by (rule free_slot_normal [OF inv]) (simp only: view list.set insert_iff simp_thms)
  show "unat (iq_poped f + 1) = Suc (unat (iq_poped f))"
    using free_counters [OF inv k] by (simp add: unat_Suc_u64)
  show "mset (ring_view (iq_queue f) (Suc (unat (iq_poped f)))
        (unat (iq_capacity f) - length (sid # us))) + mset (map reset_admin (sid # us)) =
      mset (all_slots (unat (iq_capacity f)))" if "reset_admin sid = sl"
    using free_inv_slots [OF inv] that unfolding view by simp
qed

lemma try_pop_guard:
  assumes "free_inv k a f us" and "k < 2 ^ 63"
  shows "iq_pushed f + ucast (admin_slots_in_use f) \<le> iq_poped f \<longleftrightarrow>
    unat (iq_capacity f) \<le> length (filter (\<lambda>s. \<not> is_admin s) us) + a"
proof -
  have u: "unat (ucast (admin_slots_in_use f) :: u64) = length (filter is_admin us)"
    using assms(1) by (simp add: free_inv_def)
  have "unat (iq_pushed f + ucast (admin_slots_in_use f)) =
      unat (iq_pushed f) + length (filter is_admin us)"
    using unat_add_u64 [of "iq_pushed f" "ucast (admin_slots_in_use f)"] u
      free_counters [OF assms] assms(1) by (simp add: free_inv_def)
  then have "iq_pushed f + ucast (admin_slots_in_use f) \<le> iq_poped f \<longleftrightarrow>
      unat (iq_pushed f) + length (filter is_admin us) \<le> unat (iq_poped f)"
    by (simp add: word_le_nat_alt)
  then show ?thesis
    using assms(1) sum_length_filter_compl [of is_admin us] by (auto simp: free_inv_def)
qed

lemma try_pop_free:
  assumes inv: "free_inv k a f us" and k: "k < 2 ^ 63"
    and room: "length (filter (\<lambda>s. \<not> is_admin s) us) + a < unat (iq_capacity f)"
  obtains sid f' where "try_pop f = Inr (sid, f')" and "free_inv (Suc k) a f' (sid # us)"
    and "iq_capacity f' = iq_capacity f"
proof -
  have less: "length us < unat (iq_capacity f)"
    using inv room sum_length_filter_compl [of is_admin us] by (auto simp: free_inv_def)
  note slot = taken_slot [OF inv k less]
  let ?sid = "iq_queue f ! (unat (iq_poped f) mod unat (iq_capacity f))"
  have "try_pop f = Inr (?sid, f\<lparr>iq_poped := iq_poped f + 1\<rparr>)"
    using try_pop_guard [OF inv k] room slot(1)
    by (simp add: try_pop_def del: unat_iq_index at_checked_Inr)
  moreover have "free_inv (Suc k) a (f\<lparr>iq_poped := iq_poped f + 1\<rparr>) (?sid # us)"
    using inv room slot(2,3) slot(4) [of ?sid] reset_admin_normal [OF slot(2)]
    unfolding free_inv_def by simp
  ultimately show ?thesis
    by (rule that) simp
qed

lemma try_pop_admin_guard:
  assumes "free_inv k (unat A) f us" and "k < 2 ^ 63"
  shows "iq_pushed f + word_of_int (uint A - uint (admin_slots_in_use f)) \<le> iq_poped f \<longleftrightarrow>
    unat (iq_capacity f) \<le> length us + length (filter is_admin us)"
proof -
  have u: "unat (admin_slots_in_use f) = length (filter is_admin us)"
    and le: "length (filter is_admin us) \<le> unat A"
    using assms(1) by (simp_all add: free_inv_def)
  have "uint A - uint (admin_slots_in_use f) = int (unat A - length (filter is_admin us))"
    using u [symmetric] le by (simp add: of_nat_diff)
  then have "word_of_int (uint A - uint (admin_slots_in_use f)) =
      (of_nat (unat A - length (filter is_admin us)) :: u64)"
    by (simp only: of_int_of_nat_eq)
  moreover have "unat (of_nat (unat A - length (filter is_admin us)) :: u64) =
      unat A - length (filter is_admin us)"
    by (rule unat_of_nat_u64) (use free_counters(3) [OF assms] in simp)
  ultimately have "unat (iq_pushed f + word_of_int (uint A - uint (admin_slots_in_use f))) =
      unat (iq_pushed f) + (unat A - length (filter is_admin us))"
    using unat_add_u64 [of "iq_pushed f" "of_nat (unat A - length (filter is_admin us))"]
      free_counters [OF assms] by simp
  then have "iq_pushed f + word_of_int (uint A - uint (admin_slots_in_use f)) \<le> iq_poped f \<longleftrightarrow>
      unat (iq_pushed f) + (unat A - length (filter is_admin us)) \<le> unat (iq_poped f)"
    by (simp add: word_le_nat_alt)
  then show ?thesis
    using assms(1) le by (auto simp: free_inv_def)
qed

lemma try_pop_admin_free:
  assumes inv: "free_inv k (unat A) f us" and k: "k < 2 ^ 63"
    and few: "admin_slots_in_use f < A"
    and room: "length us + length (filter is_admin us) < unat (iq_capacity f)"
  obtains sid f' where "try_pop_admin f A = Inr (sid, f')"
    and "free_inv (Suc k) (unat A) f' (sid # us)" and "iq_capacity f' = iq_capacity f"
proof -
  have less: "length us < unat (iq_capacity f)"
    using room by simp
  have lt: "length (filter is_admin us) < unat A" and
    u: "unat (admin_slots_in_use f) = length (filter is_admin us)"
    using inv few by (simp_all add: free_inv_def word_less_nat_alt)
  have "unat A < 2 ^ 8"
    using unsigned_less [of A, where 'a = nat] by simp
  then have u': "unat (admin_slots_in_use f + 1) = Suc (length (filter is_admin us))"
    using lt u by (simp add: unat_word_ariths)
  note slot = taken_slot [OF inv k less]
  let ?sl = "iq_queue f ! (unat (iq_poped f) mod unat (iq_capacity f))"
  let ?f = "f\<lparr>iq_poped := iq_poped f + 1, admin_slots_in_use := admin_slots_in_use f + 1\<rparr>"
  have "try_pop_admin f A = Inr (set_admin ?sl, ?f)"
    using try_pop_admin_guard [OF inv k] room slot(1)
    by (simp add: try_pop_admin_def del: unat_iq_index at_checked_Inr)
  moreover have "free_inv (Suc k) (unat A) ?f (set_admin ?sl # us)"
    using inv lt u' slot(2,3) slot(4) [of "set_admin ?sl"] reset_set_admin [OF slot(2)]
    unfolding free_inv_def by simp
  ultimately show ?thesis
    by (rule that) simp
qed

text \<open>A slot that is given back.\<close>

lemma length_filter_remove1:
  "x \<in> set xs \<Longrightarrow>
    length (filter P xs) = length (filter P (remove1 x xs)) + (if P x then 1 else 0)"
  by (induction xs) auto

lemma iq_push_free_eq:
  fixes A :: u8
  assumes inv: "free_inv k (unat A) f us" and k: "k < 2 ^ 63" and sid: "sid \<in> set us"
  shows "iq_push f sid (ucast A) = Inr (f\<lparr>
      iq_queue := (iq_queue f)[(unat (iq_poped f) + (unat (iq_capacity f) - length us)) mod
        unat (iq_capacity f) := reset_admin sid],
      admin_slots_in_use := admin_slots_in_use f - (if is_admin sid then 1 else 0),
      iq_pushed := iq_pushed f + 1\<rparr>)"
proof -
  have cap: "0 < unat (iq_capacity f)" "length us \<le> unat (iq_capacity f)"
    using free_inv_length [OF inv] sid by (auto intro: less_le_trans [OF length_pos_if_in_set])
  have A: "(ucast A :: u64) > 0" if "is_admin sid"
  proof -
    have "0 < length (filter is_admin us)"
      using sid that by (auto simp: filter_empty_conv)
    also have "\<dots> \<le> unat A"
      using inv by (simp add: free_inv_def)
    finally have "0 < unat A" .
    then show ?thesis
      by (simp only: word_less_nat_alt unat_ucast_u8 unat_0)
  qed
  have "unat (iq_pushed f + ucast A) = unat (iq_pushed f) + unat A"
    using unat_add_u64 [of "iq_pushed f" "ucast A"] free_counters [OF inv k] by simp
  also have "\<dots> = unat (iq_poped f) + (unat (iq_capacity f) - length us)"
    using free_inv_counters [OF inv] cap(2) by linarith
  finally have i: "unat (iq_index f (iq_pushed f + ucast A)) =
      (unat (iq_poped f) + (unat (iq_capacity f) - length us)) mod unat (iq_capacity f)" by simp
  have "length (iq_queue f) = unat (iq_capacity f)"
    using inv by (simp add: free_inv_def)
  then show ?thesis
    using A cap unfolding iq_push_def i Let_def
    by (auto simp: update_checked_def reset_admin_normal)
qed

lemma iq_push_free:
  fixes A :: u8
  assumes inv: "free_inv k (unat A) f us" and k: "k < 2 ^ 63" and sid: "sid \<in> set us"
  obtains f' where "iq_push f sid (ucast A) = Inr f'"
    and "free_inv (Suc k) (unat A) f' (remove1 sid us)" and "iq_capacity f' = iq_capacity f"
proof -
  define n where "n = unat (iq_capacity f) - length us"
  define q where "q = (iq_queue f)[(unat (iq_poped f) + n) mod unat (iq_capacity f) := reset_admin sid]"
  define u where "u = admin_slots_in_use f - (if is_admin sid then 1 else 0)"
  have us: "0 < length us" "length us \<le> unat (iq_capacity f)"
    and len: "length (iq_queue f) = unat (iq_capacity f)"
    using sid free_inv_length [OF inv] inv by (auto simp: free_inv_def intro: length_pos_if_in_set)
  then have n: "n < length (iq_queue f)" and
    n': "unat (iq_capacity f) - length (remove1 sid us) = Suc n"
    using sid unfolding n_def length_remove1 if_P [OF sid] by linarith+
  have "ring_view q (unat (iq_poped f)) (Suc n) =
      ring_view (iq_queue f) (unat (iq_poped f)) n @ [reset_admin sid]"
    using ring_view_snoc [OF n, of "unat (iq_poped f)" "reset_admin sid"] by (simp add: q_def len)
  moreover have "mset (map reset_admin us) =
      add_mset (reset_admin sid) (mset (map reset_admin (remove1 sid us)))"
    using sid by (simp flip: image_mset_add_mset)
  ultimately have slots: "mset (ring_view q (unat (iq_poped f)) (Suc n)) +
      mset (map reset_admin (remove1 sid us)) = mset (all_slots (unat (iq_capacity f)))"
    using free_inv_slots [OF inv, folded n_def] by simp
  have u: "unat u = length (filter is_admin (remove1 sid us))"
    using length_filter_remove1 [OF sid, of is_admin] inv
    by (auto simp: free_inv_def u_def unat_minus_one unat_gt_0 simp flip: unat_gt_0)
  have p: "unat (iq_pushed f + 1) = Suc (unat (iq_pushed f))"
    using free_counters [OF inv k] by (simp add: unat_Suc_u64)
  have lr: "length us = Suc (length (remove1 sid us))" and lq: "length q = unat (iq_capacity f)"
    using us(1) sid by (simp_all add: length_remove1 q_def len)
  have "free_inv (Suc k) (unat A) (f\<lparr>iq_queue := q, admin_slots_in_use := u,
      iq_pushed := iq_pushed f + 1\<rparr>) (remove1 sid us)"
    using inv u p slots lr n' lq length_filter_remove1 [OF sid, of is_admin]
      length_filter_remove1 [OF sid, of "\<lambda>s. \<not> is_admin s"]
    unfolding free_inv_def by simp
  then show ?thesis
    using iq_push_free_eq [OF inv k sid] that unfolding n_def [symmetric] q_def [symmetric] u_def [symmetric]
    by simp
qed
section \<open>The requests\<close>

definition request_inv :: "nat \<Rightarrow> index_queue \<Rightarrow> u64 list \<Rightarrow> bool" where
  "request_inv k r ws \<longleftrightarrow>
     length (iq_queue r) = unat (iq_capacity r) \<and> length ws \<le> unat (iq_capacity r) \<and>
     unat (iq_pushed r) = unat (iq_poped r) + length ws \<and> unat (iq_pushed r) \<le> k \<and>
     ring_view (iq_queue r) (unat (iq_poped r)) (length ws) = ws"

lemma iq_push_request:
  assumes inv: "request_inv k r ws" and k: "k < 2 ^ 63" and room: "length ws < unat (iq_capacity r)"
  obtains r' where "iq_push r sid 0 = Inr r'" and "request_inv (Suc k) r' (ws @ [sid])"
    and "iq_capacity r' = iq_capacity r"
proof -
  have len: "length (iq_queue r) = unat (iq_capacity r)"
    and p: "unat (iq_pushed r) = unat (iq_poped r) + length ws" "unat (iq_pushed r) < 2 ^ 63"
    using inv k by (auto simp: request_inv_def)
  let ?q = "(iq_queue r)[(unat (iq_poped r) + length ws) mod unat (iq_capacity r) := sid]"
  have "iq_push r sid 0 = Inr (r\<lparr>iq_queue := ?q, iq_pushed := iq_pushed r + 1\<rparr>)"
    using room len by (auto simp: iq_push_def update_checked_def p(1) less_imp_neq intro: gr0I)
  moreover have "ring_view ?q (unat (iq_poped r)) (Suc (length ws)) = ws @ [sid]"
    using ring_view_snoc [of "length ws" "iq_queue r" "unat (iq_poped r)" sid] inv room
    by (simp add: request_inv_def len)
  moreover have "unat (iq_pushed r + 1) = Suc (unat (iq_pushed r))"
    using p(2) by (simp add: unat_Suc_u64)
  ultimately show ?thesis
    using inv room
    by (intro that [of "r\<lparr>iq_queue := ?q, iq_pushed := iq_pushed r + 1\<rparr>"])
      (simp_all add: request_inv_def)
qed

lemma request_front:
  assumes inv: "request_inv k r (sid # ws)"
  shows "iq_front r = Inr sid" and "k < 2 ^ 63 \<Longrightarrow> request_inv k (iq_pop r) ws"
proof -
  have len: "length (iq_queue r) = unat (iq_capacity r)"
    and p: "unat (iq_pushed r) = unat (iq_poped r) + Suc (length ws)" "unat (iq_pushed r) \<le> k"
    and view: "sid = iq_queue r ! (unat (iq_poped r) mod unat (iq_capacity r))"
      "ring_view (iq_queue r) (Suc (unat (iq_poped r))) (length ws) = ws"
    using inv ring_view_Cons [of "Suc (length ws)" "iq_queue r" "unat (iq_poped r)"]
    by (auto simp: request_inv_def)
  have "0 < unat (iq_capacity r)"
    using inv by (simp add: request_inv_def)
  then show "iq_front r = Inr sid"
    using len view(1) by (simp add: iq_front_def)
  assume "k < 2 ^ 63"
  then have "unat (iq_poped r + 1) = Suc (unat (iq_poped r))"
    using p by (simp add: unat_Suc_u64)
  then show "request_inv k (iq_pop r) ws"
    using len p view(2) inv by (simp add: request_inv_def iq_pop_def)
qed

section \<open>Every step keeps the slots in order\<close>

definition connections_inv :: "nat \<Rightarrow> connections \<Rightarrow> bool" where
  "connections_inv k c \<longleftrightarrow> (let q = conn_queue c in
     free_inv k (unat (cq_admin_slots q)) (q_free q) (used c) \<and>
     request_inv k (q_requested q) (waiting c) \<and>
     iq_capacity (q_requested q) = iq_capacity (q_free q) \<and>
     length (v_requested q) = unat (iq_capacity (q_free q)) \<and>
     set (waiting c) \<subseteq> set (used c) \<and> distinct (waiting c))"

lemma free_inv_Suc: "free_inv k a f us \<Longrightarrow> free_inv (Suc k) a f us"
  by (simp add: free_inv_def)

lemma request_inv_Suc: "request_inv k r ws \<Longrightarrow> request_inv (Suc k) r ws"
  by (simp add: request_inv_def)

lemma connections_inv_used:
  assumes "connections_inv k c"
  shows "distinct (used c)"
    and "length (waiting c) \<le> length (used c)"
    and "length (used c) \<le> unat (iq_capacity (q_free (conn_queue c)))"
proof -
  have inv: "free_inv k (unat (cq_admin_slots (conn_queue c))) (q_free (conn_queue c)) (used c)"
    and ws: "set (waiting c) \<subseteq> set (used c)" "distinct (waiting c)"
    using assms by (simp_all add: connections_inv_def Let_def)
  show d: "distinct (used c)"
    using used_distinct [OF inv] by (simp add: distinct_map)
  show "length (waiting c) \<le> length (used c)"
    using card_mono [OF _ ws(1)] ws(2) d by (simp add: distinct_card)
  show "length (used c) \<le> unat (iq_capacity (q_free (conn_queue c)))"
    by (rule free_inv_length [OF inv])
qed

lemma new_slot_unused:
  assumes "free_inv k a f (sid # us)" and "set ws \<subseteq> set us"
  shows "sid \<notin> set ws"
  using used_distinct [OF assms(1)] assms(2) by auto

lemma connections_inv_request:
  assumes inv: "connections_inv k c" and k: "k < 2 ^ 63"
    and f: "free_inv (Suc k) (unat (cq_admin_slots (conn_queue c))) f (sid # used c)"
      "iq_capacity f = iq_capacity (q_free (conn_queue c))"
  obtains r where "iq_push (q_requested (conn_queue c)) sid 0 = Inr r"
    and "connections_inv (Suc k) \<lparr>conn_queue = (conn_queue c)\<lparr>q_free := f, q_requested := r\<rparr>,
      used = sid # used c, waiting = waiting c @ [sid]\<rparr>"
proof -
  have r: "request_inv k (q_requested (conn_queue c)) (waiting c)"
    and cap: "iq_capacity (q_requested (conn_queue c)) = iq_capacity (q_free (conn_queue c))"
    using inv by (simp_all add: connections_inv_def Let_def)
  have "length (waiting c) < unat (iq_capacity (q_requested (conn_queue c)))"
    using connections_inv_used [OF inv] free_inv_length [OF f(1)] f(2) cap by simp
  from iq_push_request [OF r k this, of sid] obtain r' where
    "iq_push (q_requested (conn_queue c)) sid 0 = Inr r'"
    "request_inv (Suc k) r' (waiting c @ [sid])" "iq_capacity r' = iq_capacity (q_free (conn_queue c))"
    using cap by metis
  moreover have "sid \<notin> set (waiting c)"
    using new_slot_unused [OF f(1)] inv by (simp add: connections_inv_def Let_def)
  ultimately show ?thesis
    using inv f by (intro that [of r']) (simp_all add: connections_inv_def Let_def subset_insertI2)
qed

lemma cq_listen_frame:
  assumes "cq_listen q = (session_id, q')"
  shows "q_free q' = q_free q" and "q_requested q' = q_requested q"
    and "v_requested q' = v_requested q" and "cq_admin_slots q' = cq_admin_slots q"
  using assms by (auto simp: cq_listen_def split: if_splits)

lemma connections_inv_front:
  assumes inv: "connections_inv k c" and k: "k < 2 ^ 63" and ws: "waiting c = sid # ws"
  shows "cq_slot (conn_queue c) = Inr sid"
    and "request_inv k (iq_pop (q_requested (conn_queue c))) ws"
    and "sid \<in> set (used c)" and "sid \<notin> set ws" and "set ws \<subseteq> set (used c)" and "distinct ws"
    and "unat (reset_admin sid) < length (v_requested (conn_queue c))"
proof -
  have r: "request_inv k (q_requested (conn_queue c)) (sid # ws)"
    using inv ws by (simp add: connections_inv_def Let_def)
  show "cq_slot (conn_queue c) = Inr sid" "request_inv k (iq_pop (q_requested (conn_queue c))) ws"
    using request_front [OF r] k by (simp_all add: cq_slot_def)
  show sid: "sid \<in> set (used c)" and "sid \<notin> set ws" "set ws \<subseteq> set (used c)" "distinct ws"
    using inv ws by (auto simp: connections_inv_def Let_def)
  show "unat (reset_admin sid) < length (v_requested (conn_queue c))"
    using inv used_slot_bound sid by (auto simp: connections_inv_def Let_def)
qed

lemma connections_inv_back:
  assumes inv: "connections_inv k c" and k: "k < 2 ^ 63" and sid: "sid \<in> set (used c)"
  obtains f where "iq_push (q_free (conn_queue c)) sid (ucast (cq_admin_slots (conn_queue c))) = Inr f"
    and "free_inv (Suc k) (unat (cq_admin_slots (conn_queue c))) f (remove1 sid (used c))"
    and "iq_capacity f = iq_capacity (q_free (conn_queue c))"
  using iq_push_free [OF _ k sid] inv by (metis connections_inv_def)

lemma connections_inv_free:
  "connections_inv k c \<Longrightarrow>
    free_inv k (unat (cq_admin_slots (conn_queue c))) (q_free (conn_queue c)) (used c)"
  by (simp add: connections_inv_def Let_def)

lemma normal_request_inv:
  assumes inv: "connections_inv k c" and k: "k < 2 ^ 63"
    and ok: "cq_request (conn_queue c) = Inr (sid, q)"
  shows "connections_inv (Suc k) \<lparr>conn_queue = q, used = sid # used c, waiting = waiting c @ [sid]\<rparr>"
proof -
  note free = connections_inv_free [OF inv]
  obtain f r where f: "try_pop (q_free (conn_queue c)) = Inr (sid, f)"
    and r: "iq_push (q_requested (conn_queue c)) sid 0 = Inr r"
    and q: "q = (conn_queue c)\<lparr>q_free := f, q_requested := r\<rparr>"
    using ok by (auto simp: cq_request_def bind_result_Inr_iff)
  have "\<not> iq_pushed (q_free (conn_queue c)) + ucast (admin_slots_in_use (q_free (conn_queue c))) \<le>
      iq_poped (q_free (conn_queue c))"
    using f by (simp add: try_pop_def split: if_splits)
  then have "length (filter (\<lambda>s. \<not> is_admin s) (used c)) + unat (cq_admin_slots (conn_queue c)) <
      unat (iq_capacity (q_free (conn_queue c)))"
    unfolding try_pop_guard [OF free k] by simp
  from try_pop_free [OF free k this] f
  have f': "free_inv (Suc k) (unat (cq_admin_slots (conn_queue c))) f (sid # used c)"
    "iq_capacity f = iq_capacity (q_free (conn_queue c))" by auto
  show ?thesis
    unfolding q by (rule connections_inv_request [OF inv k f']) (simp add: r)
qed

lemma admin_request_inv:
  assumes inv: "connections_inv k c" and k: "k < 2 ^ 63"
    and few: "admin_slots_in_use (q_free (conn_queue c)) < cq_admin_slots (conn_queue c)"
    and ok: "cq_request_admin (conn_queue c) = Inr (sid, q)"
  shows "connections_inv (Suc k) \<lparr>conn_queue = q, used = sid # used c, waiting = waiting c @ [sid]\<rparr>"
proof -
  note free = connections_inv_free [OF inv]
  obtain f r where f: "try_pop_admin (q_free (conn_queue c)) (cq_admin_slots (conn_queue c)) =
      Inr (sid, f)"
    and r: "iq_push (q_requested (conn_queue c)) sid 0 = Inr r"
    and q: "q = (conn_queue c)\<lparr>q_free := f, q_requested := r\<rparr>"
    using ok by (auto simp: cq_request_admin_def bind_result_Inr_iff)
  have "\<not> iq_pushed (q_free (conn_queue c)) + word_of_int (uint (cq_admin_slots (conn_queue c)) -
      uint (admin_slots_in_use (q_free (conn_queue c)))) \<le> iq_poped (q_free (conn_queue c))"
    using f by (simp add: try_pop_admin_def split: if_splits)
  then have "length (used c) + length (filter is_admin (used c)) <
      unat (iq_capacity (q_free (conn_queue c)))"
    unfolding try_pop_admin_guard [OF free k] by simp
  from try_pop_admin_free [OF free k few this] f
  have f': "free_inv (Suc k) (unat (cq_admin_slots (conn_queue c))) f (sid # used c)"
    "iq_capacity f = iq_capacity (q_free (conn_queue c))" by auto
  show ?thesis
    unfolding q by (rule connections_inv_request [OF inv k f']) (simp add: r)
qed

text \<open>
  The listener gets the oldest request at the front, and neither answer throws.
\<close>

lemma accepted_inv:
  assumes inv: "connections_inv k c" and k: "k < 2 ^ 63" and ws: "waiting c = sid # ws"
    and listen: "cq_listen (conn_queue c) = (session_id, q)"
  obtains q' where "cq_slot q = Inr sid" and "cq_accept q sid session_id = Inr q'"
    and "connections_inv (Suc k) (c\<lparr>conn_queue := q', waiting := ws\<rparr>)"
proof -
  note front = connections_inv_front [OF inv k ws] and frame = cq_listen_frame [OF listen]
  let ?q = "q\<lparr>q_requested := iq_pop (q_requested q),
    v_requested := (v_requested q)[unat (reset_admin sid) := session_id]\<rparr>"
  have "cq_slot q = Inr sid"
    using front(1) frame by (simp add: cq_slot_def)
  moreover have "cq_accept q sid session_id = Inr ?q"
    using front(7) frame by (simp add: cq_accept_def at_checked_def element_accept_def)
  moreover have "connections_inv (Suc k) (c\<lparr>conn_queue := ?q, waiting := ws\<rparr>)"
    using inv front frame free_inv_Suc [OF connections_inv_free [OF inv]]
      request_inv_Suc [OF front(2)]
    by (simp add: connections_inv_def Let_def iq_pop_def)
  ultimately show ?thesis by (rule that)
qed

lemma rejected_inv:
  assumes inv: "connections_inv k c" and k: "k < 2 ^ 63" and ws: "waiting c = sid # ws"
    and listen: "cq_listen (conn_queue c) = (session_id, q)"
  obtains q' where "cq_slot q = Inr sid" and "cq_reject q sid = Inr q'"
    and "connections_inv (Suc k)
      \<lparr>conn_queue = q', used = remove1 sid (used c), waiting = ws\<rparr>"
proof -
  note front = connections_inv_front [OF inv k ws] and frame = cq_listen_frame [OF listen]
  obtain f where
    f: "iq_push (q_free (conn_queue c)) sid (ucast (cq_admin_slots (conn_queue c))) = Inr f"
    "free_inv (Suc k) (unat (cq_admin_slots (conn_queue c))) f (remove1 sid (used c))"
    "iq_capacity f = iq_capacity (q_free (conn_queue c))"
    using connections_inv_back [OF inv k front(3)] by blast
  let ?q = "q\<lparr>q_free := f, q_requested := iq_pop (q_requested q),
    v_requested := (v_requested q)[unat (reset_admin sid) := session_id_indicating_error]\<rparr>"
  have "cq_slot q = Inr sid"
    using front(1) frame by (simp add: cq_slot_def)
  moreover have "cq_reject q sid = Inr ?q"
    using front(7) frame f(1)
    by (simp add: cq_reject_def at_checked_def element_reject_def Let_def)
  moreover have "set ws \<subseteq> set (remove1 sid (used c))"
    using front(4,5) connections_inv_used(1) [OF inv] by auto
  then have "connections_inv (Suc k) \<lparr>conn_queue = ?q, used = remove1 sid (used c), waiting = ws\<rparr>"
    using inv front(6) frame f(2,3) request_inv_Suc [OF front(2)]
    by (simp add: connections_inv_def Let_def iq_pop_def)
  ultimately show ?thesis by (rule that)
qed

lemma disconnected_inv:
  assumes inv: "connections_inv k c" and k: "k < 2 ^ 63"
    and sid: "sid \<in> set (used c)" "sid \<notin> set (waiting c)"
  obtains q where "cq_disconnect (conn_queue c) sid = Inr q"
    and "connections_inv (Suc k) (c\<lparr>conn_queue := q, used := remove1 sid (used c)\<rparr>)"
proof -
  obtain f where
    f: "iq_push (q_free (conn_queue c)) sid (ucast (cq_admin_slots (conn_queue c))) = Inr f"
    "free_inv (Suc k) (unat (cq_admin_slots (conn_queue c))) f (remove1 sid (used c))"
    "iq_capacity f = iq_capacity (q_free (conn_queue c))"
    using connections_inv_back [OF inv k sid(1)] by blast
  have "set (waiting c) \<subseteq> set (remove1 sid (used c))"
    using sid(2) inv connections_inv_used(1) [OF inv] by (auto simp: connections_inv_def Let_def)
  then have "connections_inv (Suc k)
      (c\<lparr>conn_queue := (conn_queue c)\<lparr>q_free := f\<rparr>, used := remove1 sid (used c)\<rparr>)"
    using inv f(2,3) by (simp add: connections_inv_def Let_def request_inv_Suc)
  then show ?thesis
    using f(1) by (intro that) (simp_all add: cq_disconnect_def)
qed

lemma answered_inv:
  assumes inv: "connections_inv k c" and ok: "cq_wait (conn_queue c) sid t = Inr (Some (answer, q))"
  shows "connections_inv (Suc k) (c\<lparr>conn_queue := q\<rparr>)"
proof -
  obtain vs where "q = (conn_queue c)\<lparr>v_requested := vs\<rparr>" "length vs = length (v_requested (conn_queue c))"
    using ok by (auto simp: cq_wait_def Let_def bind_result_Inr_iff)
  then show ?thesis
    using inv by (simp add: connections_inv_def Let_def free_inv_Suc request_inv_Suc)
qed

lemma connection_step_inv:
  assumes "connection_step c c'" and inv: "connections_inv k c" and k: "k < 2 ^ 63"
  shows "connections_inv (Suc k) c'"
  using assms(1)
proof cases
  case (normal_request sid q)
  then show ?thesis using normal_request_inv [OF inv k] by simp
next
  case (admin_request sid q)
  then show ?thesis using admin_request_inv [OF inv k] by simp
next
  case (accepted session_id q sid q')
  then obtain sid' ws where "waiting c = sid' # ws" by (cases "waiting c") auto
  from accepted_inv [OF inv k this accepted(3)] show ?thesis
    using accepted \<open>waiting c = sid' # ws\<close> by (metis Inr_inject list.sel(3))
next
  case (rejected session_id q sid q')
  then obtain sid' ws where "waiting c = sid' # ws" by (cases "waiting c") auto
  from rejected_inv [OF inv k this rejected(3)] show ?thesis
    using rejected \<open>waiting c = sid' # ws\<close> by (metis Inr_inject list.sel(3))
next
  case (disconnected sid q)
  then show ?thesis
    using disconnected_inv [OF inv k disconnected(2,3)] by (metis Inr_inject)
next
  case (answered sid timeout answer q)
  then show ?thesis using answered_inv [OF inv] by simp
qed

lemma ring_view_whole [simp]: "ring_view buf 0 (length buf) = buf"
  by (rule nth_equalityI) simp_all

lemma new_connections_inv:
  assumes "unat n + unat as_n < 2 ^ 32"
  shows "connections_inv 0 (new_connections n as_n)"
    and "unat (iq_capacity (q_free (conn_queue (new_connections n as_n)))) = unat n + unat as_n"
proof -
  let ?cap = "ucast (n + ucast as_n) :: u32"
  have s: "unat (n + ucast as_n) = unat n + unat as_n"
    using unat_add_u64 [of n "ucast as_n"] assms by simp
  have cap: "unat ?cap = unat n + unat as_n"
    using assms by (simp add: unsigned_ucast_eq s take_bit_nat_eq_self)
  have a: "unat (ucast as_n :: u32) = unat as_n"
    using assms by (simp add: unsigned_ucast_eq take_bit_nat_eq_self)
  have pushed: "unat (?cap - ucast as_n) = unat n"
    using unat_sub [of "ucast as_n" ?cap] by (simp add: a cap word_le_nat_alt)
  show "unat (iq_capacity (q_free (conn_queue (new_connections n as_n)))) = unat n + unat as_n"
    by (simp add: new_connections_def new_connection_queue_def iq_fill_def new_index_queue_def
        Let_def cap)
  define slots where "slots = all_slots (unat n + unat as_n)"
  have slots: "length slots = unat n + unat as_n" "ring_view slots 0 (unat n + unat as_n) = slots"
    using ring_view_whole [of slots] by (simp_all add: slots_def all_slots_def)
  have q: "new_connections n as_n = \<lparr>conn_queue =
      \<lparr>q_free = \<lparr>iq_queue = slots, iq_capacity = ?cap, admin_slots_in_use = 0,
          iq_pushed = ucast (?cap - ucast as_n), iq_poped = 0\<rparr>,
        q_requested = \<lparr>iq_queue = replicate (unat n + unat as_n) 0, iq_capacity = ?cap,
          admin_slots_in_use = 0, iq_pushed = 0, iq_poped = 0\<rparr>,
        v_requested = replicate (unat n + unat as_n) 0,
        cq_terminate = False, cq_admin_slots = as_n, s_terminated = 0, cq_session_id = 0\<rparr>,
      used = [], waiting = []\<rparr>"
    unfolding new_connections_def new_connection_queue_def iq_fill_def new_index_queue_def Let_def
      slots_def all_slots_def by (simp add: cap s)
  show "connections_inv 0 (new_connections n as_n)"
    unfolding q connections_inv_def free_inv_def request_inv_def Let_def
    using slots pushed by (simp add: cap flip: slots_def)
qed

text \<open>No operation changes the number of slots or of admin slots.\<close>

definition slot_counts :: "connection_queue \<Rightarrow> u32 \<times> u8" where
  "slot_counts q = (iq_capacity (q_free q), cq_admin_slots q)"

lemma capacity_frame:
  "iq_push f sid a = Inr f' \<Longrightarrow> iq_capacity f' = iq_capacity f"
  "try_pop f = Inr (sid, f') \<Longrightarrow> iq_capacity f' = iq_capacity f"
  "try_pop_admin f A = Inr (sid, f') \<Longrightarrow> iq_capacity f' = iq_capacity f"
  by (auto simp: iq_push_def try_pop_def try_pop_admin_def Let_def bind_result_Inr_iff
      split: if_splits)

lemma slot_counts_request:
  assumes "cq_request q = Inr (sid, q') \<or> cq_request_admin q = Inr (sid, q')"
  shows "slot_counts q' = slot_counts q"
proof -
  obtain f r where q': "q' = q\<lparr>q_free := f, q_requested := r\<rparr>"
    and f: "try_pop (q_free q) = Inr (sid, f) \<or> try_pop_admin (q_free q) (cq_admin_slots q) = Inr (sid, f)"
    using assms by (simp add: cq_request_def cq_request_admin_def bind_result_Inr_iff) blast
  have "iq_capacity f = iq_capacity (q_free q)"
    using f by (elim disjE capacity_frame)
  then show ?thesis
    by (simp add: q' slot_counts_def)
qed

lemma slot_counts_back:
  assumes "cq_reject q sid = Inr q' \<or> cq_disconnect q sid = Inr q'"
  shows "slot_counts q' = slot_counts q"
proof -
  have f: "iq_push (q_free q) sid (ucast (cq_admin_slots q)) = Inr (q_free q')"
    and q': "cq_admin_slots q' = cq_admin_slots q"
    using assms
    by (elim disjE; clarsimp simp: cq_reject_def cq_disconnect_def Let_def bind_result_Inr_iff)+
  show ?thesis
    using capacity_frame(1) [OF f] by (simp add: q' slot_counts_def)
qed

lemma slot_counts_frame:
  "cq_listen q = (session_id, q') \<Longrightarrow> slot_counts q' = slot_counts q"
  "cq_accept q sid session_id = Inr q' \<Longrightarrow> slot_counts q' = slot_counts q"
  "cq_wait q sid t = Inr (Some (answer, q')) \<Longrightarrow> slot_counts q' = slot_counts q"
  by (auto simp: slot_counts_def cq_listen_def cq_accept_def cq_wait_def Let_def
      bind_result_Inr_iff split: if_splits)

lemma connection_step_counts:
  assumes "connection_step c c'"
  shows "slot_counts (conn_queue c') = slot_counts (conn_queue c)"
  using assms
  by cases (auto dest!: slot_counts_frame slot_counts_request [OF disjI1]
      slot_counts_request [OF disjI2] slot_counts_back [OF disjI1] slot_counts_back [OF disjI2])

lemma connections_reach:
  assumes "(connection_step ^^ k) (new_connections n as_n) c" and "k < 2 ^ 63"
    and "unat n + unat as_n < 2 ^ 32"
  shows "connections_inv k c \<and> cq_admin_slots (conn_queue c) = as_n \<and>
    unat (iq_capacity (q_free (conn_queue c))) = unat n + unat as_n"
  using assms(1,2)
proof (induction k arbitrary: c)
  case 0
  then show ?case
    using new_connections_inv [OF assms(3)]
    by (auto simp: new_connections_def new_connection_queue_def)
next
  case (Suc k)
  then obtain c1 where c1: "(connection_step ^^ k) (new_connections n as_n) c1"
    and step: "connection_step c1 c" by auto
  have k: "k < 2 ^ 63" using Suc.prems(2) by simp
  have inv: "connections_inv k c1"
    using Suc.IH [OF c1 k] by simp
  show ?case
    using Suc.IH [OF c1 k] connection_step_inv [OF step inv k] connection_step_counts [OF step]
    by (simp add: slot_counts_def)
qed

lemma request_admitted:
  assumes inv: "connections_inv k c" and k: "k < 2 ^ 63"
  shows "(\<exists>r. cq_request (conn_queue c) = Inr r) \<longleftrightarrow>
    length (filter (\<lambda>s. \<not> is_admin s) (used c)) + unat (cq_admin_slots (conn_queue c)) <
      unat (iq_capacity (q_free (conn_queue c)))" (is "?ok \<longleftrightarrow> ?room")
proof
  note free = connections_inv_free [OF inv]
  assume ?ok
  then have "\<not> iq_pushed (q_free (conn_queue c)) +
      ucast (admin_slots_in_use (q_free (conn_queue c))) \<le> iq_poped (q_free (conn_queue c))"
    by (auto simp: cq_request_def try_pop_def bind_result_Inr_iff split: if_splits)
  then show ?room
    unfolding try_pop_guard [OF free k] by simp
next
  note free = connections_inv_free [OF inv]
  assume ?room
  then obtain sid f where f: "try_pop (q_free (conn_queue c)) = Inr (sid, f)"
    "free_inv (Suc k) (unat (cq_admin_slots (conn_queue c))) f (sid # used c)"
    "iq_capacity f = iq_capacity (q_free (conn_queue c))"
    using try_pop_free [OF free k] by blast
  from connections_inv_request [OF inv k f(2,3)]
  obtain r where "iq_push (q_requested (conn_queue c)) sid 0 = Inr r" by blast
  then show ?ok
    by (simp add: cq_request_def f(1))
qed

lemma admin_admitted:
  assumes inv: "connections_inv k c" and k: "k < 2 ^ 63"
  shows "(\<exists>r. try_pop_admin (q_free (conn_queue c)) (cq_admin_slots (conn_queue c)) = Inr r) \<longleftrightarrow>
    length (used c) + length (filter is_admin (used c)) <
      unat (iq_capacity (q_free (conn_queue c)))"
proof -
  note free = connections_inv_free [OF inv]
  show ?thesis
    using try_pop_admin_guard [OF free k] taken_slot(1) [OF free k]
    by (auto simp: try_pop_admin_def not_le simp del: at_checked_Inr unat_iq_index)
qed

section \<open>Requests only\<close>











section \<open>Properties\<close>

text \<open>A normal and an admin session on a queue of two and one slots.\<close>

definition two_sessions :: connections where
  "two_sessions = (let q1 = snd (projr (cq_request (new_connection_queue 2 1))) in
     \<lparr>conn_queue = snd (projr (cq_request_admin q1)), used = [set_admin 1, 0],
      waiting = [0, set_admin 1]\<rparr>)"

lemma two_requests:
  "(connection_step ^^ 2) (new_connections 2 1) two_sessions"
  "used two_sessions = [set_admin 1, 0]"
proof -
  let ?c0 = "new_connections 2 1" and ?q1 = "snd (projr (cq_request (new_connection_queue 2 1)))"
  let ?q2 = "snd (projr (cq_request_admin ?q1))"
  let ?c1 = "\<lparr>conn_queue = ?q1, used = 0 # used ?c0, waiting = waiting ?c0 @ [0]\<rparr>"
  have "cq_request (conn_queue ?c0) = Inr (0, ?q1)"
    by code_simp
  then have "connection_step ?c0 ?c1"
    by (rule normal_request)
  moreover have "admin_slots_in_use (q_free (conn_queue ?c1)) < cq_admin_slots (conn_queue ?c1)"
    "cq_request_admin (conn_queue ?c1) = Inr (set_admin 1, ?q2)"
    by code_simp+
  then have "connection_step ?c1
      \<lparr>conn_queue = ?q2, used = set_admin 1 # used ?c1, waiting = waiting ?c1 @ [set_admin 1]\<rparr>"
    by (rule admin_request)
  then have "connection_step ?c1 two_sessions"
    by (simp add: two_sessions_def new_connections_def Let_def)
  ultimately show "(connection_step ^^ 2) ?c0 two_sessions"
    unfolding numeral_2_eq_2 by auto
  show "used two_sessions = [set_admin 1, 0]"
    by (simp add: two_sessions_def Let_def)
qed

text \<open>
  C7. No slot is given to two sessions: as long as administrators keep to the number of admin
  slots, after any sequence of fewer than \<open>2 ^ 63\<close> requests, answers of the listener and
  disconnections, the slots in use are different from each other and inside the table of
  wires, the listener finds the oldest unanswered request at the front and can accept or
  reject it, and every accepted session can be disconnected; none of these throws.
\<close>

theorem slots_exclusive:
  assumes "(connection_step ^^ k) (new_connections n as_n) c" and "k < 2 ^ 63"
    and "unat n + unat as_n < 2 ^ 32"
  shows "distinct (map reset_admin (used c)) \<and>
    (\<forall>sid \<in> set (used c). unat (reset_admin sid) < unat n + unat as_n) \<and>
    (\<forall>sid \<in> set (used c) - set (waiting c). \<exists>q. cq_disconnect (conn_queue c) sid = Inr q) \<and>
    (\<forall>sid ws session_id q. waiting c = sid # ws \<and> cq_listen (conn_queue c) = (session_id, q) \<longrightarrow>
      cq_slot q = Inr sid \<and> (\<exists>q'. cq_accept q sid session_id = Inr q') \<and>
      (\<exists>q'. cq_reject q sid = Inr q'))"
proof -
  have inv: "connections_inv k c"
    and cap: "unat (iq_capacity (q_free (conn_queue c))) = unat n + unat as_n"
    using connections_reach [OF assms] by simp_all
  note free = connections_inv_free [OF inv]
  have "\<exists>q. cq_disconnect (conn_queue c) sid = Inr q" if "sid \<in> set (used c) - set (waiting c)" for sid
    using disconnected_inv [OF inv assms(2)] that by blast
  moreover have "cq_slot q = Inr sid \<and> (\<exists>q'. cq_accept q sid session_id = Inr q') \<and>
      (\<exists>q'. cq_reject q sid = Inr q')"
    if "waiting c = sid # ws" and "cq_listen (conn_queue c) = (session_id, q)" for sid ws session_id q
    using accepted_inv [OF inv assms(2) that] rejected_inv [OF inv assms(2) that] by metis
  ultimately show ?thesis
    using used_distinct [OF free] used_slot_bound [OF free] by (simp add: cap)
qed

theorem slots_exclusive_witness:
  "\<exists>c. (connection_step ^^ 2) (new_connections 2 1) c \<and> used c = [set_admin 1, 0] \<and>
    distinct (map reset_admin (used c))"
proof -
  note run = two_requests
  show ?thesis
    using run slots_exclusive [OF run(1)] by (intro exI [of _ two_sessions]) (simp add: run(2))
qed

text \<open>
  C21. Who is admitted, exactly. A normal request is refused exactly when \<^verbatim>\<open>n\<close> normal sessions
  are in use. An admin request, though, is refused exactly when the normal sessions together
  with \<^emph>\<open>twice\<close> the admin sessions reach \<^verbatim>\<open>n + as_n\<close>: when all normal slots are taken, only
  half of the admin slots (rounded up) can be used, and when they are not, an administrator
  gets a slot although all admin slots are in use.
\<close>

theorem admission:
  assumes "(connection_step ^^ k) (new_connections n as_n) c" and "k < 2 ^ 63"
    and "unat n + unat as_n < 2 ^ 32"
  shows "((\<exists>r. cq_request (conn_queue c) = Inr r) \<longleftrightarrow>
      length (filter (\<lambda>s. \<not> is_admin s) (used c)) < unat n) \<and>
    ((\<exists>r. try_pop_admin (q_free (conn_queue c)) (cq_admin_slots (conn_queue c)) = Inr r) \<longleftrightarrow>
      length (filter (\<lambda>s. \<not> is_admin s) (used c)) + 2 * length (filter is_admin (used c)) <
        unat n + unat as_n)"
proof -
  have inv: "connections_inv k c" and as: "cq_admin_slots (conn_queue c) = as_n"
    and cap: "unat (iq_capacity (q_free (conn_queue c))) = unat n + unat as_n"
    using connections_reach [OF assms] by simp_all
  show ?thesis
    using request_admitted [OF inv assms(2)] admin_admitted [OF inv assms(2)]
      sum_length_filter_compl [of is_admin "used c"] by (auto simp: as cap)
qed

theorem admission_witness:
  "(\<exists>r. cq_request (conn_queue two_sessions) = Inr r) \<and>
    \<not> (\<exists>r. try_pop_admin (q_free (conn_queue two_sessions))
      (cq_admin_slots (conn_queue two_sessions)) = Inr r)"
proof -
  have "\<not> is_admin 0"
    by code_simp
  then show ?thesis
    using admission [OF two_requests(1)] by (simp add: two_requests(2))
qed



end
