(* ===== verification/Session_Variables.thy ===== *)
theory Session_Variables
  imports Tateyama_Prelude
begin

text \<open>
  Session variables (\<^verbatim>\<open>session/variable_declaration_set.cpp\<close>, \<^verbatim>\<open>session/variable_set.cpp\<close>): the
  declarations of the server and the set of variables each session is created with. Shutdown
  requests to a session (\<^verbatim>\<open>session/context.cpp\<close>) are here too.
\<close>

section \<open>Variables and their declarations\<close>

datatype session_variable_type =
    Boolean_Type
  | Signed_Integer_Type
  | Unsigned_Integer_Type
  | String_Type

text \<open>\<^verbatim>\<open>std::variant<std::monostate, bool, std::int64_t, std::uint64_t, std::string>\<close>\<close>

datatype variable_value =
    Monostate
  | Bool_Value bool
  | Signed_Value int
  | Unsigned_Value u64
  | String_Value string

record variable_declaration =
  vd_name :: string
  vd_type :: session_variable_type
  vd_initial_value :: variable_value
  vd_description :: string

type_synonym variable_declaration_set = "variable_declaration list"

primrec vd_find :: "variable_declaration_set \<Rightarrow> string \<Rightarrow> variable_declaration option" where
  "vd_find [] name = None"
| "vd_find (e # es) name = (if vd_name e = name then Some e else vd_find es name)"

definition vd_declare ::
    "variable_declaration_set \<Rightarrow> variable_declaration \<Rightarrow> bool \<times> variable_declaration_set" where
  "vd_declare ds d = (if vd_find ds (vd_name d) \<noteq> None then (False, ds) else (True, ds @ [d]))"

definition enumerate_variable_names :: "variable_declaration_set \<Rightarrow> string list" where
  "enumerate_variable_names ds = map vd_name ds"

text \<open>\<^verbatim>\<open>std::map<std::string, std::pair<variable_type, value_type>>\<close>\<close>

type_synonym variable_set = "string \<rightharpoonup> session_variable_type \<times> variable_value"

text \<open>\<^verbatim>\<open>std::map::insert\<close> keeps an entry that is there.\<close>

definition map_insert :: "('k \<rightharpoonup> 'v) \<Rightarrow> 'k \<times> 'v \<Rightarrow> ('k \<rightharpoonup> 'v)" where
  "map_insert m e = (if m (fst e) \<noteq> None then m else m(fst e \<mapsto> snd e))"

definition new_variable_set ::
    "(string \<times> session_variable_type \<times> variable_value) list \<Rightarrow> variable_set" where
  "new_variable_set declarations = fold (\<lambda>e m. map_insert m e) declarations Map.empty"

definition make_variable_set :: "variable_declaration_set \<Rightarrow> variable_set" where
  "make_variable_set ds =
     new_variable_set (map (\<lambda>e. (vd_name e, vd_type e, vd_initial_value e)) ds)"

definition vs_exists :: "variable_set \<Rightarrow> string \<Rightarrow> bool" where
  "vs_exists vs name \<longleftrightarrow> vs name \<noteq> None"

definition vs_type :: "variable_set \<Rightarrow> string \<Rightarrow> session_variable_type option" where
  "vs_type vs name = map_option fst (vs name)"

definition vs_get :: "variable_set \<Rightarrow> string \<Rightarrow> variable_value" where
  "vs_get vs name = (case vs name of Some (t, v) \<Rightarrow> v | None \<Rightarrow> Monostate)"

definition vs_set :: "variable_set \<Rightarrow> string \<Rightarrow> variable_value \<Rightarrow> bool \<times> variable_set" where
  "vs_set vs name val = (case vs name of
     Some (t, v) \<Rightarrow> (True, vs(name \<mapsto> (t, val)))
   | None \<Rightarrow> (False, vs))"

section \<open>Shutdown requests\<close>

datatype shutdown_request_type = Shutdown_Nothing | Shutdown_Graceful | Shutdown_Forceful

definition shutdown_to_string :: "shutdown_request_type \<Rightarrow> string" where
  "shutdown_to_string t = (case t of
     Shutdown_Nothing \<Rightarrow> ''nothing''
   | Shutdown_Graceful \<Rightarrow> ''graceful''
   | Shutdown_Forceful \<Rightarrow> ''forceful'')"

text \<open>
  \<^verbatim>\<open>session_context::shutdown_request(type)\<close>: the answer and the request after it. The exchange
  is atomic; a caller that loses a race repeats with the value it lost to.
\<close>

definition request_shutdown ::
    "shutdown_request_type \<Rightarrow> shutdown_request_type \<Rightarrow> bool \<times> shutdown_request_type" where
  "request_shutdown t old =
     (if t = Shutdown_Nothing then (False, old)
      else if old = t \<or> old = Shutdown_Forceful then (False, old)
      else (True, t))"

text \<open>Kinds of requests are ordered by their strength.\<close>

definition shutdown_strength :: "shutdown_request_type \<Rightarrow> nat" where
  "shutdown_strength t = (case t of
     Shutdown_Nothing \<Rightarrow> 0 | Shutdown_Graceful \<Rightarrow> 1 | Shutdown_Forceful \<Rightarrow> 2)"

instantiation shutdown_request_type :: linorder
begin

definition less_eq_shutdown_request_type ::
    "shutdown_request_type \<Rightarrow> shutdown_request_type \<Rightarrow> bool" where
  "less_eq_shutdown_request_type a b \<longleftrightarrow> shutdown_strength a \<le> shutdown_strength b"

definition less_shutdown_request_type ::
    "shutdown_request_type \<Rightarrow> shutdown_request_type \<Rightarrow> bool" where
  "less_shutdown_request_type a b \<longleftrightarrow> shutdown_strength a < shutdown_strength b"

instance
proof
  fix x y z :: shutdown_request_type
  show "x < y \<longleftrightarrow> x \<le> y \<and> \<not> y \<le> x" and "x \<le> x" and "x \<le> y \<or> y \<le> x"
    and "x \<le> y \<Longrightarrow> y \<le> z \<Longrightarrow> x \<le> z"
    by (auto simp: less_eq_shutdown_request_type_def less_shutdown_request_type_def)
  show "x \<le> y \<Longrightarrow> y \<le> x \<Longrightarrow> x = y"
    by (auto simp: less_eq_shutdown_request_type_def shutdown_strength_def
        split: shutdown_request_type.splits)
qed

end

lemma request_shutdown_max:
  "snd (request_shutdown t old) = max t old"
  "fst (request_shutdown t old) \<longleftrightarrow> old < t"
  by (cases t; cases old;
      simp add: request_shutdown_def less_eq_shutdown_request_type_def max_def
        less_shutdown_request_type_def shutdown_strength_def)+

section \<open>Lemmas on variable sets\<close>

text \<open>A value is of a variable's type, or not set.\<close>

fun value_fits :: "session_variable_type \<Rightarrow> variable_value \<Rightarrow> bool" where
  "value_fits t Monostate = True"
| "value_fits t (Bool_Value b) = (t = Boolean_Type)"
| "value_fits t (Signed_Value i) = (t = Signed_Integer_Type \<and> - (2 ^ 63) \<le> i \<and> i < 2 ^ 63)"
| "value_fits t (Unsigned_Value u) = (t = Unsigned_Integer_Type)"
| "value_fits t (String_Value s) = (t = String_Type)"

definition well_typed :: "variable_set \<Rightarrow> bool" where
  "well_typed vs \<longleftrightarrow> (\<forall>name t v. vs name = Some (t, v) \<longrightarrow> value_fits t v)"

lemma fold_map_insert:
  "fold (\<lambda>e m. map_insert m e) es m k = (case m k of Some v \<Rightarrow> Some v | None \<Rightarrow> map_of es k)"
  by (induction es arbitrary: m) (auto simp: map_insert_def split: option.splits)

lemma make_variable_set_find:
  "make_variable_set ds name = map_option (\<lambda>d. (vd_type d, vd_initial_value d)) (vd_find ds name)"
  unfolding make_variable_set_def new_variable_set_def fold_map_insert
  by (induction ds) auto

text \<open>Declarations never have two of one name.\<close>

lemma vd_find_None: "vd_find ds name = None \<longleftrightarrow> name \<notin> set (enumerate_variable_names ds)"
  by (induction ds) (auto simp: enumerate_variable_names_def)

lemma vd_find_append:
  "vd_find (ds @ es) name = (case vd_find ds name of Some d \<Rightarrow> Some d | None \<Rightarrow> vd_find es name)"
  by (induction ds) auto

lemma vd_declare_distinct:
  "distinct (enumerate_variable_names ds) \<Longrightarrow>
    distinct (enumerate_variable_names (snd (vd_declare ds d)))"
  using vd_find_None [of ds "vd_name d"]
  by (auto simp: vd_declare_def enumerate_variable_names_def)

lemma vd_declare_find:
  "vd_find (snd (vd_declare ds d)) name =
    (if vd_find ds name = None \<and> name = vd_name d then Some d else vd_find ds name)"
  by (auto simp: vd_declare_def vd_find_append split: option.splits)

lemma vs_set_props:
  "fst (vs_set vs name v) \<longleftrightarrow> vs_exists vs name"
  "vs_type (snd (vs_set vs name v)) n = vs_type vs n"
  "vs_get (snd (vs_set vs name v)) n = (if n = name \<and> vs_exists vs name then v else vs_get vs n)"
  by (auto simp: vs_set_def vs_exists_def vs_type_def vs_get_def split: option.splits)

lemma vs_set_well_typed:
  "well_typed vs \<Longrightarrow> vs_type vs name = Some t \<Longrightarrow> value_fits t v \<Longrightarrow>
    well_typed (snd (vs_set vs name v))"
  by (auto simp: well_typed_def vs_set_def vs_type_def split: option.splits if_splits)

end
