(* ===== verification/Std_Text.thy ===== *)
theory Std_Text
  imports Tateyama_Prelude
begin

text \<open>
  The parts of the C++ standard library that turn numbers into text and back:
  \<^verbatim>\<open>std::to_string\<close>, \<^verbatim>\<open>std::stol\<close> and \<^verbatim>\<open>std::stoul\<close>. As in the library, white space before
  the number is skipped, a sign is taken, and what follows the digits is ignored.
\<close>

definition isspace :: "char \<Rightarrow> bool" where
  "isspace c \<longleftrightarrow> (let n = of_char c :: nat in n = 32 \<or> 9 \<le> n \<and> n \<le> 13)"

definition is_digit :: "char \<Rightarrow> bool" where
  "is_digit c \<longleftrightarrow> (let n = of_char c :: nat in 48 \<le> n \<and> n \<le> 57)"

definition digit_value :: "char \<Rightarrow> nat" where
  "digit_value c = of_char c - 48"

definition dec_value :: "string \<Rightarrow> nat" where
  "dec_value ds = fold (\<lambda>c acc. 10 * acc + digit_value c) ds 0"

definition take_sign :: "string \<Rightarrow> bool \<times> string" where
  "take_sign s =
     (if s \<noteq> [] \<and> hd s = CHR ''-'' then (True, tl s)
      else if s \<noteq> [] \<and> hd s = CHR ''+'' then (False, tl s)
      else (False, s))"

text \<open>The sign and the value of the number a text begins with, if there is one.\<close>

definition leading_number :: "string \<Rightarrow> (bool \<times> nat) option" where
  "leading_number s =
     (case take_sign (dropWhile isspace s) of (neg, r) \<Rightarrow>
      let ds = takeWhile is_digit r in
      if ds = [] then None else Some (neg, dec_value ds))"

definition stol :: "string \<Rightarrow> int result" where
  "stol s = (case leading_number s of
     None \<Rightarrow> Inl (Invalid_Argument ''stol'')
   | Some (neg, v) \<Rightarrow>
       (let i = if neg then - int v else int v in
        if - (2 ^ 63) \<le> i \<and> i < 2 ^ 63 then Inr i else Inl Out_Of_Range))"

definition stoul :: "string \<Rightarrow> u64 result" where
  "stoul s = (case leading_number s of
     None \<Rightarrow> Inl (Invalid_Argument ''stoul'')
   | Some (neg, v) \<Rightarrow>
       (if v < 2 ^ 64 then Inr (if neg then - of_nat v else of_nat v) else Inl Out_Of_Range))"

fun dec_digits :: "nat \<Rightarrow> string" where
  "dec_digits n =
     (if n < 10 then [char_of (48 + n)] else dec_digits (n div 10) @ [char_of (48 + n mod 10)])"

declare dec_digits.simps [simp del]

definition to_string :: "u64 \<Rightarrow> string" where
  "to_string n = dec_digits (unat n)"

section \<open>Reading back what was printed\<close>

lemma digit_char:
  assumes "n < 10"
  shows "is_digit (char_of (48 + n))" and "digit_value (char_of (48 + n)) = n"
proof -
  have "of_char (char_of (48 + n) :: char) = 48 + n"
    using assms by (simp only: of_char_of) (rule mod_less, simp)
  then show "is_digit (char_of (48 + n))" and "digit_value (char_of (48 + n)) = n"
    using assms by (simp_all add: is_digit_def digit_value_def Let_def)
qed

lemma dec_value_snoc: "dec_value (ds @ [c]) = 10 * dec_value ds + digit_value c"
  by (simp add: dec_value_def)

lemma dec_value_digits: "dec_value (dec_digits n) = n"
proof (induction n rule: dec_digits.induct)
  case (1 n)
  then show ?case
    by (subst dec_digits.simps) (auto simp: dec_value_snoc digit_char dec_value_def)
qed

lemma all_dec_digits: "list_all is_digit (dec_digits n)"
proof (induction n rule: dec_digits.induct)
  case (1 n)
  then show ?case
    by (subst dec_digits.simps) (auto simp: digit_char)
qed

lemma dec_digits_not_Nil: "dec_digits n \<noteq> []"
  by (subst dec_digits.simps) simp

lemmas dec_digits_props = dec_value_digits all_dec_digits dec_digits_not_Nil

lemma digit_no_space: "is_digit c \<Longrightarrow> \<not> isspace c \<and> c \<noteq> CHR ''-'' \<and> c \<noteq> CHR ''+''"
  by (auto simp: is_digit_def isspace_def Let_def)

lemma leading_number_digits:
  assumes "list_all is_digit ds" and "ds \<noteq> []"
  shows "leading_number ds = Some (False, dec_value ds)"
proof -
  obtain c cs where ds: "ds = c # cs" using assms(2) by (cases ds) auto
  have "dropWhile isspace ds = ds" "take_sign ds = (False, ds)" "takeWhile is_digit ds = ds"
    using assms(1) digit_no_space [of c] ds
    by (auto simp: take_sign_def takeWhile_eq_all_conv list_all_iff)
  then show ?thesis
    using assms(2) by (simp only: leading_number_def prod.case Let_def if_False)
qed

lemma leading_number_to_string: "leading_number (to_string n) = Some (False, unat n)"
  using leading_number_digits [OF dec_digits_props(2,3), of "unat n"]
  by (simp only: to_string_def dec_digits_props(1))

lemma stol_to_string:
  "stol (to_string n) = (if unat n < 2 ^ 63 then Inr (uint n) else Inl Out_Of_Range)"
proof -
  have "int (unat n) = uint n"
    by simp
  moreover have "unat n < 2 ^ 63 \<longleftrightarrow> int (unat n) < 2 ^ 63"
    using of_nat_less_iff [of "unat n" "2 ^ 63", where 'a = int, symmetric]
    by (simp only: of_nat_power of_nat_numeral)
  moreover have "- (2 ^ 63) \<le> uint n"
    by (rule order.trans [OF _ uint_ge_0]) simp
  ultimately show ?thesis
    by (simp only: stol_def leading_number_to_string option.case prod.case Let_def if_False simp_thms)
qed

lemma stoul_to_string: "stoul (to_string n) = Inr n"
proof -
  have "unat n < 2 ^ 64"
    using unsigned_less [of n, where 'a = nat] by simp
  moreover have "of_nat (unat n) = n"
    by simp
  ultimately show ?thesis
    by (simp only: stoul_def leading_number_to_string option.case prod.case if_True if_False)
qed

lemma to_string_digits: "list_all is_digit (to_string n)" "to_string n \<noteq> []"
  by (simp_all add: to_string_def dec_digits_props)

end
