(* ===== verification/Session.thy ===== *)
theory Session
  imports Session_Variables Std_Text
begin

text \<open>
  The sessions of the server and the session service: the container of session contexts
  (\<^verbatim>\<open>session/resource/container_impl.cpp\<close>), the commands on sessions
  (\<^verbatim>\<open>session/resource/bridge.cpp\<close>) and the service that decodes the requests and answers them
  (\<^verbatim>\<open>session/service/core.cpp\<close>).

  The contexts live in a heap; the container holds weak pointers, so a pointer whose context is
  gone stays until the next operation erases it. The order of the container is that of the
  addresses of its nodes, which the code does not choose: the place where a new pointer goes is
  an argument. \<^verbatim>\<open>boost::lexical_cast\<close> is an argument as well.
\<close>

section \<open>Session contexts\<close>

datatype user_type = Administrator | Standard

record session_info =
  si_id :: u64
  si_label :: string
  si_application_name :: string
  si_user_name :: "string option"
  si_user_type :: user_type
  si_start_at :: int
  si_connection_type_name :: string
  si_connection_information :: string

record session_context =
  ctx_info :: session_info
  ctx_variables :: variable_set
  ctx_shutdown_request :: shutdown_request_type
  ctx_expiration_time :: "int option"

definition new_session_context :: "session_info \<Rightarrow> variable_set \<Rightarrow> session_context" where
  "new_session_context info variables = \<lparr>ctx_info = info, ctx_variables = variables,
     ctx_shutdown_request = Shutdown_Nothing, ctx_expiration_time = None\<rparr>"

definition numeric_id :: "session_context \<Rightarrow> u64" where
  "numeric_id c = si_id (ctx_info c)"

definition symbolic_id :: "session_context \<Rightarrow> string" where
  "symbolic_id c = si_label (ctx_info c)"

definition shutdown_request ::
    "session_context \<Rightarrow> shutdown_request_type \<Rightarrow> bool \<times> session_context" where
  "shutdown_request c t = (case request_shutdown t (ctx_shutdown_request c) of
     (ok, r) \<Rightarrow> (ok, c\<lparr>ctx_shutdown_request := r\<rparr>))"

definition set_expiration_time :: "session_context \<Rightarrow> int option \<Rightarrow> session_context" where
  "set_expiration_time c t = c\<lparr>ctx_expiration_time := t\<rparr>"

section \<open>The container\<close>

type_synonym session_ref = nat

record sessions =
  heap :: "session_ref \<rightharpoonup> session_context"
  session_contexts :: "session_ref list"
  variable_declarations :: variable_declaration_set

definition alive :: "sessions \<Rightarrow> session_ref list" where
  "alive s = filter (\<lambda>r. heap s r \<noteq> None) (session_contexts s)"

text \<open>
  The set is ordered by the addresses of its elements, and the weak pointer that
  \<^verbatim>\<open>find(session)\<close> searches for is a new object: no element has its address, so the search
  never finds one.
\<close>

definition register_session :: "sessions \<Rightarrow> session_ref \<Rightarrow> nat \<Rightarrow> bool \<times> sessions" where
  "register_session s r pos =
     (True, s\<lparr>session_contexts := take pos (alive s) @ r # drop pos (alive s)\<rparr>)"

text \<open>\<^verbatim>\<open>foreach\<close>: the living contexts in order; dead pointers are erased on the way.\<close>

definition for_each :: "sessions \<Rightarrow> (session_ref \<times> session_context) list \<times> sessions" where
  "for_each s = (map (\<lambda>r. (r, the (heap s r))) (alive s), s\<lparr>session_contexts := alive s\<rparr>)"

definition find_session ::
    "sessions \<Rightarrow> u64 \<Rightarrow> (session_ref \<times> session_context) option \<times> sessions" where
  "find_session s nid = (case for_each s of (es, s') \<Rightarrow>
     (fold (\<lambda>e rv. if nid = numeric_id (snd e) then Some e else rv) es None, s'))"

definition enumerate_numeric_ids :: "sessions \<Rightarrow> string \<Rightarrow> u64 list \<times> sessions" where
  "enumerate_numeric_ids s sid = (case for_each s of (es, s') \<Rightarrow>
     (map (\<lambda>e. numeric_id (snd e)) (filter (\<lambda>e. sid = symbolic_id (snd e)) es), s'))"

definition enumerate_all_numeric_ids :: "sessions \<Rightarrow> u64 list \<times> sessions" where
  "enumerate_all_numeric_ids s = (case for_each s of (es, s') \<Rightarrow>
     (map (\<lambda>e. numeric_id (snd e)) es, s'))"

section \<open>The commands\<close>

datatype session_error =
    INVALID_ARGUMENT
  | SESSION_NOT_FOUND
  | SESSION_AMBIGUOUS
  | OPERATION_NOT_PERMITTED
  | SESSION_VARIABLE_NOT_DECLARED
  | SESSION_VARIABLE_INVALID_VALUE

type_synonym error_descriptor = "session_error \<times> string"

text \<open>A command throws, fails with an error descriptor, or gives its answer.\<close>

type_synonym 'a command_result = "exn + error_descriptor + 'a"

abbreviation Throws :: "exn \<Rightarrow> 'a command_result" where
  "Throws e \<equiv> Inl e"

abbreviation Fails :: "session_error \<Rightarrow> string \<Rightarrow> 'a command_result" where
  "Fails c m \<equiv> Inr (Inl (c, m))"

abbreviation Answers :: "'a \<Rightarrow> 'a command_result" where
  "Answers a \<equiv> Inr (Inr a)"

record session_entry =
  se_session_id :: string
  se_label :: string
  se_application :: string
  se_user :: "string option"
  se_start_at :: int
  se_connection_type :: string
  se_connection_info :: string

definition set_entry :: "session_info \<Rightarrow> session_entry" where
  "set_entry info = \<lparr>se_session_id = CHR '':'' # to_string (si_id info),
     se_label = si_label info, se_application = si_application_name info,
     se_user = si_user_name info, se_start_at = si_start_at info,
     se_connection_type = si_connection_type_name info,
     se_connection_info = si_connection_information info\<rparr>"

definition find_only_one_session :: "string \<Rightarrow> sessions \<Rightarrow> u64 command_result \<times> sessions" where
  "find_only_one_session specifier s =
     (if specifier = [] then (Throws Out_Of_Range, s)
      else if hd specifier = CHR '':''
      then (case stol (tl specifier) of
          Inr i \<Rightarrow> (Answers (word_of_int i), s)
        | Inl e \<Rightarrow> (Fails INVALID_ARGUMENT ''invalid session id'', s))
      else (case enumerate_numeric_ids s specifier of (v, s') \<Rightarrow>
        if v = []
        then (Fails SESSION_NOT_FOUND ''cannot find session by that session specifier'', s')
        else if length v > 1
        then (Fails SESSION_AMBIGUOUS
          ''ambiguous session (find multiple sessions by that session specifier)'', s')
        else (Answers (hd v), s')))"

definition permitted :: "session_info \<Rightarrow> session_info \<Rightarrow> bool" where
  "permitted caller info \<longleftrightarrow>
     si_user_type caller = Administrator \<or> si_user_name caller = si_user_name info"

text \<open>
  What the commands on one session have in common: look the specifier up, with the handler of
  the command for \<^verbatim>\<open>std::invalid_argument\<close>, find the context, check the permission, which
  throws, and go on with the context.
\<close>

definition on_session :: "(string \<Rightarrow> error_descriptor) \<Rightarrow> error_descriptor \<Rightarrow> session_info \<Rightarrow>
    string \<Rightarrow> (session_ref \<Rightarrow> session_context \<Rightarrow> sessions \<Rightarrow> 'a command_result \<times> sessions) \<Rightarrow>
    sessions \<Rightarrow> 'a command_result \<times> sessions" where
  "on_session handler not_found caller specifier k s =
     (case find_only_one_session specifier s of
        (Inl (Invalid_Argument what), s') \<Rightarrow> (Inr (Inl (handler what)), s')
      | (Inl e, s') \<Rightarrow> (Inl e, s')
      | (Inr (Inl err), s') \<Rightarrow> (Inr (Inl err), s')
      | (Inr (Inr nid), s') \<Rightarrow>
          (case find_session s' nid of
             (None, s'') \<Rightarrow> (Inr (Inl not_found), s'')
           | (Some (r, c), s'') \<Rightarrow>
               if \<not> permitted caller (ctx_info c)
               then (Throws (Runtime_Error ''no permission to access the session specified''), s'')
               else k r c s''))"

definition list_sessions ::
    "u64 \<Rightarrow> session_info \<Rightarrow> sessions \<Rightarrow> session_entry list command_result \<times> sessions" where
  "list_sessions session_id caller s = (case for_each s of (es, s') \<Rightarrow>
     (Answers (map (\<lambda>e. set_entry (ctx_info (snd e)))
        (filter (\<lambda>e. session_id \<noteq> si_id (ctx_info (snd e)) \<and>
           permitted caller (ctx_info (snd e))) es)), s'))"

abbreviation not_found_message :: string where
  "not_found_message \<equiv> ''cannot find session by that session specifier''"

definition get_session ::
    "session_info \<Rightarrow> string \<Rightarrow> sessions \<Rightarrow> session_entry command_result \<times> sessions" where
  "get_session caller specifier =
     on_session (\<lambda>what. (SESSION_VARIABLE_INVALID_VALUE, what)) (SESSION_NOT_FOUND, not_found_message)
       caller specifier (\<lambda>r c s. (Answers (set_entry (ctx_info c)), s))"

definition put_context :: "session_ref \<Rightarrow> session_context \<Rightarrow> sessions \<Rightarrow> sessions" where
  "put_context r c s = s\<lparr>heap := (heap s)(r \<mapsto> c)\<rparr>"

definition session_shutdown :: "session_info \<Rightarrow> string \<Rightarrow> shutdown_request_type \<Rightarrow> sessions \<Rightarrow>
    session_ref command_result \<times> sessions" where
  "session_shutdown caller specifier t =
     on_session (\<lambda>what. (SESSION_NOT_FOUND, not_found_message)) (SESSION_NOT_FOUND, not_found_message)
       caller specifier (\<lambda>r c s.
         case shutdown_request c t of (rv, c') \<Rightarrow>
           ((if rv then Answers r else Fails OPERATION_NOT_PERMITTED ''shutdown is not permitted''),
            put_context r c' s))"

text \<open>The value a text denotes for a variable of some type, or the error it gives.\<close>

definition parse_value :: "(string \<Rightarrow> bool option) \<Rightarrow> session_variable_type \<Rightarrow> string \<Rightarrow>
    string + variable_value" where
  "parse_value lexical_bool t val = (case t of
     Boolean_Type \<Rightarrow> (case lexical_bool val of
         Some b \<Rightarrow> Inr (Bool_Value b)
       | None \<Rightarrow> Inl ''invalid value type for the boolean session variable'')
   | Signed_Integer_Type \<Rightarrow> (case stol val of
         Inr i \<Rightarrow> Inr (Signed_Value i)
       | Inl e \<Rightarrow> Inl ''invalid value type for the signed_integer session variable'')
   | Unsigned_Integer_Type \<Rightarrow> (case stoul val of
         Inr u \<Rightarrow> Inr (Unsigned_Value u)
       | Inl e \<Rightarrow> Inl ''invalid value type for the unsigned_integer session variable'')
   | String_Type \<Rightarrow> Inr (String_Value val))"

definition set_valiable :: "(string \<Rightarrow> bool option) \<Rightarrow> session_info \<Rightarrow> string \<Rightarrow> string \<Rightarrow>
    string \<Rightarrow> sessions \<Rightarrow> unit command_result \<times> sessions" where
  "set_valiable lexical_bool caller specifier name val =
     on_session (\<lambda>what. (SESSION_NOT_FOUND, what)) (SESSION_NOT_FOUND, not_found_message)
       caller specifier (\<lambda>r c s.
         if \<not> vs_exists (ctx_variables c) name
         then (Fails SESSION_VARIABLE_NOT_DECLARED
           ''session variable by that name has not been declared'', s)
         else (case vs_type (ctx_variables c) name of
             None \<Rightarrow> (Fails SESSION_VARIABLE_NOT_DECLARED
               ''session variable with that type has not been declared'', s)
           | Some t \<Rightarrow> (case parse_value lexical_bool t val of
               Inl m \<Rightarrow> (Fails SESSION_VARIABLE_INVALID_VALUE m, s)
             | Inr v \<Rightarrow> (case vs_set (ctx_variables c) name v of
                 (True, vs) \<Rightarrow> (Answers (), put_context r (c\<lparr>ctx_variables := vs\<rparr>) s)
               | (False, vs) \<Rightarrow>
                   (Fails OPERATION_NOT_PERMITTED ''operation is not permitted'', s)))))"

definition unset_valiable :: "session_info \<Rightarrow> string \<Rightarrow> string \<Rightarrow> sessions \<Rightarrow>
    unit command_result \<times> sessions" where
  "unset_valiable caller specifier name =
     on_session (\<lambda>what. (SESSION_NOT_FOUND, what)) (SESSION_NOT_FOUND, not_found_message)
       caller specifier (\<lambda>r c s.
         if \<not> vs_exists (ctx_variables c) name
         then (Fails SESSION_VARIABLE_NOT_DECLARED
           ''session variable by that name has not been declared'', s)
         else (case vs_set (ctx_variables c) name
             (vs_get (make_variable_set (variable_declarations s)) name) of
             (True, vs) \<Rightarrow> (Answers (), put_context r (c\<lparr>ctx_variables := vs\<rparr>) s)
           | (False, vs) \<Rightarrow> (Fails OPERATION_NOT_PERMITTED ''should not reach here'', s)))"

text \<open>The answer carries the name, the value unless it is not set, and the description.\<close>

definition get_valiable :: "session_info \<Rightarrow> string \<Rightarrow> string \<Rightarrow> sessions \<Rightarrow>
    (string \<times> variable_value \<times> string option) command_result \<times> sessions" where
  "get_valiable caller specifier name =
     on_session (\<lambda>what. (SESSION_NOT_FOUND, [])) (SESSION_NOT_FOUND, [])
       caller specifier (\<lambda>r c s.
         if \<not> vs_exists (ctx_variables c) name \<or> vs_type (ctx_variables c) name = None
         then (Fails SESSION_VARIABLE_NOT_DECLARED [], s)
         else (Answers (name, vs_get (ctx_variables c) name,
           map_option vd_description (vd_find (variable_declarations s) name)), s))"

section \<open>The service\<close>

datatype session_shutdown_type =
    SESSION_SHUTDOWN_TYPE_NOT_SET
  | GRACEFUL
  | FORCEFUL
  | Unknown_Shutdown_Type int

datatype session_command =
    Session_Get string
  | Session_List
  | Session_Shutdown string session_shutdown_type
  | Session_Set_Variable string string "string option"
  | Session_Get_Variable string string
  | Session_Command_Not_Set

datatype session_reply =
    Get_Success session_entry
  | List_Success "session_entry list"
  | Shutdown_Success
  | Set_Variable_Success
  | Get_Variable_Success string variable_value "string option"
  | Command_Error session_error string
  | Permission_Error string

text \<open>
  What a call of the service gives: its return code and the responses it sends; a shutdown that
  was accepted is answered by a thread of its own, which waits for the worker of the session.
\<close>

record service_outcome =
  return_code :: bool
  replies :: "session_reply list"
  shutdown_waiter :: "session_ref option"

definition outcome_of :: "('a \<Rightarrow> session_reply) \<Rightarrow> 'a command_result \<times> sessions \<Rightarrow>
    service_outcome result \<times> sessions" where
  "outcome_of f r = (case r of
     (Inl (Runtime_Error what), s) \<Rightarrow>
       (Inr \<lparr>return_code = False, replies = [Permission_Error what], shutdown_waiter = None\<rparr>, s)
   | (Inl e, s) \<Rightarrow> (Inl e, s)
   | (Inr (Inl (c, m)), s) \<Rightarrow>
       (Inr \<lparr>return_code = False, replies = [Command_Error c m], shutdown_waiter = None\<rparr>, s)
   | (Inr (Inr a), s) \<Rightarrow>
       (Inr \<lparr>return_code = True, replies = [f a], shutdown_waiter = None\<rparr>, s))"

definition start_waiter :: "session_ref command_result \<times> sessions \<Rightarrow>
    service_outcome result \<times> sessions" where
  "start_waiter r = (case r of
     (Inr (Inr ref), s) \<Rightarrow>
       (Inr \<lparr>return_code = True, replies = [], shutdown_waiter = Some ref\<rparr>, s)
   | _ \<Rightarrow> outcome_of (\<lambda>_. Shutdown_Success) r)"

definition session_service :: "(string \<Rightarrow> bool option) \<Rightarrow> session_info \<Rightarrow> u64 \<Rightarrow>
    session_command option \<Rightarrow> sessions \<Rightarrow> service_outcome result \<times> sessions" where
  "session_service lexical_bool caller session_id request s = (case request of
     None \<Rightarrow> (Inr \<lparr>return_code = False, replies = [], shutdown_waiter = None\<rparr>, s)
   | Some Session_Command_Not_Set \<Rightarrow>
       (Inr \<lparr>return_code = False, replies = [], shutdown_waiter = None\<rparr>, s)
   | Some (Session_Get specifier) \<Rightarrow> outcome_of Get_Success (get_session caller specifier s)
   | Some Session_List \<Rightarrow> outcome_of List_Success (list_sessions session_id caller s)
   | Some (Session_Shutdown specifier t) \<Rightarrow>
       (case t of
          GRACEFUL \<Rightarrow> start_waiter (session_shutdown caller specifier Shutdown_Graceful s)
        | Unknown_Shutdown_Type n \<Rightarrow> outcome_of (\<lambda>_. Shutdown_Success)
            (Fails INVALID_ARGUMENT ''invalid session shutdown type'' :: unit command_result, s)
        | _ \<Rightarrow> start_waiter (session_shutdown caller specifier Shutdown_Forceful s))
   | Some (Session_Set_Variable specifier name val) \<Rightarrow> outcome_of (\<lambda>_. Set_Variable_Success)
       (case val of
          Some v \<Rightarrow> set_valiable lexical_bool caller specifier name v s
        | None \<Rightarrow> unset_valiable caller specifier name s)
   | Some (Session_Get_Variable specifier name) \<Rightarrow>
       outcome_of (\<lambda>(n, v, d). Get_Variable_Success n v d) (get_valiable caller specifier name s))"

text \<open>
  The waiting thread: it repeats as long as the session has a worker that has not terminated,
  and then sends the answer.
\<close>

definition waiter_round :: "bool option \<Rightarrow> session_reply option" where
  "waiter_round worker_terminated = (case worker_terminated of
     None \<Rightarrow> Some Shutdown_Success
   | Some terminated \<Rightarrow> if terminated then Some Shutdown_Success else None)"

end
