(* ===== verification/Session_Properties.thy ===== *)
theory Session_Properties
  imports Session
begin

text \<open>
  Properties of the session commands and of the session service: who can see and change which
  session, what every command keeps, and what a specifier finds.
\<close>

section \<open>Looking sessions up\<close>

lemma in_for_each:
  "(r, c) \<in> set (fst (for_each s)) \<longleftrightarrow> r \<in> set (session_contexts s) \<and> heap s r = Some c"
  by (auto simp: for_each_def alive_def)

lemma for_each_frame [simp]:
  "heap (snd (for_each s)) = heap s"
  "variable_declarations (snd (for_each s)) = variable_declarations s"
  "session_contexts (snd (for_each s)) = alive s"
  by (simp_all add: for_each_def)

lemma for_each_again: "for_each (snd (for_each s)) = for_each s"
  by (simp add: for_each_def alive_def)

lemma fold_last_hit:
  "fold (\<lambda>e rv. if P e then Some e else rv) es rv0 =
    (if filter P es = [] then rv0 else Some (last (filter P es)))"
  by (induction es arbitrary: rv0) auto

lemma find_session_eq:
  "find_session s nid = (let hits = filter (\<lambda>e. nid = numeric_id (snd e)) (fst (for_each s)) in
    (if hits = [] then None else Some (last hits), snd (for_each s)))"
  by (simp add: find_session_def fold_last_hit split_beta Let_def)

lemma find_session_Some:
  assumes "find_session s nid = (Some (r, c), s')"
  shows "r \<in> set (session_contexts s)" "heap s r = Some c" "numeric_id c = nid" "s' = snd (for_each s)"
proof -
  let ?hits = "filter (\<lambda>e. nid = numeric_id (snd e)) (fst (for_each s))"
  have "?hits \<noteq> []" and "last ?hits = (r, c)"
    using assms by (simp_all add: find_session_eq Let_def split: if_splits)
  then have "(r, c) \<in> set ?hits"
    using last_in_set by metis
  then show "r \<in> set (session_contexts s)" "heap s r = Some c" "numeric_id c = nid"
    by (auto simp: in_for_each)
  show "s' = snd (for_each s)"
    using assms by (simp add: find_session_eq Let_def split: if_splits)
qed

text \<open>Two states with the same contexts and declarations, up to dead pointers.\<close>

definition same_sessions :: "sessions \<Rightarrow> sessions \<Rightarrow> bool" where
  "same_sessions s s' \<longleftrightarrow> heap s' = heap s \<and> alive s' = alive s \<and>
     variable_declarations s' = variable_declarations s"

lemma same_sessions_refl [simp]: "same_sessions s s"
  by (simp add: same_sessions_def)

lemma same_sessions_trans: "same_sessions s1 s2 \<Longrightarrow> same_sessions s2 s3 \<Longrightarrow> same_sessions s1 s3"
  by (simp add: same_sessions_def)

lemma same_sessions_for_each [simp]: "same_sessions s (snd (for_each s))"
  by (simp add: same_sessions_def) (simp add: for_each_def alive_def)

lemma same_for_each: "same_sessions s s' \<Longrightarrow> fst (for_each s') = fst (for_each s)"
  by (simp add: same_sessions_def for_each_def)

lemma find_only_one_same: "same_sessions s (snd (find_only_one_session specifier s))"
  by (auto simp: find_only_one_session_def enumerate_numeric_ids_def split_beta
      split: sum.splits prod.splits if_splits)

lemma find_session_same: "same_sessions s (snd (find_session s nid))"
  by (simp add: find_session_eq Let_def)

text \<open>
  A command on one session either gives no answer and changes nothing, or goes on with a living
  context that the caller may access.
\<close>

lemma on_session_cases:
  assumes "on_session handler not_found caller specifier k s = (res, s')"
  obtains (none) "same_sessions s s'" and "\<And>a. res \<noteq> Answers a"
  | (found) r c s1 where "same_sessions s s1" and "heap s r = Some c"
      and "permitted caller (ctx_info c)" and "k r c s1 = (res, s')"
proof -
  obtain res1 s1 where one: "find_only_one_session specifier s = (res1, s1)" by force
  have same1: "same_sessions s s1"
    using find_only_one_same [of s specifier] by (simp add: one)
  show ?thesis
  proof (cases "\<exists>nid. res1 = Answers nid")
    case False
    then show ?thesis
      using assms one same1
      by (intro none) (auto simp: on_session_def split: exn.splits sum.splits)
  next
    case True
    then obtain nid where nid: "res1 = Answers nid" by blast
    obtain f s2 where f: "find_session s1 nid = (f, s2)" by force
    have same2: "same_sessions s s2"
      using find_session_same [of s1 nid] same1 f same_sessions_trans by (metis snd_conv)
    show ?thesis
    proof (cases f)
      case None
      then show ?thesis
        using assms one nid f same2 by (intro none) (auto simp: on_session_def)
    next
      case (Some rc)
      obtain r c where rc: "rc = (r, c)" by force
      then have "heap s r = Some c"
        using find_session_Some(2) [of s1 nid r c s2] f Some same1 by (simp add: same_sessions_def)
      then show ?thesis
        using assms one nid f Some rc same2 none found [of s2 r c]
        by (cases "permitted caller (ctx_info c)") (auto simp: on_session_def)
    qed
  qed
qed

section \<open>What the commands change\<close>

text \<open>
  Variables that fit the declarations: every value is of the type of its variable, initial
  values too, and a variable that is declared has the declared type.
\<close>

definition declared_types :: "variable_declaration_set \<Rightarrow> variable_set \<Rightarrow> bool" where
  "declared_types ds vs \<longleftrightarrow> well_typed vs \<and> (\<forall>d \<in> set ds. value_fits (vd_type d) (vd_initial_value d) \<and>
     (\<forall>t. vs_type vs (vd_name d) = Some t \<longrightarrow> vd_type d = t))"

lemma vd_find_Some: "vd_find ds name = Some d \<Longrightarrow> d \<in> set ds \<and> vd_name d = name"
  by (induction ds) (auto split: if_splits)

lemma initial_value_fits:
  assumes "declared_types ds vs" and "vs_type vs name = Some t"
  shows "value_fits t (vs_get (make_variable_set ds) name)"
  using assms vd_find_Some [of ds name]
  by (auto simp: vs_get_def make_variable_set_find declared_types_def split: option.splits)

lemma declared_types_vs_set:
  "declared_types ds vs \<Longrightarrow> vs_type vs name = Some t \<Longrightarrow> value_fits t v \<Longrightarrow>
    declared_types ds (snd (vs_set vs name v))"
  by (simp add: declared_types_def vs_set_well_typed vs_set_props(2))

text \<open>
  The contexts a command leaves behind: those the caller may not access are untouched, the
  information, the names and the types of the variables of every session stay, values stay of
  their types, a shutdown request only gets stronger.
\<close>

definition context_step :: "variable_declaration_set \<Rightarrow> session_context \<Rightarrow> session_context \<Rightarrow> bool" where
  "context_step ds c c' \<longleftrightarrow> ctx_info c' = ctx_info c \<and>
     vs_type (ctx_variables c') = vs_type (ctx_variables c) \<and>
     ctx_shutdown_request c \<le> ctx_shutdown_request c' \<and>
     (declared_types ds (ctx_variables c) \<longrightarrow> declared_types ds (ctx_variables c'))"

definition sessions_step :: "session_info \<Rightarrow> sessions \<Rightarrow> sessions \<Rightarrow> bool" where
  "sessions_step caller s s' \<longleftrightarrow> alive s' = alive s \<and>
     variable_declarations s' = variable_declarations s \<and>
     (\<forall>r. rel_option (context_step (variable_declarations s)) (heap s r) (heap s' r)) \<and>
     (\<forall>r c. heap s r = Some c \<and> \<not> permitted caller (ctx_info c) \<longrightarrow> heap s' r = Some c)"

lemma context_step_refl [simp]: "context_step ds c c"
  by (simp add: context_step_def)

lemma sessions_step_same: "same_sessions s s' \<Longrightarrow> sessions_step caller s s'"
  by (auto simp: sessions_step_def same_sessions_def intro: option.rel_refl)

lemma sessions_step_put:
  assumes "same_sessions s s1" and "heap s r = Some c" and "permitted caller (ctx_info c)"
    and "context_step (variable_declarations s) c c'"
  shows "sessions_step caller s (put_context r c' s1)"
proof -
  have "alive (put_context r c' s1) = alive s1"
    using assms(1,2) by (auto simp: alive_def put_context_def same_sessions_def intro!: filter_cong)
  then show ?thesis
    using assms by (auto simp: sessions_step_def put_context_def same_sessions_def
        intro: option.rel_refl)
qed

lemma set_value_step:
  assumes "vs_set (ctx_variables c) name v = (ok, vs)"
    and "declared_types ds (ctx_variables c) \<Longrightarrow>
      \<exists>t. vs_type (ctx_variables c) name = Some t \<and> value_fits t v"
  shows "context_step ds c (c\<lparr>ctx_variables := vs\<rparr>)"
proof -
  have vs: "vs = snd (vs_set (ctx_variables c) name v)"
    using assms(1) by simp
  show ?thesis
    unfolding vs context_step_def using assms(2) declared_types_vs_set
    by (auto simp: vs_set_props(2))
qed

lemma stol_range: "stol s = Inr i \<Longrightarrow> - (2 ^ 63) \<le> i \<and> i < 2 ^ 63"
  unfolding stol_def Let_def by (auto split: option.splits prod.splits if_splits)

lemma parse_value_fits: "parse_value lexical_bool t val = Inr v \<Longrightarrow> value_fits t v"
  using stol_range [of val]
  by (cases t) (auto simp: parse_value_def split: option.splits sum.splits)

lemma set_valiable_step:
  assumes "set_valiable lexical_bool caller specifier name val s = (res, s')"
  shows "sessions_step caller s s'"
  using assms unfolding set_valiable_def
proof (cases rule: on_session_cases)
  case (found r c s1)
  show ?thesis
  proof (cases "res = Answers ()")
    case True
    then obtain t v vs where t: "vs_type (ctx_variables c) name = Some t"
      and v: "parse_value lexical_bool t val = Inr v"
      and vs: "vs_set (ctx_variables c) name v = (True, vs)"
      and s': "s' = put_context r (c\<lparr>ctx_variables := vs\<rparr>) s1"
      using found(4) by (auto split: if_splits option.splits sum.splits prod.splits bool.splits)
    show ?thesis
      unfolding s'
      by (rule sessions_step_put [OF found(1,2,3) set_value_step [OF vs]])
        (use t parse_value_fits [OF v] in blast)
  next
    case False
    then have "s' = s1"
      using found(4) by (auto split: if_splits option.splits sum.splits prod.splits bool.splits)
    then show ?thesis using found(1) by (simp add: sessions_step_same)
  qed
qed (rule sessions_step_same)

lemma unset_valiable_step:
  assumes "unset_valiable caller specifier name s = (res, s')"
  shows "sessions_step caller s s'"
  using assms unfolding unset_valiable_def
proof (cases rule: on_session_cases)
  case (found r c s1)
  let ?v = "vs_get (make_variable_set (variable_declarations s1)) name"
  have ds: "variable_declarations s1 = variable_declarations s"
    using found(1) by (simp add: same_sessions_def)
  show ?thesis
  proof (cases "vs_set (ctx_variables c) name ?v")
    case (Pair ok vs)
    have "s' = s1 \<or> vs_exists (ctx_variables c) name \<and> s' = put_context r (c\<lparr>ctx_variables := vs\<rparr>) s1"
      using found(4) Pair by (auto split: if_splits bool.splits)
    moreover have "context_step (variable_declarations s) c (c\<lparr>ctx_variables := vs\<rparr>)"
      if "vs_exists (ctx_variables c) name"
      using set_value_step [OF Pair] that initial_value_fits
      by (force simp: ds vs_exists_def vs_type_def)
    ultimately show ?thesis
      using found(1) sessions_step_put [OF found(1,2,3)] by (auto intro: sessions_step_same)
  qed
qed (rule sessions_step_same)

lemma session_shutdown_step:
  assumes "session_shutdown caller specifier t s = (res, s')"
  shows "sessions_step caller s s'"
  using assms unfolding session_shutdown_def
proof (cases rule: on_session_cases)
  case (found r c s1)
  have "context_step (variable_declarations s) c (snd (shutdown_request c t))"
    using request_shutdown_max(1) [of t "ctx_shutdown_request c"]
    by (auto simp: shutdown_request_def context_step_def split: prod.splits)
  then show ?thesis
    using found(4) sessions_step_put [OF found(1,2,3)] by (auto split: prod.splits)
qed (rule sessions_step_same)

lemma get_valiable_same:
  assumes "get_valiable caller specifier name s = (res, s')"
  shows "same_sessions s s'"
  using assms unfolding get_valiable_def
  by (cases rule: on_session_cases) (auto split: if_splits)

lemma get_session_same:
  assumes "get_session caller specifier s = (res, s')"
  shows "same_sessions s s'"
  using assms unfolding get_session_def by (cases rule: on_session_cases) auto

lemma outcome_of_snd [simp]: "snd (outcome_of f r) = snd r"
  by (auto simp: outcome_of_def split: prod.splits sum.splits exn.splits)

lemma start_waiter_snd [simp]: "snd (start_waiter r) = snd r"
  using outcome_of_snd [of "\<lambda>_. Shutdown_Success" r]
  by (auto simp: start_waiter_def split: prod.splits sum.splits)

lemmas command_steps =
  set_valiable_step [OF prod.collapse [symmetric]]
  unset_valiable_step [OF prod.collapse [symmetric]]
  session_shutdown_step [OF prod.collapse [symmetric]]
  sessions_step_same [OF get_valiable_same [OF prod.collapse [symmetric]]]
  sessions_step_same [OF get_session_same [OF prod.collapse [symmetric]]]
  sessions_step_same [OF same_sessions_for_each] sessions_step_same [OF same_sessions_refl]

lemma session_service_step: "sessions_step caller s (snd (session_service lb caller sid req s))"
  by (auto simp: session_service_def list_sessions_def split_beta intro: command_steps
      split: option.splits session_command.splits session_shutdown_type.splits)

section \<open>What a caller can tell\<close>

text \<open>
  Two states look the same to a caller: they have the same sessions with the same ids and labels,
  those the caller may access are equal, and the others may differ in everything else: user,
  application, connection, variables, shutdown request and expiration.
\<close>

definition same_context :: "session_info \<Rightarrow> session_context \<Rightarrow> session_context \<Rightarrow> bool" where
  "same_context caller c d \<longleftrightarrow> numeric_id c = numeric_id d \<and> symbolic_id c = symbolic_id d \<and>
     (c = d \<or> \<not> permitted caller (ctx_info c) \<and> \<not> permitted caller (ctx_info d))"

definition same_view :: "session_info \<Rightarrow> sessions \<Rightarrow> sessions \<Rightarrow> bool" where
  "same_view caller s t \<longleftrightarrow> session_contexts s = session_contexts t \<and>
     variable_declarations s = variable_declarations t \<and>
     (\<forall>r. rel_option (same_context caller) (heap s r) (heap t r))"

definition same_run :: "session_info \<Rightarrow> 'a \<times> sessions \<Rightarrow> 'a \<times> sessions \<Rightarrow> bool" where
  "same_run caller x y \<longleftrightarrow> fst x = fst y \<and> same_view caller (snd x) (snd y)"

lemma same_context_refl [simp]: "same_context caller c c"
  by (simp add: same_context_def)

lemma same_view_refl [simp]: "same_view caller s s"
  by (simp add: same_view_def option.rel_refl)

lemma same_view_put:
  "same_view caller s t \<Longrightarrow> same_view caller (put_context r c s) (put_context r c t)"
  by (simp add: same_view_def put_context_def)

lemma same_view_alive:
  assumes "same_view caller s t"
  shows "alive s = alive t"
proof -
  have "heap s r = None \<longleftrightarrow> heap t r = None" for r
    using assms unfolding same_view_def by (metis rel_option_None1 rel_option_None2)
  then show ?thesis
    using assms by (simp add: alive_def same_view_def)
qed

definition same_entry :: "session_info \<Rightarrow> session_ref \<times> session_context \<Rightarrow> session_ref \<times> session_context \<Rightarrow> bool" where
  "same_entry caller e f \<longleftrightarrow> fst e = fst f \<and> same_context caller (snd e) (snd f)"

lemma for_each_view:
  assumes "same_view caller s t"
  shows "list_all2 (same_entry caller) (fst (for_each s)) (fst (for_each t))"
    and "same_view caller (snd (for_each s)) (snd (for_each t))"
proof -
  have "same_context caller (the (heap s r)) (the (heap t r))" if alive: "r \<in> set (alive s)" for r
  proof -
    obtain c where "heap s r = Some c"
      using alive by (auto simp: alive_def)
    moreover have "rel_option (same_context caller) (heap s r) (heap t r)"
      using assms by (simp add: same_view_def)
    ultimately show ?thesis by (auto simp: option_rel_Some1)
  qed
  then show "list_all2 (same_entry caller) (fst (for_each s)) (fst (for_each t))"
    by (simp add: for_each_def list_all2_map1 list_all2_map2 same_entry_def
        same_view_alive [OF assms, symmetric] list.rel_refl_strong)
  show "same_view caller (snd (for_each s)) (snd (for_each t))"
    using assms same_view_alive [OF assms] by (simp add: same_view_def for_each_def)
qed

lemma list_sessions_view:
  assumes "same_view caller s t"
  shows "same_run caller (list_sessions sid caller s) (list_sessions sid caller t)"
proof -
  have "map (\<lambda>e. set_entry (ctx_info (snd e))) (filter (\<lambda>e. sid \<noteq> si_id (ctx_info (snd e)) \<and>
      permitted caller (ctx_info (snd e))) es) = map (\<lambda>e. set_entry (ctx_info (snd e)))
      (filter (\<lambda>e. sid \<noteq> si_id (ctx_info (snd e)) \<and> permitted caller (ctx_info (snd e))) fs)"
    if "list_all2 (same_entry caller) es fs" for es fs
    using that by induction (auto simp: same_entry_def same_context_def)
  then show ?thesis
    using for_each_view [OF assms] by (simp add: same_run_def list_sessions_def split_beta)
qed

lemma find_only_one_view:
  assumes "same_view caller s t"
  shows "same_run caller (find_only_one_session specifier s) (find_only_one_session specifier t)"
proof -
  have "map (\<lambda>e. numeric_id (snd e)) (filter (\<lambda>e. specifier = symbolic_id (snd e)) es) =
      map (\<lambda>e. numeric_id (snd e)) (filter (\<lambda>e. specifier = symbolic_id (snd e)) fs)"
    if "list_all2 (same_entry caller) es fs" for es fs
    using that by induction (auto simp: same_entry_def same_context_def)
  then have "same_run caller (enumerate_numeric_ids s specifier) (enumerate_numeric_ids t specifier)"
    using for_each_view [OF assms] by (simp add: same_run_def enumerate_numeric_ids_def split_beta)
  then show ?thesis
    using assms by (auto simp: same_run_def find_only_one_session_def Let_def split_beta split: sum.splits)
qed

lemma find_session_view:
  assumes "same_view caller s t"
  shows "rel_option (same_entry caller) (fst (find_session s nid)) (fst (find_session t nid))"
    and "same_view caller (snd (find_session s nid)) (snd (find_session t nid))"
proof -
  let ?f = "\<lambda>e rv. if nid = numeric_id (snd e) then Some e else rv"
  have "rel_option (same_entry caller) (fold ?f es rv) (fold ?f fs rv')"
    if "list_all2 (same_entry caller) es fs" "rel_option (same_entry caller) rv rv'" for es fs rv rv'
    using that
  proof (induction arbitrary: rv rv')
    case (Cons e es f fs)
    have "numeric_id (snd e) = numeric_id (snd f)"
      using Cons.hyps(1) by (simp add: same_entry_def same_context_def)
    then show ?case
      using Cons.IH [of "?f e rv" "?f f rv'"] Cons.hyps(1) Cons.prems by simp
  qed simp
  from this [OF for_each_view(1) [OF assms], of None None]
  show "rel_option (same_entry caller) (fst (find_session s nid)) (fst (find_session t nid))"
    by (simp add: find_session_def split_beta)
  show "same_view caller (snd (find_session s nid)) (snd (find_session t nid))"
    using for_each_view(2) [OF assms] by (simp add: find_session_def split_beta)
qed

text \<open>
  A command on one session gives the same result in both states if what it does with a context
  the caller may access gives the same.
\<close>

lemma on_session_view:
  assumes "same_view caller s t"
    and k: "\<And>r c s1 t1. same_view caller s1 t1 \<Longrightarrow> same_run caller (k r c s1) (k r c t1)"
  shows "same_run caller (on_session handler not_found caller specifier k s)
    (on_session handler not_found caller specifier k t)"
proof -
  obtain res s1 t1 where one: "find_only_one_session specifier s = (res, s1)"
    "find_only_one_session specifier t = (res, t1)" and v1: "same_view caller s1 t1"
    using find_only_one_view [OF assms(1), of specifier] unfolding same_run_def by (metis prod.collapse)
  show ?thesis
  proof (cases "\<exists>nid. res = Answers nid")
    case True
    then obtain nid where nid: "res = Answers nid" by blast
    obtain f s2 g t2 where f: "find_session s1 nid = (f, s2)" "find_session t1 nid = (g, t2)"
      by (metis prod.collapse)
    have rel: "rel_option (same_entry caller) f g" and v2: "same_view caller s2 t2"
      using find_session_view [OF v1, of nid] by (simp_all add: f)
    from rel show ?thesis
    proof cases
      case (Some x y)
      then show ?thesis
        using v2 k [OF v2, of "fst x" "snd x"]
        by (cases x; cases y) (auto simp: on_session_def one nid f same_entry_def same_context_def same_run_def)
    qed (use v2 in \<open>simp add: on_session_def one nid f same_run_def\<close>)
  qed (use v1 in \<open>auto simp: on_session_def one same_run_def split: sum.splits exn.splits\<close>)
qed

lemma same_view_declarations: "same_view caller s t \<Longrightarrow> variable_declarations s = variable_declarations t"
  by (simp add: same_view_def)

lemma command_views:
  assumes "same_view caller s t"
  shows "same_run caller (get_session caller specifier s) (get_session caller specifier t)"
    and "same_run caller (session_shutdown caller specifier k s) (session_shutdown caller specifier k t)"
    and "same_run caller (set_valiable lb caller specifier name val s) (set_valiable lb caller specifier name val t)"
    and "same_run caller (unset_valiable caller specifier name s) (unset_valiable caller specifier name t)"
    and "same_run caller (get_valiable caller specifier name s) (get_valiable caller specifier name t)"
  unfolding get_session_def session_shutdown_def set_valiable_def unset_valiable_def get_valiable_def
  by (rule on_session_view [OF assms]; frule same_view_declarations;
      auto simp: same_run_def same_view_put split: prod.splits option.splits sum.splits bool.splits)+

lemma outcome_of_view: "same_run caller x y \<Longrightarrow> same_run caller (outcome_of f x) (outcome_of f y)"
  by (cases x; cases y) (auto simp: same_run_def outcome_of_def split: sum.splits exn.splits)

lemma start_waiter_view: "same_run caller x y \<Longrightarrow> same_run caller (start_waiter x) (start_waiter y)"
  using outcome_of_view [of caller x y "\<lambda>_. Shutdown_Success"]
  by (cases x; cases y) (auto simp: same_run_def start_waiter_def split: sum.splits)

lemma session_service_view:
  assumes "same_view caller s t"
  shows "same_run caller (session_service lb caller sid req s) (session_service lb caller sid req t)"
proof -
  have same: "same_run caller (x, s) (x, t)" for x :: 'x
    using assms by (simp add: same_run_def)
  show ?thesis
    unfolding session_service_def
    by (auto simp only: same split: option.splits session_command.splits session_shutdown_type.splits
        intro: outcome_of_view start_waiter_view command_views [OF assms] list_sessions_view [OF assms])
qed

text \<open>A shutdown that was accepted is waited for only on a session the caller may access.\<close>

lemma outcome_of_waiter: "fst (outcome_of f x) = Inr out \<Longrightarrow> shutdown_waiter out = None"
  by (auto simp: outcome_of_def split: prod.splits sum.splits exn.splits)

lemma session_shutdown_permitted:
  assumes "fst (session_shutdown caller specifier k s) = Answers r"
  shows "\<exists>c. heap s r = Some c \<and> permitted caller (ctx_info c)"
proof -
  obtain s' where "session_shutdown caller specifier k s = (Answers r, s')"
    using assms by (metis prod.collapse)
  then show ?thesis
    unfolding session_shutdown_def
    by (cases rule: on_session_cases) (auto split: prod.splits if_splits)
qed

lemma start_waiter_permitted:
  assumes "fst (start_waiter (session_shutdown caller specifier k s)) = Inr out" and "shutdown_waiter out = Some r"
  shows "\<exists>c. heap s r = Some c \<and> permitted caller (ctx_info c)"
proof -
  let ?x = "session_shutdown caller specifier k s"
  have "fst ?x = Answers r"
    using assms outcome_of_waiter [of "\<lambda>_. Shutdown_Success" ?x out]
    by (cases ?x) (auto simp: start_waiter_def split: sum.splits)
  then show ?thesis by (rule session_shutdown_permitted)
qed

lemma session_service_waiter:
  assumes "fst (session_service lb caller sid req s) = Inr out" and "shutdown_waiter out = Some r"
  shows "\<exists>c. heap s r = Some c \<and> permitted caller (ctx_info c)"
  using assms
  by (auto simp: session_service_def dest: outcome_of_waiter intro: start_waiter_permitted
      split: option.splits session_command.splits session_shutdown_type.splits)

text \<open>The requests of one caller, one after the other.\<close>

primrec serve_all :: "(string \<Rightarrow> bool option) \<Rightarrow> session_info \<Rightarrow> u64 \<Rightarrow> session_command option list \<Rightarrow>
    sessions \<Rightarrow> service_outcome result list \<times> sessions" where
  "serve_all lb caller sid [] s = ([], s)"
| "serve_all lb caller sid (q # qs) s = (case session_service lb caller sid q s of (out, s') \<Rightarrow>
     (case serve_all lb caller sid qs s' of (outs, s'') \<Rightarrow> (out # outs, s'')))"

lemma serve_all_view:
  "same_view caller s t \<Longrightarrow> same_run caller (serve_all lb caller sid qs s) (serve_all lb caller sid qs t)"
proof (induction qs arbitrary: s t)
  case (Cons q qs)
  show ?case
    using session_service_view [OF Cons.prems, of lb sid q]
      Cons.IH [of "snd (session_service lb caller sid q s)" "snd (session_service lb caller sid q t)"]
    by (auto simp: same_run_def split_beta)
qed (simp add: same_run_def)

lemma serve_all_keeps:
  assumes "heap s r = Some c" and "\<not> permitted caller (ctx_info c)"
  shows "heap (snd (serve_all lb caller sid qs s)) r = Some c \<and>
    (\<forall>out. Inr out \<in> set (fst (serve_all lb caller sid qs s)) \<longrightarrow> shutdown_waiter out \<noteq> Some r)"
  using assms(1)
proof (induction qs arbitrary: s)
  case (Cons q qs)
  let ?x = "session_service lb caller sid q s"
  have "heap (snd ?x) r = Some c"
    using session_service_step [of caller s lb sid q] Cons.prems assms(2) by (simp add: sessions_step_def)
  moreover have "shutdown_waiter out \<noteq> Some r" if "fst ?x = Inr out" for out
    using session_service_waiter [OF that] Cons.prems assms(2) by force
  ultimately show ?case
    using Cons.IH [of "snd ?x"] by (auto simp: split_beta)
qed simp

section \<open>Exceptions\<close>

lemma find_only_one_throws:
  "fst (find_only_one_session specifier s) = Throws e \<longleftrightarrow> specifier = [] \<and> e = Out_Of_Range"
  by (auto simp: find_only_one_session_def split_beta split: sum.splits)

lemma on_session_throws:
  assumes "\<And>r c s1 e. fst (k r c s1) \<noteq> Throws e" and "\<And>w. e \<noteq> Runtime_Error w"
  shows "fst (on_session handler not_found caller specifier k s) = Throws e \<longleftrightarrow>
    specifier = [] \<and> e = Out_Of_Range"
  using assms(1) assms(2) [of "''no permission to access the session specified''"]
    find_only_one_throws [of specifier s]
  by (cases "find_only_one_session specifier s")
    (auto simp: on_session_def split: sum.splits exn.splits option.splits prod.splits)

lemma outcome_of_throws:
  "fst (outcome_of f x) = Inl e \<longleftrightarrow> fst x = Throws e \<and> (\<forall>w. e \<noteq> Runtime_Error w)"
  by (auto simp: outcome_of_def split: prod.splits sum.splits exn.splits)

lemma start_waiter_throws:
  "fst (start_waiter x) = Inl e \<longleftrightarrow> fst x = Throws e \<and> (\<forall>w. e \<noteq> Runtime_Error w)"
  using outcome_of_throws [of "\<lambda>_. Shutdown_Success" x e]
  by (cases x) (auto simp: start_waiter_def split: sum.splits)

lemma command_throws:
  assumes "\<And>w. e \<noteq> Runtime_Error w"
  shows "fst (get_session caller specifier s) = Throws e \<longleftrightarrow> specifier = [] \<and> e = Out_Of_Range"
    and "fst (session_shutdown caller specifier k s) = Throws e \<longleftrightarrow> specifier = [] \<and> e = Out_Of_Range"
    and "fst (set_valiable lb caller specifier name val s) = Throws e \<longleftrightarrow> specifier = [] \<and> e = Out_Of_Range"
    and "fst (unset_valiable caller specifier name s) = Throws e \<longleftrightarrow> specifier = [] \<and> e = Out_Of_Range"
    and "fst (get_valiable caller specifier name s) = Throws e \<longleftrightarrow> specifier = [] \<and> e = Out_Of_Range"
  unfolding get_session_def session_shutdown_def set_valiable_def unset_valiable_def get_valiable_def
  by (rule on_session_throws [OF _ assms]; auto split: prod.splits option.splits sum.splits bool.splits)+

text \<open>The session a command addresses; a shutdown of an unknown type is refused before it looks.\<close>

fun addressed :: "session_command \<Rightarrow> string option" where
  "addressed (Session_Get specifier) = Some specifier"
| "addressed (Session_Shutdown specifier (Unknown_Shutdown_Type n)) = None"
| "addressed (Session_Shutdown specifier t) = Some specifier"
| "addressed (Session_Set_Variable specifier name val) = Some specifier"
| "addressed (Session_Get_Variable specifier name) = Some specifier"
| "addressed Session_List = None"
| "addressed Session_Command_Not_Set = None"

lemma list_sessions_entry:
  assumes "list_sessions sid caller s = (Answers es, s')"
  shows "s' = snd (for_each s)"
    and "e \<in> set es \<Longrightarrow> \<exists>r c. r \<in> set (session_contexts s) \<and> heap s r = Some c \<and>
      permitted caller (ctx_info c) \<and> e = set_entry (ctx_info c)"
proof -
  have es: "es = map (\<lambda>e. set_entry (ctx_info (snd e))) (filter (\<lambda>e. sid \<noteq> si_id (ctx_info (snd e)) \<and>
      permitted caller (ctx_info (snd e))) (fst (for_each s)))"
    and s': "s' = snd (for_each s)"
    using assms by (simp_all add: list_sessions_def split_beta)
  show "s' = snd (for_each s)" by (rule s')
  assume "e \<in> set es"
  then obtain r c where "(r, c) \<in> set (fst (for_each s))" "permitted caller (ctx_info c)"
    "e = set_entry (ctx_info c)"
    unfolding es by auto
  then show "\<exists>r c. r \<in> set (session_contexts s) \<and> heap s r = Some c \<and>
      permitted caller (ctx_info c) \<and> e = set_entry (ctx_info c)"
    unfolding in_for_each by blast
qed

section \<open>Specifiers\<close>

definition specifier_of :: "u64 \<Rightarrow> string" where
  "specifier_of nid = CHR '':'' # to_string nid"

definition only_session :: "sessions \<Rightarrow> session_ref \<Rightarrow> session_context \<Rightarrow> u64 \<Rightarrow> bool" where
  "only_session s r c nid \<longleftrightarrow> r \<in> set (session_contexts s) \<and> heap s r = Some c \<and> numeric_id c = nid \<and>
     (\<forall>r' \<in> set (session_contexts s). \<forall>c'. heap s r' = Some c' \<and> numeric_id c' = nid \<longrightarrow> r' = r)"

lemma find_session_only:
  assumes "only_session s r c nid"
  shows "find_session s nid = (Some (r, c), snd (for_each s))"
proof -
  define hits where "hits = filter (\<lambda>e. nid = numeric_id (snd e)) (fst (for_each s))"
  have only: "r' \<in> set (session_contexts s) \<Longrightarrow> heap s r' = Some c' \<Longrightarrow> numeric_id c' = nid \<Longrightarrow> r' = r"
    for r' c'
    using assms unfolding only_session_def by blast
  have hits: "e \<in> set hits \<longleftrightarrow> e = (r, c)" for e
  proof
    assume "e \<in> set hits"
    moreover obtain r' c' where e: "e = (r', c')" by force
    ultimately have "r' \<in> set (session_contexts s)" "heap s r' = Some c'" "numeric_id c' = nid"
      unfolding hits_def by (simp_all add: in_for_each)
    then have "r' = r" and "heap s r' = Some c'"
      using only by blast+
    moreover have "heap s r = Some c"
      using assms unfolding only_session_def by blast
    ultimately show "e = (r, c)"
      by (simp add: e)
  next
    assume "e = (r, c)"
    then show "e \<in> set hits"
      using assms unfolding hits_def only_session_def by (simp add: in_for_each)
  qed
  then have "hits \<noteq> []"
    by (metis empty_iff empty_set)
  moreover from this have "last hits = (r, c)"
    using hits [of "last hits"] by simp
  ultimately show ?thesis
    by (simp add: find_session_eq Let_def flip: hits_def)
qed

lemma find_by_id:
  assumes "unat nid < 2 ^ 63"
  shows "find_only_one_session (specifier_of nid) s = (Answers nid, s)"
proof -
  have "stol (to_string nid) = Inr (uint nid)"
    using assms by (simp only: stol_to_string if_True)
  then show ?thesis
    by (simp add: find_only_one_session_def specifier_of_def)
qed

lemma on_session_only:
  assumes "only_session s r c nid" and "unat nid < 2 ^ 63" and "permitted caller (ctx_info c)"
  shows "on_session handler not_found caller (specifier_of nid) k s = k r c (snd (for_each s))"
  using assms(3)
  by (simp add: on_session_def find_by_id [OF assms(2)] find_session_only [OF assms(1)])

lemma only_session_for_each:
  assumes "only_session s r c nid"
  shows "only_session (snd (for_each s)) r c nid"
proof -
  have "set (alive s) \<subseteq> set (session_contexts s)"
    by (auto simp: alive_def)
  moreover have "r \<in> set (alive s)"
    using assms unfolding only_session_def alive_def by simp
  ultimately show ?thesis
    using assms unfolding only_session_def for_each_frame by blast
qed

lemma only_session_put:
  assumes "only_session s r c nid" and "ctx_info c' = ctx_info c"
  shows "only_session (put_context r c' s) r c' nid"
proof -
  have "session_contexts (put_context r c' s) = session_contexts s" "heap (put_context r c' s) r = Some c'"
    "r' \<noteq> r \<Longrightarrow> heap (put_context r c' s) r' = heap s r'" "numeric_id c' = numeric_id c" for r'
    using assms(2) by (simp_all add: put_context_def numeric_id_def)
  then show ?thesis
    using assms(1) unfolding only_session_def by metis
qed

lemma get_valiable_only:
  assumes "only_session s r c nid" and "unat nid < 2 ^ 63" and "permitted caller (ctx_info c)"
    and "ctx_variables c name = Some (t, v)" and "vd_find (variable_declarations s) name = Some d"
  shows "get_valiable caller (specifier_of nid) name s =
    (Answers (name, v, Some (vd_description d)), snd (for_each s))"
  using assms(4,5)
  by (simp add: get_valiable_def on_session_only [OF assms(1-3)] vs_exists_def vs_type_def vs_get_def)

text \<open>A session of one user, with one variable; another user; for concrete instances.\<close>

definition alice :: session_info where
  "alice = \<lparr>si_id = 1, si_label = ''a'', si_application_name = [], si_user_name = Some ''alice'',
     si_user_type = Standard, si_start_at = 0, si_connection_type_name = ''ipc'',
     si_connection_information = []\<rparr>"

definition bob :: session_info where
  "bob = alice\<lparr>si_id := 2, si_user_name := Some ''bob''\<rparr>"

definition limit_variable :: variable_declaration where
  "limit_variable = \<lparr>vd_name = ''limit'', vd_type = Unsigned_Integer_Type,
     vd_initial_value = Unsigned_Value 0, vd_description = ''d''\<rparr>"

definition alice_context :: session_context where
  "alice_context = new_session_context alice (make_variable_set [limit_variable])"

definition example_sessions :: sessions where
  "example_sessions = \<lparr>heap = [0 \<mapsto> alice_context], session_contexts = [0],
     variable_declarations = [limit_variable]\<rparr>"

lemma example_facts:
  "heap example_sessions 0 = Some alice_context" "session_contexts example_sessions = [0]"
  "ctx_info alice_context = alice" "numeric_id alice_context = 1"
  "permitted alice alice" "\<not> permitted bob alice"
  "vs_type (ctx_variables alice_context) ''limit'' = Some Unsigned_Integer_Type"
  "vd_find (variable_declarations example_sessions) ''limit'' = Some limit_variable"
  "ctx_shutdown_request alice_context = Shutdown_Nothing"
  by (simp_all add: example_sessions_def alice_context_def new_session_context_def numeric_id_def
      alice_def bob_def permitted_def make_variable_set_find vs_type_def limit_variable_def)

lemma example_only: "only_session example_sessions 0 alice_context 1"
  unfolding only_session_def by (simp add: example_facts)

lemma declared_example:
  "declared_types (variable_declarations example_sessions) (ctx_variables alice_context)"
  by (auto simp: declared_types_def example_sessions_def alice_context_def new_session_context_def
      well_typed_def make_variable_set_find vs_type_def limit_variable_def)

section \<open>Theorems\<close>

text \<open>
  C6. Sessions are isolated by user. In every sequence of requests to the session service by a
  caller who is neither an administrator nor the user of a session, nothing of that session
  changes and no shutdown of it starts; and all results of the service, error replies and
  exceptions included, are the same in any two states that differ only in sessions the caller may
  not access. What such a caller does learn is that a session with an id or a label exists and
  belongs to another user (the service answers with a permission error or says that a label is
  ambiguous): ids, labels and that the access is refused are common to the two states.
\<close>

theorem session_isolation:
  assumes "same_view caller s t"
  shows "fst (serve_all lexical_bool caller session_id requests s) =
      fst (serve_all lexical_bool caller session_id requests t) \<and>
    (\<forall>r c. heap s r = Some c \<and> \<not> permitted caller (ctx_info c) \<longrightarrow>
      heap (snd (serve_all lexical_bool caller session_id requests s)) r = Some c \<and>
      (\<forall>out. Inr out \<in> set (fst (serve_all lexical_bool caller session_id requests s)) \<longrightarrow>
        shutdown_waiter out \<noteq> Some r))"
  using serve_all_view [OF assms, of lexical_bool session_id requests]
    serve_all_keeps [of s _ _ caller lexical_bool session_id requests]
  by (simp add: same_run_def)

definition other_sessions :: sessions where
  "other_sessions = example_sessions\<lparr>heap := [0 \<mapsto> alice_context\<lparr>ctx_info := alice\<lparr>si_user_name := None,
     si_application_name := ''app''\<rparr>, ctx_shutdown_request := Shutdown_Graceful\<rparr>]\<rparr>"

theorem session_isolation_witness:
  "let qs = [Some (Session_Get ''a''), Some (Session_Get_Variable '':1'' ''limit''),
      Some (Session_Shutdown ''a'' FORCEFUL), Some Session_List]
   in fst (serve_all (\<lambda>_. None) bob 2 qs example_sessions) = fst (serve_all (\<lambda>_. None) bob 2 qs other_sessions) \<and>
     heap (snd (serve_all (\<lambda>_. None) bob 2 qs example_sessions)) 0 = Some alice_context"
proof -
  have "same_view bob example_sessions other_sessions"
    by (simp add: same_view_def other_sessions_def example_sessions_def same_context_def numeric_id_def
        symbolic_id_def alice_context_def new_session_context_def permitted_def alice_def bob_def)
  from session_isolation [OF this] example_facts(1,3,6) show ?thesis
    by (simp add: Let_def del: serve_all.simps)
qed

text \<open>
  C17. What no request can change: a session keeps its information, and the names and types of its
  variables; the values stay of their types when they were; its shutdown request never gets
  weaker; and no session appears or goes.
\<close>

theorem session_invariant:
  assumes "session_service lexical_bool caller session_id request s = (res, s')"
  shows "dom (heap s') = dom (heap s) \<and> (\<forall>r c. heap s r = Some c \<longrightarrow> (\<exists>c'. heap s' r = Some c' \<and>
    ctx_info c' = ctx_info c \<and> vs_type (ctx_variables c') = vs_type (ctx_variables c) \<and>
    ctx_shutdown_request c \<le> ctx_shutdown_request c' \<and>
    (declared_types (variable_declarations s) (ctx_variables c) \<longrightarrow>
      declared_types (variable_declarations s') (ctx_variables c'))))"
proof -
  have step: "sessions_step caller s s'"
    using session_service_step [of caller s lexical_bool session_id request] assms by simp
  then have rel: "rel_option (context_step (variable_declarations s)) (heap s r) (heap s' r)" for r
    by (simp add: sessions_step_def)
  have "heap s' r = None \<longleftrightarrow> heap s r = None" for r
    using rel [of r] by (cases "heap s r"; cases "heap s' r") simp_all
  then have "dom (heap s') = dom (heap s)"
    by (simp add: dom_def)
  moreover have "\<exists>c'. heap s' r = Some c' \<and> context_step (variable_declarations s) c c'"
    if "heap s r = Some c" for r c
    using rel [of r] that by (auto simp: option_rel_Some1)
  moreover have "variable_declarations s' = variable_declarations s"
    using step by (simp add: sessions_step_def)
  ultimately show ?thesis
    unfolding context_step_def by simp
qed

theorem session_invariant_witness:
  "\<exists>res s' c. session_service (\<lambda>_. None) alice 1
      (Some (Session_Set_Variable ''a'' ''limit'' (Some ''12''))) example_sessions = (res, s') \<and>
    heap s' 0 = Some c \<and> ctx_info c = alice \<and>
    declared_types (variable_declarations s') (ctx_variables c)"
proof -
  obtain res s' where run: "session_service (\<lambda>_. None) alice 1
      (Some (Session_Set_Variable ''a'' ''limit'' (Some ''12''))) example_sessions = (res, s')" by force
  from session_invariant [OF run] example_facts(1) obtain c where
    "heap s' 0 = Some c" "ctx_info c = ctx_info alice_context"
    "declared_types (variable_declarations s') (ctx_variables c)"
    using declared_example by blast
  then show ?thesis
    using run by (auto simp: example_facts(3))
qed

text \<open>
  C22. Setting, reading and unsetting a variable through the service: for the session a numeric
  specifier denotes, a value that parses for the type of the variable is stored and read back
  as that value, with its description; unsetting gives the declared initial value back.
\<close>

theorem variable_roundtrip:
  assumes "only_session s r c nid" and "unat nid < 2 ^ 63" and "permitted caller (ctx_info c)"
    and "vs_type (ctx_variables c) name = Some t" and "parse_value lexical_bool t val = Inr v"
    and "vd_find (variable_declarations s) name = Some d"
  shows "\<exists>s1 s2 s3. set_valiable lexical_bool caller (specifier_of nid) name val s = (Answers (), s1) \<and>
    fst (get_valiable caller (specifier_of nid) name s1) =
      Answers (name, v, Some (vd_description d)) \<and>
    unset_valiable caller (specifier_of nid) name s1 = (Answers (), s2) \<and>
    get_valiable caller (specifier_of nid) name s2 =
      (Answers (name, vd_initial_value d, Some (vd_description d)), s3)"
proof -
  have ex: "ctx_variables c name = Some (t, vs_get (ctx_variables c) name)"
    using assms(4) by (auto simp: vs_type_def vs_get_def)
  define c1 where "c1 = c\<lparr>ctx_variables := (ctx_variables c)(name \<mapsto> (t, v))\<rparr>"
  define s1 where "s1 = put_context r c1 (snd (for_each s))"
  have set: "set_valiable lexical_bool caller (specifier_of nid) name val s = (Answers (), s1)"
    using assms(4,5) ex by (simp add: set_valiable_def on_session_only [OF assms(1-3)] vs_exists_def
        vs_set_def s1_def c1_def)
  have only1: "only_session s1 r c1 nid"
    unfolding s1_def by (rule only_session_put [OF only_session_for_each [OF assms(1)]])
      (simp add: c1_def)
  have c1: "permitted caller (ctx_info c1)" "ctx_variables c1 name = Some (t, v)"
    and d1: "vd_find (variable_declarations s1) name = Some d"
    using assms(3,6) by (simp_all add: c1_def s1_def put_context_def)
  define c2 where "c2 = c1\<lparr>ctx_variables := (ctx_variables c1)(name \<mapsto> (t, vd_initial_value d))\<rparr>"
  define s2 where "s2 = put_context r c2 (snd (for_each s1))"
  have unset: "unset_valiable caller (specifier_of nid) name s1 = (Answers (), s2)"
    using c1(2) d1 by (simp add: unset_valiable_def on_session_only [OF only1 assms(2) c1(1)]
        vs_exists_def vs_get_def vs_set_def make_variable_set_find s2_def c2_def)
  have only2: "only_session s2 r c2 nid"
    unfolding s2_def by (rule only_session_put [OF only_session_for_each [OF only1]])
      (simp add: c2_def)
  have c2: "permitted caller (ctx_info c2)" "ctx_variables c2 name = Some (t, vd_initial_value d)"
    and d2: "vd_find (variable_declarations s2) name = Some d"
    using c1(1) d1 by (simp_all add: c2_def s2_def put_context_def)
  show ?thesis
    using set unset get_valiable_only [OF only1 assms(2) c1 d1] get_valiable_only [OF only2 assms(2) c2 d2]
    by auto
qed

theorem variable_roundtrip_witness:
  "\<exists>s1. set_valiable (\<lambda>_. None) alice (specifier_of 1) ''limit'' ''12'' example_sessions =
      (Answers (), s1) \<and>
    fst (get_valiable alice (specifier_of 1) ''limit'' s1) =
      Answers (''limit'', Unsigned_Value 12, Some ''d'')"
proof -
  have p: "parse_value (\<lambda>_. None) Unsigned_Integer_Type ''12'' = Inr (Unsigned_Value 12)"
    by (simp add: parse_value_def stoul_def leading_number_def take_sign_def isspace_def is_digit_def
        dec_value_def digit_value_def)
  show ?thesis
    using variable_roundtrip [OF example_only _ _ example_facts(7) p example_facts(8), of alice]
    by (auto simp: example_facts limit_variable_def)
qed

text \<open>
  C23. A shutdown request to a session is accepted exactly when it is stronger than the one the
  session has: a graceful request can be followed by a forceful one, every other repetition is
  answered with \<^verbatim>\<open>OPERATION_NOT_PERMITTED\<close> and changes nothing.
\<close>

theorem shutdown_accepted_iff_stronger:
  assumes "only_session s r c nid" and "unat nid < 2 ^ 63" and "permitted caller (ctx_info c)"
    and "session_shutdown caller (specifier_of nid) t s = (res, s')"
  shows "res = (if ctx_shutdown_request c < t then Answers r
      else Fails OPERATION_NOT_PERMITTED ''shutdown is not permitted'') \<and>
    heap s' r = Some (c\<lparr>ctx_shutdown_request := max t (ctx_shutdown_request c)\<rparr>)"
  using assms(4) request_shutdown_max [of t "ctx_shutdown_request c"]
  by (cases "request_shutdown t (ctx_shutdown_request c)")
    (auto simp: session_shutdown_def on_session_only [OF assms(1-3)] shutdown_request_def
      put_context_def)

theorem shutdown_accepted_iff_stronger_witness:
  "\<exists>s'. session_shutdown alice (specifier_of 1) Shutdown_Graceful example_sessions = (Answers 0, s')"
proof -
  obtain res s' where run: "session_shutdown alice (specifier_of 1) Shutdown_Graceful
      example_sessions = (res, s')" by force
  show ?thesis
    using shutdown_accepted_iff_stronger [OF example_only _ _ run] run
    by (simp add: example_facts less_shutdown_request_type_def shutdown_strength_def)
qed

text \<open>
  The session ids of a listing are specifiers: getting a session with the id of an entry
  listed gives that entry, when ids are below \<open>2 ^ 63\<close> and no two sessions share one.
\<close>

theorem listed_sessions_found:
  assumes "list_sessions session_id caller s = (Answers es, s')" and "e \<in> set es"
    and "\<And>r c. r \<in> set (session_contexts s) \<Longrightarrow> heap s r = Some c \<Longrightarrow>
      unat (numeric_id c) < 2 ^ 63 \<and> only_session s r c (numeric_id c)"
  shows "\<exists>s''. get_session caller (se_session_id e) s' = (Answers e, s'')"
proof -
  obtain r c where c: "r \<in> set (session_contexts s)" "heap s r = Some c"
    "permitted caller (ctx_info c)" "e = set_entry (ctx_info c)"
    using list_sessions_entry(2) [OF assms(1,2)] by blast
  note s' = list_sessions_entry(1) [OF assms(1)]
  have only: "only_session s' r c (numeric_id c)" and small: "unat (numeric_id c) < 2 ^ 63"
    using assms(3) [OF c(1,2)] by (simp_all add: s' only_session_for_each)
  have "get_session caller (specifier_of (numeric_id c)) s' = (Answers e, snd (for_each s'))"
    by (simp add: get_session_def on_session_only [OF only small c(3)] c(4))
  moreover have "se_session_id e = specifier_of (numeric_id c)"
    by (simp add: c(4) set_entry_def specifier_of_def numeric_id_def)
  ultimately show ?thesis by auto
qed

theorem listed_sessions_found_witness:
  "\<exists>e s' s''. list_sessions 2 alice example_sessions = (Answers [e], s') \<and>
    get_session alice (se_session_id e) s' = (Answers e, s'')"
proof -
  have "list_sessions 2 alice example_sessions =
      (Answers [set_entry alice], snd (for_each example_sessions))"
    by (simp add: list_sessions_def for_each_def alive_def example_facts)
      (simp add: alice_def)
  from listed_sessions_found [OF this, of "set_entry alice"] this show ?thesis
    using example_only by (simp add: example_facts example_sessions_def split: if_splits)
qed

text \<open>
  C33. The session service throws in exactly one case: a command that addresses a session with
  the empty specifier. \<^verbatim>\<open>at(0)\<close> then throws \<^verbatim>\<open>std::out_of_range\<close>, which neither the commands (they
  catch \<^verbatim>\<open>std::invalid_argument\<close>) nor the service (it catches \<^verbatim>\<open>std::runtime_error\<close>) handle, so no
  response is sent. Everything else a client can send, in any state and by any caller, returns
  from the service.
\<close>

theorem empty_specifier_escapes:
  "fst (session_service lexical_bool caller session_id (Some cmd) s) = Inl e \<longleftrightarrow>
    addressed cmd = Some [] \<and> e = Out_Of_Range"
proof (cases "\<exists>w. e = Runtime_Error w")
  case True
  then show ?thesis
    by (auto simp: session_service_def outcome_of_throws start_waiter_throws
        split: session_command.splits session_shutdown_type.splits)
next
  case False
  then have "\<And>w. e \<noteq> Runtime_Error w" by blast
  note throws = command_throws [OF this]
  show ?thesis
  proof (cases cmd)
    case (Session_Shutdown specifier t)
    then show ?thesis
      using False by (cases t) (auto simp: session_service_def outcome_of_throws start_waiter_throws throws)
  qed (use False in \<open>auto simp: session_service_def outcome_of_throws throws list_sessions_def
      split_beta split: option.splits\<close>)
qed

end
