(* ===== verification/Authentication.thy ===== *)
theory Authentication
  imports Session
begin

text \<open>
  Who a session belongs to: the administrators of the server
  (\<^verbatim>\<open>endpoint/common/administrators.h\<close>), the information on a session
  (\<^verbatim>\<open>session_info_impl.h\<close>), the verification of credentials
  (\<^verbatim>\<open>authentication/resource/authentication_adapter_impl.h\<close>, \<^verbatim>\<open>bridge.h\<close>) and the timer after which
  an authentication expires (\<^verbatim>\<open>alive_timer.h\<close>).

  The client of the authentication service (HTTP) and the decoding of its tokens (a JWT
  library) are arguments. Times are integers: seconds for timeouts, milliseconds of the system
  clock for points in time.
\<close>

section \<open>Diagnostics\<close>

datatype diagnostics_code =
    Code_UNKNOWN | Code_SYSTEM_ERROR | Code_UNSUPPORTED_OPERATION | Code_ILLEGAL_STATE
  | Code_AUTHENTICATION_ERROR | Code_PERMISSION_ERROR | Code_ACCESS_EXPIRED
  | Code_REFRESH_EXPIRED | Code_BROKEN_CREDENTIAL | Code_IO_ERROR | Code_OUT_OF_MEMORY
  | Code_RESOURCE_LIMIT_REACHED | Code_SESSION_CLOSED | Code_SESSION_EXPIRED
  | Code_SERVICE_NOT_FOUND | Code_SERVICE_UNAVAILABLE | Code_INVALID_REQUEST
  | Code_OPERATION_CANCELED | Code_OPERATION_DENIED

section \<open>Administrators\<close>

record administrators =
  admin_names :: "string set"
  no_authentication :: bool

text \<open>\<^verbatim>\<open>boost::algorithm::split\<close> at commas, and \<^verbatim>\<open>trim\<close>.\<close>

fun split_at :: "char \<Rightarrow> string \<Rightarrow> string list" where
  "split_at sep [] = [[]]"
| "split_at sep (c # cs) = (let rest = split_at sep cs in
     if c = sep then [] # rest else (c # hd rest) # tl rest)"

definition trim :: "string \<Rightarrow> string" where
  "trim s = rev (dropWhile isspace (rev (dropWhile isspace s)))"

definition new_administrators :: "string \<Rightarrow> administrators result" where
  "new_administrators names =
     (if names = [] then Inl (Runtime_Error ''authentication.administrators is empty'')
      else if names = ''*'' then Inr \<lparr>admin_names = {}, no_authentication = True\<rparr>
      else Inr \<lparr>admin_names = set (map trim (split_at (CHR '','') names)),
        no_authentication = False\<rparr>)"

definition is_administrator :: "administrators \<Rightarrow> string \<Rightarrow> bool" where
  "is_administrator a name \<longleftrightarrow> no_authentication a \<or> name \<in> admin_names a"

text \<open>
  The names from the configuration: \<open>None\<close> for no configuration; otherwise the values of
  \<^verbatim>\<open>authentication.enabled\<close> and \<^verbatim>\<open>authentication.administrators\<close>, if they are there.
\<close>

definition administrator_names :: "(bool option \<times> string option) option \<Rightarrow> string result" where
  "administrator_names cfg = (case cfg of
     None \<Rightarrow> Inr ''*''
   | Some (enabled, names) \<Rightarrow>
       (case enabled of
          Some True \<Rightarrow>
            (case names of
               Some n \<Rightarrow> Inr n
             | None \<Rightarrow> Inl (Runtime_Error
                 ''cannot find authentication.administrators in tsurugi.ini''))
        | Some False \<Rightarrow> Inr ''*''
        | None \<Rightarrow> Inl (Runtime_Error ''cannot find authentication.enabled in tsurugi.ini'')))"

section \<open>Session information\<close>

record session_info_impl =
  sii_id :: u64
  sii_connection_type_name :: string
  sii_start_at :: int
  sii_connection_information :: string
  sii_administrators :: administrators
  sii_connection_label :: string
  sii_application_name :: string
  sii_user_name_opt :: "string option"

definition new_session_info_impl ::
    "u64 \<Rightarrow> string \<Rightarrow> string \<Rightarrow> administrators \<Rightarrow> int \<Rightarrow> session_info_impl" where
  "new_session_info_impl sid con_type con_info adms now =
     \<lparr>sii_id = sid, sii_connection_type_name = con_type, sii_start_at = now,
      sii_connection_information = con_info, sii_administrators = adms,
      sii_connection_label = [], sii_application_name = [], sii_user_name_opt = None\<rparr>"

definition sii_user_type :: "session_info_impl \<Rightarrow> user_type" where
  "sii_user_type i = (case sii_user_name_opt i of
     Some n \<Rightarrow> if is_administrator (sii_administrators i) n then Administrator else Standard
   | None \<Rightarrow> Administrator)"

text \<open>The information as its interface shows it to the session service.\<close>

definition session_info_of :: "session_info_impl \<Rightarrow> session_info" where
  "session_info_of i = \<lparr>si_id = sii_id i, si_label = sii_connection_label i,
     si_application_name = sii_application_name i, si_user_name = sii_user_name_opt i,
     si_user_type = sii_user_type i, si_start_at = sii_start_at i,
     si_connection_type_name = sii_connection_type_name i,
     si_connection_information = sii_connection_information i\<rparr>"

section \<open>Credentials\<close>

text \<open>\<^verbatim>\<open>authentication_exception\<close>: its message and its code, if it has one.\<close>

datatype auth_exception = Auth_Exception string "diagnostics_code option"

type_synonym auth_answer = "auth_exception + string option"

definition MAXIMUM_USERNAME_LENGTH :: nat where
  "MAXIMUM_USERNAME_LENGTH = 1024"

definition username_char :: "char \<Rightarrow> bool" where
  "username_char c \<longleftrightarrow> (let n = of_char c :: nat in 32 \<le> n \<and> n \<le> 126 \<or> 128 \<le> n)"

definition check_username :: "string option \<Rightarrow> auth_answer" where
  "check_username name_opt = (case name_opt of
     None \<Rightarrow> Inr None
   | Some name \<Rightarrow>
       if name \<noteq> [] \<and> isspace (hd name)
       then Inl (Auth_Exception ''invalid user name (begin with whitespace)''
         (Some Code_AUTHENTICATION_ERROR))
       else if name \<noteq> [] \<and> isspace (last name)
       then Inl (Auth_Exception ''invalid user name (end with whitespace)''
         (Some Code_AUTHENTICATION_ERROR))
       else if length name > MAXIMUM_USERNAME_LENGTH
       then Inl (Auth_Exception ''invalid user name (too long)''
         (Some Code_AUTHENTICATION_ERROR))
       else if list_all username_char name then Inr (Some name)
       else Inl (Auth_Exception ''invalid user name (includes invalid charactor)''
         (Some Code_AUTHENTICATION_ERROR)))"

datatype token_type = Token_None | Token_Access | Token_Refresh

text \<open>The grants of a decoded token.\<close>

record jwt =
  jwt_name :: "string option"
  jwt_exp :: "int option"
  jwt_sub :: "string option"

definition jwt_token_type :: "jwt option \<Rightarrow> token_type" where
  "jwt_token_type j = (case j of
     None \<Rightarrow> Token_None
   | Some t \<Rightarrow> (case jwt_sub t of
       None \<Rightarrow> Token_None
     | Some s \<Rightarrow> if s = ''access'' then Token_Access
         else if s = ''refresh'' then Token_Refresh else Token_None))"

definition jwt_auth_name :: "jwt option \<Rightarrow> string option" where
  "jwt_auth_name j = Option.bind j jwt_name"

definition jwt_expiration_time :: "jwt option \<Rightarrow> int option" where
  "jwt_expiration_time j = Option.bind j jwt_exp"

text \<open>
  The adapter: whether it is enabled and its key; the client of the authentication service
  verifies a token or a credential and gives a token, and the library decodes tokens.
\<close>

record auth_adapter =
  adapter_enabled :: bool
  adapter_key :: "(string \<times> string) option"
  client_verify_token :: "string \<Rightarrow> auth_answer"
  client_verify_encrypted :: "string \<Rightarrow> auth_answer"
  jwt_decode :: "string \<Rightarrow> string \<Rightarrow> jwt option"

definition adapter_verify_token :: "auth_adapter \<Rightarrow> int \<Rightarrow> string \<Rightarrow> auth_answer" where
  "adapter_verify_token a now token =
     (if \<not> adapter_enabled a then Inr None
      else (case client_verify_token a token of
          Inl e \<Rightarrow> Inl e
        | Inr None \<Rightarrow> Inl (Auth_Exception ''verify failed'' None)
        | Inr (Some _) \<Rightarrow>
            (case adapter_key a of
               None \<Rightarrow> Inl (Auth_Exception ''verify failed'' None)
             | Some (_, key) \<Rightarrow>
                 (let handler = jwt_decode a token key in
                  if (case jwt_expiration_time handler of Some t \<Rightarrow> now div 1000 < t | None \<Rightarrow> False)
                  then check_username (jwt_auth_name handler)
                  else (case jwt_token_type handler of
                      Token_Access \<Rightarrow> Inl (Auth_Exception ''access token already expired''
                        (Some Code_ACCESS_EXPIRED))
                    | Token_Refresh \<Rightarrow> Inl (Auth_Exception ''refresh token already expired''
                        (Some Code_REFRESH_EXPIRED))
                    | Token_None \<Rightarrow> Inl (Auth_Exception ''token already expired'' None))))))"

definition adapter_verify_encrypted :: "auth_adapter \<Rightarrow> string \<Rightarrow> auth_answer" where
  "adapter_verify_encrypted a credential =
     (if \<not> adapter_enabled a then Inr None
      else (case client_verify_encrypted a credential of
          Inl e \<Rightarrow> Inl e
        | Inr None \<Rightarrow> Inr None
        | Inr (Some token) \<Rightarrow>
            (case adapter_key a of
               None \<Rightarrow> Inr None
             | Some (_, key) \<Rightarrow> check_username (jwt_auth_name (jwt_decode a token key)))))"

text \<open>The bridge, with or without an adapter.\<close>

definition no_adapter :: "auth_exception" where
  "no_adapter = Auth_Exception ''authentication service is not available'' None"

definition bridge_get_encryption_key :: "auth_adapter option \<Rightarrow> auth_answer" where
  "bridge_get_encryption_key b = (case b of
     Some a \<Rightarrow> (case adapter_key a of
         Some (ty, key) \<Rightarrow> if ty = ''RSA'' then Inr (Some key) else Inl no_adapter
       | None \<Rightarrow> Inl no_adapter)
   | None \<Rightarrow> Inl no_adapter)"

definition bridge_verify_token :: "auth_adapter option \<Rightarrow> int \<Rightarrow> string \<Rightarrow> auth_answer" where
  "bridge_verify_token b now token = (case b of
     Some a \<Rightarrow> adapter_verify_token a now token
   | None \<Rightarrow> Inl no_adapter)"

definition bridge_verify_encrypted :: "auth_adapter option \<Rightarrow> string \<Rightarrow> auth_answer" where
  "bridge_verify_encrypted b credential = (case b of
     Some a \<Rightarrow> adapter_verify_encrypted a credential
   | None \<Rightarrow> Inl no_adapter)"

section \<open>The authentication timer\<close>

record alive_timer =
  timer_timeout :: nat
  timer_enabled :: bool
  timer_expiration :: "int option"

definition timer_update :: "alive_timer \<Rightarrow> int \<Rightarrow> bool \<Rightarrow> alive_timer" where
  "timer_update t now forced =
     (if timer_enabled t then
        (let new_until_time = now + 1000 * int (timer_timeout t) in
         if forced then t\<lparr>timer_expiration := Some new_until_time\<rparr>
         else (case timer_expiration t of
             Some e \<Rightarrow> if e < new_until_time then t\<lparr>timer_expiration := Some new_until_time\<rparr> else t
           | None \<Rightarrow> t))
      else t)"

definition new_alive_timer :: "nat \<Rightarrow> int \<Rightarrow> alive_timer" where
  "new_alive_timer timeout now =
     (let t = \<lparr>timer_timeout = timeout, timer_enabled = timeout > 0, timer_expiration = None\<rparr> in
      if timer_enabled t then timer_update t now True else t)"

definition timer_is_over :: "alive_timer \<Rightarrow> int \<Rightarrow> bool" where
  "timer_is_over t now = (case timer_expiration t of Some e \<Rightarrow> now > e | None \<Rightarrow> False)"

definition timer_next_expiration :: "alive_timer \<Rightarrow> u64" where
  "timer_next_expiration t =
     (if timer_enabled t then (case timer_expiration t of Some e \<Rightarrow> word_of_int e | None \<Rightarrow> 0)
      else 0)"

section \<open>Names of administrators\<close>

lemma split_at_not_Nil [simp]: "split_at sep cs \<noteq> []"
  by (induction cs) (auto simp: Let_def)

lemma split_at_append:
  "sep \<notin> set xs \<Longrightarrow> split_at sep (xs @ sep # ys) = xs # split_at sep ys"
  by (induction xs) (auto simp: Let_def)

lemma split_at_single: "sep \<notin> set xs \<Longrightarrow> split_at sep xs = [xs]"
  by (induction xs) (auto simp: Let_def)

text \<open>Names joined with commas.\<close>

fun join_names :: "string list \<Rightarrow> string" where
  "join_names [] = []"
| "join_names [n] = n"
| "join_names (n # m # ns) = n @ CHR '','' # join_names (m # ns)"

lemma split_join_names:
  "ns \<noteq> [] \<Longrightarrow> \<forall>n \<in> set ns. CHR '','' \<notin> set n \<Longrightarrow> split_at (CHR '','') (join_names ns) = ns"
  by (induction ns rule: join_names.induct) (simp_all add: split_at_append split_at_single)

text \<open>The timer never goes back, and only runs out when no update came for the timeout.\<close>

lemma timer_update_mono:
  assumes "timer_expiration t = Some e"
  shows "\<exists>e'. timer_expiration (timer_update t now False) = Some e' \<and> e \<le> e'"
  using assms by (auto simp: timer_update_def Let_def)

lemma timer_update_fresh:
  assumes "timer_enabled t" and "timer_expiration t = Some e"
    and "now' \<le> now + 1000 * int (timer_timeout t)"
  shows "\<not> timer_is_over (timer_update t now False) now'"
  using assms by (auto simp: timer_update_def timer_is_over_def Let_def)

end
