(* ===== verification/Endpoint_Service.thy ===== *)
theory Endpoint_Service
  imports Authentication
begin

text \<open>
  The endpoint broker of a session's worker (\<^verbatim>\<open>endpoint/common/worker_common.h\<close>): the handshake
  that establishes a session, and the requests the worker answers itself afterwards
  (cancellation, renewal of the authentication, its expiration time). A request is the message
  its payload parses to, or \<open>None\<close> if it does not parse; a reply is the message before it is
  serialized.
\<close>

section \<open>Requests and replies\<close>

datatype connection_type = Connection_Undefined | Connection_Ipc | Connection_Stream

datatype credential =
    Encrypted_Credential string
  | Remember_Me_Credential string
  | Credential_Not_Set

datatype wire_information =
    Ipc_Information string
  | Stream_Information u64
  | Wire_Information_Not_Set

datatype blob_transfer_medium =
    DOES_NOT_USE
  | PRIVILEGED
  | RELAY
  | Unknown_Medium int

datatype endpoint_command =
    Handshake string string credential "blob_transfer_medium list" wire_information
  | Cancel
  | Encryption_Key
  | Update_Authentication credential
  | Get_Authentication_Expiration_Time
  | Endpoint_Command_Not_Set

fun command_case :: "endpoint_command \<Rightarrow> u64" where
  "command_case (Handshake label app cred media wi) = 11"
| "command_case Cancel = 12"
| "command_case Encryption_Key = 13"
| "command_case (Update_Authentication cred) = 14"
| "command_case Get_Authentication_Expiration_Time = 15"
| "command_case Endpoint_Command_Not_Set = 0"

fun wire_information_case :: "wire_information \<Rightarrow> u64" where
  "wire_information_case (Ipc_Information c) = 1"
| "wire_information_case (Stream_Information n) = 2"
| "wire_information_case Wire_Information_Not_Set = 0"

record endpoint_request =
  service_message_version_major :: u64
  service_message_version_minor :: u64
  endpoint_command :: endpoint_command

text \<open>What the success reply of a handshake says about the transfer of blobs.\<close>

datatype blob_reply =
    No_Blob_Reply
  | Privileged_Mode
  | Blob_Relay_Info u64 string bool "(string \<times> string) list"

datatype endpoint_reply =
    Handshake_Success u64 "string option" blob_reply
  | Handshake_Error diagnostics_code string
  | Key_Success string
  | Key_Error diagnostics_code string
  | Update_Success
  | Update_Error diagnostics_code string
  | Expiration_Success u64
  | Expiration_Error diagnostics_code string
  | Diagnostics diagnostics_code string

section \<open>State\<close>

datatype blob_transfer_type = Does_Not_Use | Privileged | Blob_Relay_Streaming

text \<open>
  The configuration of the worker; the authentication is \<open>None\<close> when it is off, and the session
  the blob relay service creates is \<open>None\<close> without the service.
\<close>

record endpoint_configuration =
  conf_connection :: connection_type
  conf_auth :: "auth_adapter option option"
  allow_blob_privileged :: bool
  blob_relay_enabled :: bool
  blob_relay_session :: "u64 option"
  blob_relay_endpoint :: string
  blob_relay_secure :: bool
  blob_relay_streaming_params :: "(string \<times> string) list"

record endpoint_resources =
  res_session_info :: session_info_impl
  res_blob_session :: "u64 option"
  res_blob_transfer :: blob_transfer_type
  max_result_sets :: u64
  authentication_timer :: alive_timer

definition connection_label :: "connection_type \<Rightarrow> string" where
  "connection_label con = (case con of
     Connection_Ipc \<Rightarrow> ''ipc'' | Connection_Stream \<Rightarrow> ''tcp'' | Connection_Undefined \<Rightarrow> [])"

definition set_user_name :: "string \<Rightarrow> endpoint_resources \<Rightarrow> endpoint_resources" where
  "set_user_name n r =
     r\<lparr>res_session_info := (res_session_info r)\<lparr>sii_user_name_opt := Some n\<rparr>\<rparr>"

section \<open>Handshake\<close>

datatype handshake_end = Handshake_Returns bool | Handshake_Continues

type_synonym handshake_outcome = "handshake_end \<times> endpoint_reply list \<times> endpoint_resources"

definition service_id_endpoint_broker :: u64 where
  "service_id_endpoint_broker = 1"

definition ENDPOINT_BROKER_SERVICE_MESSAGE_VERSION_MAJOR :: u64 where
  "ENDPOINT_BROKER_SERVICE_MESSAGE_VERSION_MAJOR = 0"

definition ENDPOINT_BROKER_SERVICE_MESSAGE_VERSION_MINOR :: u64 where
  "ENDPOINT_BROKER_SERVICE_MESSAGE_VERSION_MINOR = 2"

definition unsupported_version :: "endpoint_request \<Rightarrow> bool" where
  "unsupported_version rq \<longleftrightarrow> (let smvm = service_message_version_major rq in
     smvm > ENDPOINT_BROKER_SERVICE_MESSAGE_VERSION_MAJOR \<or>
     smvm = ENDPOINT_BROKER_SERVICE_MESSAGE_VERSION_MAJOR \<and>
     service_message_version_minor rq > ENDPOINT_BROKER_SERVICE_MESSAGE_VERSION_MINOR)"

definition handshake_error :: "diagnostics_code \<Rightarrow> string \<Rightarrow> endpoint_reply" where
  "handshake_error code msg = Handshake_Error code msg"

definition reply_encryption_key :: "endpoint_configuration \<Rightarrow> endpoint_resources \<Rightarrow> handshake_outcome" where
  "reply_encryption_key conf r = (case conf_auth conf of
     Some b \<Rightarrow> (case bridge_get_encryption_key b of
         Inr (Some key) \<Rightarrow> (Handshake_Continues, [Key_Success key], r)
       | Inr None \<Rightarrow> (Handshake_Returns False,
           [Key_Error Code_SYSTEM_ERROR ''get_encryption_key() failed''], r)
       | Inl (Auth_Exception what c) \<Rightarrow>
           (Handshake_Returns False, [Key_Error Code_SYSTEM_ERROR what], r))
   | None \<Rightarrow> (Handshake_Continues,
       [Key_Error Code_UNSUPPORTED_OPERATION ''authentication is off''], r))"

text \<open>
  The check of the credential: whether the handshake goes on, the replies sent, and the
  resources with the user. A rejected encrypted credential is answered with an error, and the
  handshake goes on.
\<close>

definition check_credential :: "endpoint_configuration \<Rightarrow> int \<Rightarrow> credential \<Rightarrow> endpoint_resources \<Rightarrow>
    bool \<times> endpoint_reply list \<times> endpoint_resources" where
  "check_credential conf now cred r = (case conf_auth conf of
     None \<Rightarrow> (True, [], r)
   | Some b \<Rightarrow> (case cred of
       Encrypted_Credential c \<Rightarrow> (case bridge_verify_encrypted b c of
           Inr (Some n) \<Rightarrow> (True, [], set_user_name n r)
         | Inr None \<Rightarrow> (True,
             [handshake_error Code_AUTHENTICATION_ERROR ''user or password is incorrect''], r)
         | Inl (Auth_Exception what code) \<Rightarrow>
             (False, [handshake_error Code_AUTHENTICATION_ERROR what], r))
     | Remember_Me_Credential c \<Rightarrow> (case bridge_verify_token b now c of
           Inr (Some n) \<Rightarrow> (True, [], set_user_name n r)
         | Inr None \<Rightarrow> (False,
             [handshake_error Code_AUTHENTICATION_ERROR ''token is incorrect''], r)
         | Inl (Auth_Exception what code) \<Rightarrow> (False,
             [handshake_error (case code of Some c \<Rightarrow> c | None \<Rightarrow> Code_AUTHENTICATION_ERROR) what], r))
     | Credential_Not_Set \<Rightarrow>
         (False, [handshake_error Code_AUTHENTICATION_ERROR ''no valid credential''], r)))"

definition check_wire :: "endpoint_configuration \<Rightarrow> wire_information \<Rightarrow> endpoint_resources \<Rightarrow>
    endpoint_reply + endpoint_resources" where
  "check_wire conf wi r = (let bad = handshake_error Code_INVALID_REQUEST
       (''bad wire information (handshake in endpoint): '' @ to_string (wire_information_case wi)) in
     case conf_connection conf of
       Connection_Ipc \<Rightarrow> (case wi of
           Ipc_Information c \<Rightarrow>
             Inr (r\<lparr>res_session_info := (res_session_info r)\<lparr>sii_connection_information := c\<rparr>\<rparr>)
         | _ \<Rightarrow> Inl bad)
     | Connection_Stream \<Rightarrow> (case wi of
           Stream_Information n \<Rightarrow> Inr (r\<lparr>max_result_sets := n\<rparr>)
         | _ \<Rightarrow> Inl bad)
     | Connection_Undefined \<Rightarrow> Inl (handshake_error Code_INVALID_REQUEST
         (''illegal connection type: '' @ to_string 0)))"

text \<open>The first medium of the client that the server can offer, from the list in order.\<close>

fun choose_medium :: "endpoint_configuration \<Rightarrow> blob_transfer_medium list \<Rightarrow> endpoint_resources \<Rightarrow>
    (blob_reply \<times> endpoint_resources) option" where
  "choose_medium conf [] r = None"
| "choose_medium conf (e # es) r = (case e of
     PRIVILEGED \<Rightarrow>
       if allow_blob_privileged conf
       then Some (Privileged_Mode, r\<lparr>res_blob_transfer := Privileged\<rparr>)
       else choose_medium conf es r
   | RELAY \<Rightarrow> (case blob_relay_session conf of
         Some sid \<Rightarrow>
           if blob_relay_enabled conf
           then Some (Blob_Relay_Info sid (blob_relay_endpoint conf) (blob_relay_secure conf)
               (blob_relay_streaming_params conf),
             r\<lparr>res_blob_session := Some sid, res_blob_transfer := Blob_Relay_Streaming\<rparr>)
           else choose_medium conf es r
       | None \<Rightarrow> choose_medium conf es r)
   | DOES_NOT_USE \<Rightarrow> Some (No_Blob_Reply, r)
   | Unknown_Medium n \<Rightarrow> choose_medium conf es r)"

definition check_blob :: "endpoint_configuration \<Rightarrow> endpoint_request \<Rightarrow> blob_transfer_medium list \<Rightarrow>
    endpoint_resources \<Rightarrow> (blob_reply \<times> endpoint_resources) option" where
  "check_blob conf rq media r =
     (if service_message_version_major rq = 0 \<and> service_message_version_minor rq < 2
      then Some (if allow_blob_privileged conf
        then (Privileged_Mode, r\<lparr>res_blob_transfer := Privileged\<rparr>) else (No_Blob_Reply, r))
      else choose_medium conf media r)"

definition medium_label :: "blob_transfer_medium \<Rightarrow> string" where
  "medium_label e = (case e of
     PRIVILEGED \<Rightarrow> ''PRIVILEGED'' | RELAY \<Rightarrow> ''RELAY'' | DOES_NOT_USE \<Rightarrow> ''DOES_NOT_USE''
   | Unknown_Medium n \<Rightarrow> [])"

fun media_labels :: "blob_transfer_medium list \<Rightarrow> string" where
  "media_labels [] = []"
| "media_labels [e] = medium_label e"
| "media_labels (e # es) = medium_label e @ '' or '' @ media_labels es"

text \<open>The rest of a handshake after the credential: the wire, the blobs and the reply.\<close>

definition finish_handshake :: "endpoint_configuration \<Rightarrow> endpoint_request \<Rightarrow>
    blob_transfer_medium list \<Rightarrow> wire_information \<Rightarrow> endpoint_reply list \<Rightarrow>
    endpoint_resources \<Rightarrow> handshake_outcome" where
  "finish_handshake conf rq media wi out r = (case check_wire conf wi r of
     Inl bad \<Rightarrow> (Handshake_Returns False, out @ [bad], r)
   | Inr r1 \<Rightarrow> (case check_blob conf rq media r1 of
       None \<Rightarrow> (Handshake_Returns False, out @ [handshake_error Code_UNSUPPORTED_OPERATION
         (''the requested blob transfer method ('' @ media_labels media @ '') is unavailable'')], r1)
     | Some (blob, r2) \<Rightarrow> (Handshake_Returns True,
         out @ [Handshake_Success (sii_id (res_session_info r2))
           (sii_user_name_opt (res_session_info r2)) blob], r2)))"

definition set_client_information :: "string \<Rightarrow> string \<Rightarrow> endpoint_resources \<Rightarrow> endpoint_resources" where
  "set_client_information label app r = r\<lparr>res_session_info :=
     (res_session_info r)\<lparr>sii_connection_label := label, sii_application_name := app\<rparr>\<rparr>"

definition perform_handshake :: "endpoint_configuration \<Rightarrow> int \<Rightarrow> endpoint_request \<Rightarrow> string \<Rightarrow>
    string \<Rightarrow> credential \<Rightarrow> blob_transfer_medium list \<Rightarrow> wire_information \<Rightarrow>
    endpoint_resources \<Rightarrow> handshake_outcome" where
  "perform_handshake conf now rq label app cred media wi r =
     (if label \<noteq> [] \<and> hd label = CHR '':''
      then (Handshake_Returns False,
        [handshake_error Code_INVALID_REQUEST ''invalid connection label''], r)
      else (case check_credential conf now cred (set_client_information label app r) of
          (ok, out, r1) \<Rightarrow>
            if ok then finish_handshake conf rq media wi out r1
            else (Handshake_Returns False, out, r1)))"

definition handshake :: "endpoint_configuration \<Rightarrow> int \<Rightarrow> u64 \<Rightarrow> endpoint_request option \<Rightarrow>
    endpoint_resources \<Rightarrow> handshake_outcome" where
  "handshake conf now service_id parsed r =
     (if service_id \<noteq> service_id_endpoint_broker
      then (Handshake_Returns False, [handshake_error Code_ILLEGAL_STATE
        (''handshake operation is required to establish sessions (service ID='' @
         to_string service_id @ '').'' @ [CHR 0x0A] @
         ''see https://github.com/project-tsurugi/tsurugidb/blob/master/docs/upgrade-guide.md#handshake-required'')], r)
      else (case parsed of
          None \<Rightarrow> (Handshake_Returns False,
            [handshake_error Code_INVALID_REQUEST ''request parse error''], r)
        | Some rq \<Rightarrow>
            if unsupported_version rq
            then (Handshake_Returns False,
              [handshake_error Code_INVALID_REQUEST ''unsupported service message version''], r)
            else (case endpoint_command rq of
                Encryption_Key \<Rightarrow> reply_encryption_key conf r
              | Handshake label app cred media wi \<Rightarrow>
                  perform_handshake conf now rq label app cred media wi r
              | c \<Rightarrow> (Handshake_Returns False, [handshake_error Code_INVALID_REQUEST
                  (''bad request (handshake in endpoint): '' @ to_string (command_case c))], r))))"

section \<open>Requests to the endpoint broker\<close>

text \<open>
  A renewal of the authentication: the error message (empty for none), the code, and the timer.
\<close>

definition verify_renewal :: "auth_adapter option \<Rightarrow> int \<Rightarrow> credential \<Rightarrow>
    string option \<times> string \<times> diagnostics_code" where
  "verify_renewal b now cred = (case cred of
     Encrypted_Credential c \<Rightarrow> (case bridge_verify_encrypted b c of
         Inr (Some n) \<Rightarrow> (Some n, [], Code_AUTHENTICATION_ERROR)
       | Inr None \<Rightarrow> (None, ''user or password is incorrect'', Code_AUTHENTICATION_ERROR)
       | Inl (Auth_Exception what code) \<Rightarrow> (None, what, Code_AUTHENTICATION_ERROR))
   | Remember_Me_Credential c \<Rightarrow> (case bridge_verify_token b now c of
         Inr (Some n) \<Rightarrow> (Some n, [], Code_AUTHENTICATION_ERROR)
       | Inr None \<Rightarrow> (None, ''token is incorrect'', Code_AUTHENTICATION_ERROR)
       | Inl (Auth_Exception what (Some c)) \<Rightarrow> (None, ''token is incorrect: '' @ what, c)
       | Inl (Auth_Exception what None) \<Rightarrow> (None, [], Code_AUTHENTICATION_ERROR))
   | Credential_Not_Set \<Rightarrow> (None, ''no credential'', Code_AUTHENTICATION_ERROR))"

definition update_authentication :: "endpoint_configuration \<Rightarrow> int \<Rightarrow> credential \<Rightarrow>
    endpoint_resources \<Rightarrow> endpoint_reply \<times> endpoint_resources" where
  "update_authentication conf now cred r = (case conf_auth conf of
     None \<Rightarrow> (Update_Success, r)
   | Some b \<Rightarrow> (case verify_renewal b now cred of (user, err, code) \<Rightarrow>
       (let err = (case user of
            Some n \<Rightarrow> if Some n \<noteq> sii_user_name_opt (res_session_info r)
              then ''UpdateAuthentication with differnt user'' else err
          | None \<Rightarrow> err) in
        if err = []
        then (Update_Success,
          r\<lparr>authentication_timer := timer_update (authentication_timer r) now False\<rparr>)
        else (Update_Error code err, r))))"

definition get_authentication_expiration :: "endpoint_configuration \<Rightarrow> endpoint_resources \<Rightarrow>
    endpoint_reply" where
  "get_authentication_expiration conf r = (case conf_auth conf of
     Some b \<Rightarrow> (let ne = timer_next_expiration (authentication_timer r) in
         if ne > 0 then Expiration_Success ne
         else Expiration_Error Code_UNSUPPORTED_OPERATION ''authentication expiration timer is off'')
   | None \<Rightarrow> Expiration_Error Code_UNSUPPORTED_OPERATION ''authentication is off'')"

text \<open>
  What the worker does with a request to the broker: its return value, the replies, whether the
  request in the slot is to be cancelled, and the resources.
\<close>

definition endpoint_service :: "endpoint_configuration \<Rightarrow> int \<Rightarrow> endpoint_request option \<Rightarrow>
    endpoint_resources \<Rightarrow> bool \<times> endpoint_reply list \<times> bool \<times> endpoint_resources" where
  "endpoint_service conf now parsed r = (case parsed of
     None \<Rightarrow> (False, [Diagnostics Code_INVALID_REQUEST ''request parse error''], False, r)
   | Some rq \<Rightarrow> (case endpoint_command rq of
       Cancel \<Rightarrow> (True, [], True, r)
     | Update_Authentication cred \<Rightarrow>
         (case update_authentication conf now cred r of (reply, r') \<Rightarrow> (True, [reply], False, r'))
     | Get_Authentication_Expiration_Time \<Rightarrow>
         (True, [get_authentication_expiration conf r], False, r)
     | c \<Rightarrow> (False, [Diagnostics Code_INVALID_REQUEST
         (''bad request for endpoint: '' @ to_string (command_case c))], False, r)))"

end
