(* ===== verification/Endpoint_Worker.thy ===== *)
theory Endpoint_Worker
  imports Endpoint_Service
begin

text \<open>
  The worker of a session after the handshake (\<^verbatim>\<open>endpoint/common/worker_common.h\<close>, the second
  loop of \<^verbatim>\<open>ipc_worker::run\<close>): its table of requests that are being processed, shutdown
  requests, the expiration of the session, and one round of its loop for every way a wait for
  the next request can end. The responses the worker sends are recorded in order.
\<close>

section \<open>State\<close>

text \<open>
  An entry of the table: the use counts of the shared pointers to the request and to the
  response, and the flags of the response.
\<close>

record reqres =
  request_uses :: nat
  response_uses :: nat
  response_completed :: bool
  response_data_channel :: bool
  response_cancel :: bool

definition response_is_completed :: "reqres \<Rightarrow> bool" where
  "response_is_completed e \<longleftrightarrow> response_completed e \<and> \<not> response_data_channel e"

definition response_do_cancel :: "reqres \<Rightarrow> reqres" where
  "response_do_cancel e = e\<lparr>response_cancel := True\<rparr>"

datatype worker_reply =
    Endpoint_Reply endpoint_reply
  | Error_Record diagnostics_code string
  | Shutdown_Reply
  | Update_Expiration_Reply

record endpoint_worker =
  reqreses :: "(u64 \<times> reqres) list"
  shutdown_response :: "u64 list"
  worker_shutdown :: shutdown_request_type
  worker_expiration :: "int option"
  enable_timeout :: bool
  refresh_timeout :: nat
  max_refresh_timeout :: nat
  cancel_requested_to_all_responses :: bool
  complete_shutdown_from_client :: bool
  expiration_notified :: bool
  resultsets_closed :: bool
  worker_resources :: endpoint_resources
  sent :: "(u64 \<times> worker_reply) list"

definition send :: "u64 \<Rightarrow> worker_reply \<Rightarrow> endpoint_worker \<Rightarrow> endpoint_worker" where
  "send slot m w = w\<lparr>sent := sent w @ [(slot, m)]\<rparr>"

section \<open>The table of requests\<close>

definition reqres_erase :: "u64 \<Rightarrow> (u64 \<times> reqres) list \<Rightarrow> (u64 \<times> reqres) list" where
  "reqres_erase slot es = filter (\<lambda>e. fst e \<noteq> slot) es"

definition remove_reqres :: "u64 \<Rightarrow> endpoint_worker \<Rightarrow> endpoint_worker" where
  "remove_reqres slot w = w\<lparr>reqreses := reqres_erase slot (reqreses w)\<rparr>"

text \<open>
  An error record completes the response, whose clean-up removes the request of its slot.
\<close>

definition notify_client :: "u64 \<Rightarrow> diagnostics_code \<Rightarrow> string \<Rightarrow> endpoint_worker \<Rightarrow> endpoint_worker" where
  "notify_client slot code msg w = remove_reqres slot (send slot (Error_Record code msg) w)"

definition register_reqres :: "u64 \<Rightarrow> reqres \<Rightarrow> string option \<Rightarrow> endpoint_worker \<Rightarrow>
    bool \<times> endpoint_worker" where
  "register_reqres slot e blob_error w =
     (let w = w\<lparr>reqreses := insort_key fst (slot, e) (reqres_erase slot (reqreses w))\<rparr> in
      case blob_error of
        Some msg \<Rightarrow> (False, notify_client slot Code_OPERATION_DENIED msg w)
      | None \<Rightarrow> (True, w))"

text \<open>
  \<^verbatim>\<open>foreach_reqreses\<close>: entries in use elsewhere are visited, entries nobody uses are erased.
\<close>

definition visited :: "reqres \<Rightarrow> bool" where
  "visited e \<longleftrightarrow> response_uses e > 1"

definition foreach_reqreses :: "(reqres \<Rightarrow> reqres) \<Rightarrow> endpoint_worker \<Rightarrow> endpoint_worker" where
  "foreach_reqreses f w = w\<lparr>reqreses :=
     map (\<lambda>(slot, e). (slot, if visited e then f e else e))
       (filter (\<lambda>(slot, e). visited e \<or> request_uses e \<noteq> 1) (reqreses w))\<rparr>"

text \<open>The check whether a response is incomplete visits the entries, and erases as every visit does.\<close>

definition has_incomplete_response :: "endpoint_worker \<Rightarrow> bool \<times> endpoint_worker" where
  "has_incomplete_response w =
     (list_ex (\<lambda>(slot, e). visited e \<and> \<not> response_is_completed e) (reqreses w),
      foreach_reqreses (\<lambda>e. e) w)"

definition is_all_request_completed :: "bool \<Rightarrow> endpoint_worker \<Rightarrow> bool \<times> endpoint_worker" where
  "is_all_request_completed incomplete_resultset w = (case has_incomplete_response w of
     (incomplete, w') \<Rightarrow> (\<not> incomplete \<and> \<not> incomplete_resultset, w'))"

definition is_quiet :: "bool \<Rightarrow> bool \<Rightarrow> endpoint_worker \<Rightarrow> bool \<times> endpoint_worker" where
  "is_quiet terminated incomplete_resultset w =
     (case is_all_request_completed incomplete_resultset w of
        (all, w') \<Rightarrow> (all \<and> terminated, w'))"

text \<open>The slots \<^verbatim>\<open>foreach_request\<close> calls its callback for: those whose request is in use.\<close>

definition foreach_request :: "endpoint_worker \<Rightarrow> u64 list" where
  "foreach_request w = map fst (filter (\<lambda>(slot, e). request_uses e > 1) (reqreses w))"

text \<open>Nobody but the table holds the request or the response.\<close>

definition dissipated :: "reqres \<Rightarrow> bool" where
  "dissipated e \<longleftrightarrow> request_uses e = 1 \<and> response_uses e = 1"

definition care_reqreses :: "endpoint_worker \<Rightarrow> endpoint_worker" where
  "care_reqreses w =
     (let targets = filter (\<lambda>(slot, e). dissipated e \<and> \<not> response_is_completed e) (reqreses w);
          w = w\<lparr>reqreses := filter (\<lambda>(slot, e). \<not> dissipated e) (reqreses w)\<rparr>
      in fold (\<lambda>(slot, e). notify_client slot Code_UNKNOWN ''request dissipated'') targets w)"

definition is_completed :: "bool \<Rightarrow> endpoint_worker \<Rightarrow> bool" where
  "is_completed incomplete_resultset w \<longleftrightarrow>
     \<not> incomplete_resultset \<and>
     (if shutdown_response w = [] then reqreses w = []
      else list_all (\<lambda>(slot, e). slot \<in> set (shutdown_response w)) (reqreses w))"

section \<open>Shutdown\<close>

definition cancel_all :: "endpoint_worker \<Rightarrow> endpoint_worker" where
  "cancel_all w =
     (if cancel_requested_to_all_responses w then w
      else (foreach_reqreses response_do_cancel w)\<lparr>cancel_requested_to_all_responses := True\<rparr>)"

definition worker_request_shutdown :: "shutdown_request_type \<Rightarrow> endpoint_worker \<Rightarrow> endpoint_worker" where
  "worker_request_shutdown t w =
     (let w = if t = Shutdown_Forceful then cancel_all w else w in
      w\<lparr>worker_shutdown := snd (request_shutdown t (worker_shutdown w))\<rparr>)"

definition check_shutdown_request :: "endpoint_worker \<Rightarrow> bool \<times> endpoint_worker" where
  "check_shutdown_request w =
     (let sr = worker_shutdown w;
          w = if sr = Shutdown_Forceful then cancel_all w else w
      in (sr = Shutdown_Graceful \<or> sr = Shutdown_Forceful, w))"

definition shutdown_complete :: "endpoint_worker \<Rightarrow> endpoint_worker" where
  "shutdown_complete w =
     (let targets = shutdown_response w; w = w\<lparr>shutdown_response := []\<rparr> in
      if targets = [] then w
      else (fold (\<lambda>slot w. remove_reqres slot (send slot Shutdown_Reply w)) targets w)
        \<lparr>complete_shutdown_from_client := True\<rparr>)"

section \<open>Expiration\<close>

text \<open>An expiration time is only ever moved to a later time.\<close>

definition extend_expiration :: "int \<Rightarrow> endpoint_worker \<Rightarrow> endpoint_worker" where
  "extend_expiration until w = (case worker_expiration w of
     Some e \<Rightarrow> if e < until then w\<lparr>worker_expiration := Some until\<rparr> else w
   | None \<Rightarrow> w)"

definition update_expiration_time :: "int \<Rightarrow> bool \<Rightarrow> endpoint_worker \<Rightarrow> endpoint_worker" where
  "update_expiration_time now forced w =
     (if enable_timeout w then
        (let new_until_time = now + 1000 * int (refresh_timeout w) in
         if forced then w\<lparr>worker_expiration := Some new_until_time\<rparr>
         else extend_expiration new_until_time w)
      else w)"

text \<open>The constructor, which starts the expiration time.\<close>

definition new_endpoint_worker :: "int \<Rightarrow> bool \<Rightarrow> nat \<Rightarrow> nat \<Rightarrow> endpoint_resources \<Rightarrow>
    endpoint_worker" where
  "new_endpoint_worker now timeout refresh max_refresh r =
     update_expiration_time now True
       \<lparr>reqreses = [], shutdown_response = [], worker_shutdown = Shutdown_Nothing,
        worker_expiration = None, enable_timeout = timeout, refresh_timeout = refresh,
        max_refresh_timeout = max_refresh, cancel_requested_to_all_responses = False,
        complete_shutdown_from_client = False, expiration_notified = False,
        resultsets_closed = False, worker_resources = r, sent = []\<rparr>"

definition is_expiration_time_over :: "endpoint_configuration \<Rightarrow> int \<Rightarrow> endpoint_worker \<Rightarrow> bool" where
  "is_expiration_time_over conf now w \<longleftrightarrow>
     (case worker_expiration w of Some e \<Rightarrow> now > e | None \<Rightarrow> False) \<or>
     conf_auth conf \<noteq> None \<and> timer_is_over (authentication_timer (worker_resources w)) now"

section \<open>Requests to the core service\<close>

datatype core_command =
    Core_Shutdown session_shutdown_type
  | Core_Update_Expiration_Time "u64 option"
  | Core_Command_Not_Set

definition requested_expiration :: "endpoint_worker \<Rightarrow> u64 \<Rightarrow> int" where
  "requested_expiration w et =
     (let e = sint et;
          e = if 1000 * int (refresh_timeout w) > e then 1000 * int (refresh_timeout w) else e
      in if e > 1000 * int (max_refresh_timeout w) then 1000 * int (max_refresh_timeout w) else e)"

text \<open>
  \<^verbatim>\<open>routing_service_chain\<close>: whether the worker handled the request. An answered request is
  removed from the table by the clean-up of its response; a shutdown is answered when the
  worker has completed it.
\<close>

definition routing_service_chain :: "int \<Rightarrow> core_command option \<Rightarrow> u64 \<Rightarrow> endpoint_worker \<Rightarrow>
    bool \<times> endpoint_worker" where
  "routing_service_chain now parsed index w = (case parsed of
     None \<Rightarrow> (False, notify_client index Code_INVALID_REQUEST ''request parse error'' w)
   | Some (Core_Shutdown t) \<Rightarrow>
       (case t of
          Unknown_Shutdown_Type n \<Rightarrow> (False, w)
        | _ \<Rightarrow>
            (let w = w\<lparr>resultsets_closed := True\<rparr>;
                 w = worker_request_shutdown
                   (if t = GRACEFUL then Shutdown_Graceful else Shutdown_Forceful) w
             in (True, w\<lparr>shutdown_response :=
               (if index \<in> set (shutdown_response w) then shutdown_response w
                else insort index (shutdown_response w))\<rparr>)))
   | Some (Core_Update_Expiration_Time et) \<Rightarrow>
       (let w = (case et of
            Some e \<Rightarrow> extend_expiration (now + requested_expiration w e) w
          | None \<Rightarrow> update_expiration_time now False w)
        in (True, remove_reqres index (send index Update_Expiration_Reply w)))
   | Some Core_Command_Not_Set \<Rightarrow> (False, w))"

section \<open>The loop of the IPC worker\<close>

text \<open>
  How the wait for a request ends, with the time and whether a result set is still incomplete:
  without a request, with the request to disconnect, with a request whose header cannot be read,
  or with a message for a slot. A message
  says what the services the worker calls answer: the error about the blobs of the request, and
  the result of the service.
\<close>

datatype message =
    To_Endpoint "endpoint_request option"
  | To_Core "core_command option" reqres "string option" bool
  | To_Service reqres "string option" bool

datatype worker_event =
    No_Request int bool
  | Terminate_Request bool
  | Malformed_Request int
  | Message int bool u64 message

definition end_if_completed :: "bool \<Rightarrow> endpoint_worker \<Rightarrow> bool \<times> endpoint_worker" where
  "end_if_completed busy w = (case check_shutdown_request w of
     (asked, w') \<Rightarrow> (\<not> (asked \<and> is_completed busy w'), w'))"

definition after_expiration :: "endpoint_configuration \<Rightarrow> int \<Rightarrow> endpoint_worker \<Rightarrow> endpoint_worker" where
  "after_expiration conf now w =
     (if \<not> expiration_notified w \<and> is_expiration_time_over conf now w
      then (worker_request_shutdown Shutdown_Forceful (w\<lparr>resultsets_closed := True\<rparr>))
        \<lparr>expiration_notified := True\<rparr>
      else w)"

fun ipc_round :: "endpoint_configuration \<Rightarrow> endpoint_worker \<Rightarrow> worker_event \<Rightarrow>
    bool \<times> endpoint_worker" where
  "ipc_round conf w (No_Request now busy) =
     (case end_if_completed busy (care_reqreses w) of
        (False, w') \<Rightarrow> (False, w')
      | (True, w') \<Rightarrow> (True, after_expiration conf now w'))"
| "ipc_round conf w (Terminate_Request busy) =
     end_if_completed busy (care_reqreses (worker_request_shutdown Shutdown_Forceful w))"
| "ipc_round conf w (Malformed_Request now) = (False, update_expiration_time now False w)"
| "ipc_round conf w (Message now busy index (To_Endpoint rq)) =
     (let w = update_expiration_time now False w in
      case endpoint_service conf now rq (worker_resources w) of
        (ok, outs, cancel, r) \<Rightarrow>
          (let w = w\<lparr>worker_resources := r\<rparr>;
               w = fold (\<lambda>m. send index (Endpoint_Reply m)) outs w;
               w = (if cancel
                 then w\<lparr>reqreses := map (\<lambda>(s, e). (s, if s = index then response_do_cancel e else e))
                   (reqreses w)\<rparr> else w)
           in (ok, w)))"
| "ipc_round conf w (Message now busy index (To_Core cmd e blob_error service_ok)) =
     (let w = update_expiration_time now False w in
      case register_reqres index e blob_error w of
        (False, w) \<Rightarrow> (True, w)
      | (True, w) \<Rightarrow>
          (case routing_service_chain now cmd index w of
             (True, w) \<Rightarrow> end_if_completed busy (care_reqreses w)
           | (False, w) \<Rightarrow> (service_ok, w)))"
| "ipc_round conf w (Message now busy index (To_Service e blob_error service_ok)) =
     (let w = update_expiration_time now False w in
      case check_shutdown_request w of
        (True, w) \<Rightarrow> (True, notify_client index Code_SESSION_CLOSED
          ''this session is already shutdown'' w)
      | (False, w) \<Rightarrow>
          (case register_reqres index e blob_error w of
             (False, w) \<Rightarrow> (True, w)
           | (True, w) \<Rightarrow> (service_ok, w)))"

end
