(* ===== verification/Endpoint_Properties.thy ===== *)
theory Endpoint_Properties
  imports Endpoint_Service
begin

text \<open>
  Properties of the endpoint broker: what a session that passed the handshake is, what a
  rejected password leads to, when a renewal of the authentication succeeds, and which user
  names get through.
\<close>

section \<open>The steps of a handshake\<close>

definition verified :: "auth_adapter option \<Rightarrow> int \<Rightarrow> credential \<Rightarrow> string \<Rightarrow> bool" where
  "verified b now cred n = (case cred of
     Encrypted_Credential c \<Rightarrow> bridge_verify_encrypted b c = Inr (Some n)
   | Remember_Me_Credential c \<Rightarrow> bridge_verify_token b now c = Inr (Some n)
   | Credential_Not_Set \<Rightarrow> False)"

definition rejected_password :: "auth_adapter option \<Rightarrow> credential \<Rightarrow> bool" where
  "rejected_password b cred \<longleftrightarrow> (\<exists>c. cred = Encrypted_Credential c \<and> bridge_verify_encrypted b c = Inr None)"

definition user_of :: "endpoint_resources \<Rightarrow> string option" where
  "user_of r = sii_user_name_opt (res_session_info r)"

definition label_of :: "endpoint_resources \<Rightarrow> string" where
  "label_of r = sii_connection_label (res_session_info r)"

lemma user_of_set [simp]:
  "user_of (set_user_name n r) = Some n" "label_of (set_user_name n r) = label_of r"
  "res_blob_transfer (set_user_name n r) = res_blob_transfer r"
  by (simp_all add: user_of_def label_of_def set_user_name_def)

lemma check_credential_on:
  assumes "check_credential conf now cred r = (True, out, r')" and "conf_auth conf = Some b"
  shows "(\<exists>n. verified b now cred n \<and> r' = set_user_name n r \<and> out = []) \<or>
    rejected_password b cred \<and> r' = r \<and>
      out = [Handshake_Error Code_AUTHENTICATION_ERROR ''user or password is incorrect'']"
  using assms
  by (auto simp: check_credential_def verified_def rejected_password_def handshake_error_def
      split: credential.splits sum.splits option.splits auth_exception.splits)

lemma check_credential_off:
  "conf_auth conf = None \<Longrightarrow> check_credential conf now cred r = (True, [], r)"
  by (simp add: check_credential_def)

lemma check_wire_frame:
  assumes "check_wire conf wi r = Inr r'"
  shows "user_of r' = user_of r" "label_of r' = label_of r"
    "res_blob_transfer r' = res_blob_transfer r"
    "sii_id (res_session_info r') = sii_id (res_session_info r)"
    "sii_administrators (res_session_info r') = sii_administrators (res_session_info r)"
  using assms by (auto simp: check_wire_def user_of_def label_of_def Let_def
      split: connection_type.splits wire_information.splits)

lemma choose_medium_props:
  assumes "choose_medium conf media r = Some (blob, r')"
  shows "res_session_info r' = res_session_info r"
    and "res_blob_transfer r' = Privileged \<Longrightarrow> allow_blob_privileged conf \<or> res_blob_transfer r = Privileged"
    and "res_blob_transfer r' = Blob_Relay_Streaming \<Longrightarrow>
      blob_relay_enabled conf \<and> blob_relay_session conf \<noteq> None \<or> res_blob_transfer r = Blob_Relay_Streaming"
  using assms
  by (induction media) (auto split: blob_transfer_medium.splits option.splits if_splits)

lemma check_blob_props:
  assumes "check_blob conf rq media r = Some (blob, r')"
  shows "res_session_info r' = res_session_info r"
    and "res_blob_transfer r' = Privileged \<Longrightarrow> allow_blob_privileged conf \<or> res_blob_transfer r = Privileged"
    and "res_blob_transfer r' = Blob_Relay_Streaming \<Longrightarrow>
      blob_relay_enabled conf \<and> blob_relay_session conf \<noteq> None \<or> res_blob_transfer r = Blob_Relay_Streaming"
  using assms choose_medium_props [of conf media r blob r']
  by (auto simp: check_blob_def split: if_splits)

text \<open>A handshake that succeeds went through every step.\<close>

lemma finish_handshake_True:
  assumes "finish_handshake conf rq media wi out1 r = (Handshake_Returns True, out, r')"
  obtains r1 blob where "check_wire conf wi r = Inr r1"
    and "check_blob conf rq media r1 = Some (blob, r')"
    and "out = out1 @ [Handshake_Success (sii_id (res_session_info r')) (user_of r') blob]"
  using assms by (auto simp: finish_handshake_def user_of_def split: sum.splits option.splits)

lemma perform_handshake_True:
  assumes "perform_handshake conf now rq label app cred media wi r = (Handshake_Returns True, out, r')"
  obtains out1 r1 where "label = [] \<or> hd label \<noteq> CHR '':''"
    and "check_credential conf now cred (set_client_information label app r) = (True, out1, r1)"
    and "finish_handshake conf rq media wi out1 r1 = (Handshake_Returns True, out, r')"
  using assms by (auto simp: perform_handshake_def split: if_splits prod.splits)

lemma handshake_True:
  assumes "handshake conf now sid parsed r = (Handshake_Returns True, out, r')"
  obtains rq label app cred media wi where "parsed = Some rq" and "\<not> unsupported_version rq"
    and "endpoint_command rq = Handshake label app cred media wi"
    and "perform_handshake conf now rq label app cred media wi r = (Handshake_Returns True, out, r')"
  using assms by (auto simp: handshake_def reply_encryption_key_def
      split: if_splits endpoint_command.splits option.splits sum.splits auth_exception.splits)

lemma set_client_information_simps [simp]:
  "user_of (set_client_information label app r) = user_of r"
  "label_of (set_client_information label app r) = label"
  "res_blob_transfer (set_client_information label app r) = res_blob_transfer r"
  by (simp_all add: set_client_information_def user_of_def label_of_def)

lemma check_username_Some:
  assumes "check_username m = Inr (Some n)"
  shows "length n \<le> 1024 \<and> list_all username_char n \<and>
    (n \<noteq> [] \<longrightarrow> \<not> isspace (hd n) \<and> \<not> isspace (last n))"
proof (cases m)
  case None
  then show ?thesis using assms by (simp add: check_username_def)
next
  case (Some name)
  then show ?thesis
    using assms unfolding check_username_def MAXIMUM_USERNAME_LENGTH_def option.case
    by (simp split: if_splits) blast
qed

lemma adapter_token_Some:
  assumes "adapter_verify_token a now token = Inr (Some n)"
  shows "\<exists>key ty t. adapter_key a = Some (ty, key) \<and>
    jwt_expiration_time (jwt_decode a token key) = Some t \<and> now div 1000 < t \<and>
    check_username (jwt_auth_name (jwt_decode a token key)) = Inr (Some n)"
proof -
  obtain t0 where "client_verify_token a token = Inr (Some t0)" and on: "adapter_enabled a"
    using assms unfolding adapter_verify_token_def by (simp split: if_splits sum.splits option.splits)
  moreover from this obtain ty key where key: "adapter_key a = Some (ty, key)"
    using assms unfolding adapter_verify_token_def by (simp split: option.splits prod.splits)
  ultimately show ?thesis
    using assms unfolding adapter_verify_token_def Let_def
    by (cases "jwt_expiration_time (jwt_decode a token key)") (simp_all split: token_type.splits if_splits)
qed

lemma adapter_encrypted_Some:
  assumes "adapter_verify_encrypted a credential = Inr (Some n)"
  shows "\<exists>m. check_username m = Inr (Some n)"
  using assms unfolding adapter_verify_encrypted_def
  by (simp split: if_splits sum.splits option.splits prod.splits) blast

section \<open>Theorems\<close>

text \<open>
  C16. A session that passes the handshake: its label does not begin with a colon, so no label is
  taken for a numeric session specifier; the last reply is the success with its user; with
  authentication on, the user is one the authentication service verified, unless the encrypted
  credential was rejected and the client got an error first; blobs are only passed in a way the
  configuration allows.
\<close>

theorem handshake_sound:
  assumes "handshake conf now sid parsed r = (Handshake_Returns True, out, r')"
    and "res_blob_transfer r = Does_Not_Use"
  shows "(label_of r' = [] \<or> hd (label_of r') \<noteq> CHR '':'') \<and>
    (\<exists>blob. last out = Handshake_Success (sii_id (res_session_info r')) (user_of r') blob) \<and>
    (\<exists>rq label app cred media wi. parsed = Some rq \<and>
      endpoint_command rq = Handshake label app cred media wi \<and>
      (\<forall>b. conf_auth conf = Some b \<longrightarrow>
        (\<exists>n. verified b now cred n \<and> user_of r' = Some n \<and> length out = 1) \<or>
        rejected_password b cred \<and> user_of r' = user_of r \<and> length out = 2)) \<and>
    (res_blob_transfer r' = Privileged \<longrightarrow> allow_blob_privileged conf) \<and>
    (res_blob_transfer r' = Blob_Relay_Streaming \<longrightarrow>
      blob_relay_enabled conf \<and> blob_relay_session conf \<noteq> None)"
proof -
  obtain rq label app cred media wi where rq: "parsed = Some rq"
    "endpoint_command rq = Handshake label app cred media wi"
    and "perform_handshake conf now rq label app cred media wi r = (Handshake_Returns True, out, r')"
    using assms(1) by (rule handshake_True)
  then obtain out1 r1 where label: "label = [] \<or> hd label \<noteq> CHR '':''"
    and cred: "check_credential conf now cred (set_client_information label app r) = (True, out1, r1)"
    and "finish_handshake conf rq media wi out1 r1 = (Handshake_Returns True, out, r')"
    by (elim perform_handshake_True)
  then obtain r2 blob where wire: "check_wire conf wi r1 = Inr r2"
    and blob: "check_blob conf rq media r2 = Some (blob, r')"
    and out: "out = out1 @ [Handshake_Success (sii_id (res_session_info r')) (user_of r') blob]"
    by (elim finish_handshake_True)
  note frames = check_wire_frame [OF wire] check_blob_props(1) [OF blob]
  have r': "user_of r' = user_of r1" "label_of r' = label_of r1"
    using frames by (simp_all add: user_of_def label_of_def)
  have r1: "label_of r1 = label \<and> res_blob_transfer r1 = Does_Not_Use"
    using cred assms(2) check_credential_on [OF cred] check_credential_off [of conf now cred]
    by (cases "conf_auth conf") auto
  have "(\<exists>n. verified b now cred n \<and> user_of r' = Some n \<and> length out = 1) \<or>
      rejected_password b cred \<and> user_of r' = user_of r \<and> length out = 2" if "conf_auth conf = Some b" for b
    using check_credential_on [OF cred that] by (auto simp: r' out)
  then show ?thesis
    using rq label r' r1 frames(3) check_blob_props(2,3) [OF blob] by (auto simp: out)
qed

text \<open>Concrete parameters: a service that knows one user, and a worker of an IPC session.\<close>

definition sample_adapter :: auth_adapter where
  "sample_adapter = \<lparr>adapter_enabled = True, adapter_key = Some (''RSA'', ''key''),
     client_verify_token = (\<lambda>t. Inr (Some t)),
     client_verify_encrypted = (\<lambda>c. if c = ''good'' then Inr (Some ''token'') else Inr None),
     jwt_decode = (\<lambda>t k. Some \<lparr>jwt_name = Some ''alice'', jwt_exp = Some 100, jwt_sub = None\<rparr>)\<rparr>"

definition sample_configuration :: endpoint_configuration where
  "sample_configuration = \<lparr>conf_connection = Connection_Ipc, conf_auth = Some (Some sample_adapter),
     allow_blob_privileged = False, blob_relay_enabled = False, blob_relay_session = None,
     blob_relay_endpoint = [], blob_relay_secure = False, blob_relay_streaming_params = []\<rparr>"

definition sample_resources :: endpoint_resources where
  "sample_resources = \<lparr>res_session_info = new_session_info_impl 3 ''ipc'' []
       \<lparr>admin_names = {''root''}, no_authentication = False\<rparr> 0,
     res_blob_session = None, res_blob_transfer = Does_Not_Use, max_result_sets = 0,
     authentication_timer = new_alive_timer 60 0\<rparr>"

definition sample_handshake :: "string \<Rightarrow> endpoint_request" where
  "sample_handshake c = \<lparr>service_message_version_major = 0, service_message_version_minor = 2,
     endpoint_command = Handshake ''label'' ''app'' (Encrypted_Credential c) [DOES_NOT_USE]
       (Ipc_Information ''1234'')\<rparr>"

lemmas sample_defs = sample_adapter_def sample_configuration_def sample_resources_def
  sample_handshake_def new_session_info_impl_def

lemma sample_users:
  "bridge_verify_encrypted (Some sample_adapter) ''good'' = Inr (Some ''alice'')"
  "bridge_verify_encrypted (Some sample_adapter) ''bad'' = Inr None"
  by code_simp+

lemma sample_run:
  "\<exists>out r. handshake sample_configuration 0 1 (Some (sample_handshake ''good'')) sample_resources =
    (Handshake_Returns True, out, r)"
  by (simp add: handshake_def service_id_endpoint_broker_def unsupported_version_def Let_def
      ENDPOINT_BROKER_SERVICE_MESSAGE_VERSION_MAJOR_def ENDPOINT_BROKER_SERVICE_MESSAGE_VERSION_MINOR_def
      perform_handshake_def check_credential_def finish_handshake_def check_wire_def check_blob_def
      sample_users sample_configuration_def sample_handshake_def)

theorem handshake_sound_witness:
  "\<exists>out r. handshake sample_configuration 0 1 (Some (sample_handshake ''good'')) sample_resources =
    (Handshake_Returns True, out, r) \<and> user_of r = Some ''alice''"
proof -
  obtain out r where run: "handshake sample_configuration 0 1 (Some (sample_handshake ''good''))
      sample_resources = (Handshake_Returns True, out, r)"
    using sample_run by blast
  have "res_blob_transfer sample_resources = Does_Not_Use"
    by (simp add: sample_resources_def)
  from handshake_sound [OF run this] have "user_of r = Some ''alice''"
    by (auto simp: sample_configuration_def sample_handshake_def verified_def rejected_password_def
        sample_users)
  then show ?thesis using run by blast
qed

text \<open>
  C34. A rejected password does not end the handshake: when the authentication service answers that
  the encrypted credential is not valid, the client gets the error and then the success; the
  session goes on without a user, and a session without a user counts as one of an
  administrator: it may access every session of the server.
\<close>

theorem rejected_password_administrator:
  assumes "conf_auth conf = Some b" and "bridge_verify_encrypted b c = Inr None"
    and "endpoint_command rq = Handshake label app (Encrypted_Credential c) media wi"
    and "\<not> unsupported_version rq" and "label = [] \<or> hd label \<noteq> CHR '':''"
    and "check_wire conf wi (set_client_information label app r) = Inr r1"
    and "check_blob conf rq media r1 = Some (blob, r2)" and "user_of r = None"
  shows "handshake conf now service_id_endpoint_broker (Some rq) r =
      (Handshake_Returns True,
       [Handshake_Error Code_AUTHENTICATION_ERROR ''user or password is incorrect'',
        Handshake_Success (sii_id (res_session_info r2)) None blob], r2) \<and>
    permitted (session_info_of (res_session_info r2)) info"
proof -
  have "user_of r2 = None"
    using assms(8) check_wire_frame(1) [OF assms(6)] check_blob_props(1) [OF assms(7)]
    by (simp add: user_of_def set_client_information_def)
  then have "sii_user_name_opt (res_session_info r2) = None"
    by (simp add: user_of_def)
  moreover have "handshake conf now service_id_endpoint_broker (Some rq) r =
      perform_handshake conf now rq label app (Encrypted_Credential c) media wi r"
    using assms(3,4) by (simp add: handshake_def)
  ultimately show ?thesis
    using assms(1,2,5,6,7)
    by (auto simp: perform_handshake_def check_credential_def finish_handshake_def handshake_error_def
        permitted_def session_info_of_def sii_user_type_def)
qed

theorem rejected_password_administrator_witness:
  "\<exists>out r. handshake sample_configuration 0 service_id_endpoint_broker
      (Some (sample_handshake ''bad'')) sample_resources = (Handshake_Returns True, out, r) \<and>
    permitted (session_info_of (res_session_info r)) (session_info_of (res_session_info sample_resources))"
proof -
  let ?r = "set_client_information ''label'' ''app'' sample_resources"
  obtain r1 where "check_wire sample_configuration (Ipc_Information ''1234'') ?r = Inr r1"
    by (simp add: check_wire_def sample_configuration_def)
  moreover have "check_blob sample_configuration (sample_handshake ''bad'') [DOES_NOT_USE] r1 =
      Some (No_Blob_Reply, r1)"
    by (simp add: check_blob_def sample_handshake_def)
  ultimately show ?thesis
    using rejected_password_administrator [of sample_configuration "Some sample_adapter" "''bad''"
        "sample_handshake ''bad''" "''label''" "''app''" "[DOES_NOT_USE]" "Ipc_Information ''1234''"
        sample_resources r1 No_Blob_Reply r1 0 "session_info_of (res_session_info sample_resources)"]
    by (auto simp: sample_users(2) sample_configuration_def sample_handshake_def user_of_def
        unsupported_version_def ENDPOINT_BROKER_SERVICE_MESSAGE_VERSION_MAJOR_def
        ENDPOINT_BROKER_SERVICE_MESSAGE_VERSION_MINOR_def sample_resources_def
        new_session_info_impl_def)
qed

text \<open>
  C24. When a renewal of the authentication succeeds: exactly when the service verifies the
  credential for the user of the session, or when its answer is an exception without a message
  to report: one of \<^verbatim>\<open>verify_token\<close> that carries no code (as \<^verbatim>\<open>"verify failed"\<close> and an expired token
  without a type do), or one of \<^verbatim>\<open>verify_encrypted\<close> with an empty message. A success prolongs the
  authentication.
\<close>

theorem renewal_accepted_iff:
  assumes "conf_auth conf = Some b" and "user_of r = Some n"
    and "update_authentication conf now cred r = (reply, r')"
  shows "(reply = Update_Success \<longleftrightarrow> verified b now cred n \<or>
      (\<exists>c what. cred = Remember_Me_Credential c \<and>
        bridge_verify_token b now c = Inl (Auth_Exception what None)) \<or>
      (\<exists>c code. cred = Encrypted_Credential c \<and>
        bridge_verify_encrypted b c = Inl (Auth_Exception [] code))) \<and>
    r' = (if reply = Update_Success
      then r\<lparr>authentication_timer := timer_update (authentication_timer r) now False\<rparr> else r)"
  using assms
  by (cases cred) (auto simp: update_authentication_def verify_renewal_def verified_def user_of_def
      split: sum.splits option.splits auth_exception.splits if_splits)

theorem renewal_accepted_iff_witness:
  "\<exists>r'. update_authentication sample_configuration 200000 (Remember_Me_Credential ''t'')
    (set_user_name ''alice'' sample_resources) = (Update_Success, r')"
proof -
  have "bridge_verify_token (Some sample_adapter) 200000 ''t'' =
      Inl (Auth_Exception ''token already expired'' None)"
    by code_simp
  moreover obtain reply r' where run: "update_authentication sample_configuration 200000
      (Remember_Me_Credential ''t'') (set_user_name ''alice'' sample_resources) = (reply, r')" by force
  ultimately show ?thesis
    using renewal_accepted_iff [OF _ _ run, of "Some sample_adapter" "''alice''"]
    by (auto simp: sample_configuration_def)
qed

text \<open>
  The names that get through: a user the adapter names has at most 1024 characters, all of
  them printable, and no white space at either end, whatever the service and the tokens say; and
  a token is only accepted before its expiration time.
\<close>

theorem accepted_user_name:
  assumes "adapter_verify_token a now token = Inr (Some n) \<or>
    adapter_verify_encrypted a credential = Inr (Some n)"
  shows "length n \<le> 1024 \<and> list_all username_char n \<and>
    (n \<noteq> [] \<longrightarrow> \<not> isspace (hd n) \<and> \<not> isspace (last n)) \<and>
    (adapter_verify_token a now token = Inr (Some n) \<longrightarrow>
      (\<exists>key ty t. adapter_key a = Some (ty, key) \<and>
        jwt_expiration_time (jwt_decode a token key) = Some t \<and> now div 1000 < t))"
  using assms adapter_token_Some [of a now token n] adapter_encrypted_Some [of a credential n]
    check_username_Some by blast

theorem accepted_user_name_witness:
  "adapter_verify_token sample_adapter 0 ''t'' = Inr (Some ''alice'') \<and> length ''alice'' \<le> 1024"
proof -
  have "adapter_verify_token sample_adapter 0 ''t'' = Inr (Some ''alice'')"
    by code_simp
  then show ?thesis
    using accepted_user_name [of sample_adapter 0 "''t''" "''alice''"] by simp
qed

end
