(* ===== verification/Worker_Properties.thy ===== *)
theory Worker_Properties
  imports Endpoint_Worker Endpoint_Properties "HOL-Library.Multiset"
begin

text \<open>
  Properties of the worker's loop: every request is answered exactly once when a session ends
  gracefully, how a forceful end can lose one, what a session that is being shut down answers,
  and the bounds of the expiration time.
\<close>

section \<open>The table\<close>

abbreviation slots :: "endpoint_worker \<Rightarrow> u64 list" where
  "slots w \<equiv> map fst (reqreses w)"

lemma reqres_erase_absent: "slot \<notin> fst ` set es \<Longrightarrow> reqres_erase slot es = es"
  by (auto simp: reqres_erase_def intro!: filter_True)

lemma fold_notify:
  "fold (\<lambda>(slot, e). notify_client slot c m) ts w =
    w\<lparr>reqreses := filter (\<lambda>e. fst e \<notin> fst ` set ts) (reqreses w),
      sent := sent w @ map (\<lambda>t. (fst t, Error_Record c m)) ts\<rparr>"
proof (induction ts arbitrary: w)
  case Nil
  then show ?case by simp
next
  case (Cons t ts)
  have "filter (\<lambda>e. fst e \<notin> fst ` set ts) (filter (\<lambda>e. fst e \<noteq> fst t) (reqreses w)) =
      filter (\<lambda>e. fst e \<notin> fst ` set (t # ts)) (reqreses w)"
    by (auto intro!: filter_cong)
  then show ?case
    using Cons.IH [of "notify_client (fst t) c m w"]
    by (simp add: split_beta notify_client_def send_def remove_reqres_def reqres_erase_def)
qed

definition fresh_table :: "endpoint_worker \<Rightarrow> bool" where
  "fresh_table w \<longleftrightarrow> distinct (slots w) \<and> (\<forall>e \<in> set (reqreses w). \<not> response_completed (snd e))"

lemma filter_other_slots:
  assumes "distinct (map fst es)"
  shows "filter (\<lambda>e. fst e \<notin> fst ` set (filter P es)) (filter (\<lambda>e. \<not> P e) es) = filter (\<lambda>e. \<not> P e) es"
proof (rule filter_True, rule ballI)
  fix e
  assume e: "e \<in> set (filter (\<lambda>e. \<not> P e) es)"
  show "fst e \<notin> fst ` set (filter P es)"
  proof
    assume "fst e \<in> fst ` set (filter P es)"
    then obtain e' where e': "e' \<in> set es" "P e'" "fst e' = fst e"
      by auto
    moreover have "e \<in> set es" "\<not> P e"
      using e by auto
    moreover have "inj_on fst (set es)"
      using assms by (simp add: distinct_map)
    ultimately show False
      by (metis inj_onD)
  qed
qed

lemma care_reqreses_eq:
  assumes "fresh_table w"
  shows "care_reqreses w = w\<lparr>reqreses := filter (\<lambda>e. \<not> dissipated (snd e)) (reqreses w),
    sent := sent w @ map (\<lambda>t. (fst t, Error_Record Code_UNKNOWN ''request dissipated''))
      (filter (\<lambda>e. dissipated (snd e)) (reqreses w))\<rparr>"
proof -
  have targets: "filter (\<lambda>(slot, e). dissipated e \<and> \<not> response_is_completed e) (reqreses w) =
      filter (\<lambda>e. dissipated (snd e)) (reqreses w)"
    using assms by (auto simp: fresh_table_def response_is_completed_def intro!: filter_cong)
  have keep: "filter (\<lambda>(slot, e). \<not> dissipated e) (reqreses w) =
      filter (\<lambda>e. \<not> dissipated (snd e)) (reqreses w)"
    by (auto intro!: filter_cong)
  show ?thesis
    unfolding care_reqreses_def targets keep Let_def fold_notify
    using filter_other_slots [of "reqreses w" "\<lambda>e. dissipated (snd e)"] assms
    by (simp add: fresh_table_def)
qed

lemma fresh_table_care:
  assumes "fresh_table w"
  shows "fresh_table (care_reqreses w)"
  using assms unfolding care_reqreses_eq [OF assms] fresh_table_def
  by (auto intro: distinct_map_filter)

section \<open>A graceful life\<close>

text \<open>
  The slots of the requests the worker answered. Replies to requests for the endpoint broker, which
  the worker answers on the spot and never enters in its table, are left out, as those requests
  are among the requests received.
\<close>

definition answered :: "endpoint_worker \<Rightarrow> u64 list" where
  "answered w = map fst (filter (\<lambda>(slot, m). \<forall>r. m \<noteq> Endpoint_Reply r) (sent w))"

record worker_system =
  sys_worker :: endpoint_worker
  received :: "u64 list"
  completed_by_service :: "u64 list"

fun graceful_message :: "message \<Rightarrow> bool" where
  "graceful_message (To_Endpoint rq) = False"
| "graceful_message (To_Core cmd e b ok) =
    (\<not> response_completed e \<and> \<not> dissipated e \<and> (\<forall>t. cmd = Some (Core_Shutdown t) \<longrightarrow> t = GRACEFUL \<or> (\<exists>n. t = Unknown_Shutdown_Type n)))"
| "graceful_message (To_Service e b ok) = (\<not> response_completed e)"

text \<open>
  Rounds of the worker that go on, and what the services do meanwhile: complete a response,
  whose clean-up removes the request, or take and release references. Shutdown requests are
  graceful ones (a shutdown type the worker does not know is passed to the service), the session
  does not expire, and the client does not use a slot for a second
  request before it has the answer to the first.
\<close>

inductive graceful_step :: "endpoint_configuration \<Rightarrow> worker_system \<Rightarrow> worker_system \<Rightarrow> bool"
  for conf where
  request_received: "graceful_message m \<Longrightarrow> index \<notin> set (slots (sys_worker s)) \<Longrightarrow>
    ipc_round conf (sys_worker s) (Message now busy index m) = (True, w) \<Longrightarrow>
    graceful_step conf s (s\<lparr>sys_worker := w, received := index # received s\<rparr>)"
| endpoint_request: "ipc_round conf (sys_worker s) (Message now busy index (To_Endpoint rq)) = (True, w) \<Longrightarrow>
    graceful_step conf s (s\<lparr>sys_worker := w\<rparr>)"
| no_request: "\<not> is_expiration_time_over conf now (sys_worker s) \<Longrightarrow>
    ipc_round conf (sys_worker s) (No_Request now busy) = (True, w) \<Longrightarrow>
    graceful_step conf s (s\<lparr>sys_worker := w\<rparr>)"
| service_completes: "slot \<in> set (slots (sys_worker s)) \<Longrightarrow>
    slot \<notin> set (shutdown_response (sys_worker s)) \<Longrightarrow>
    graceful_step conf s (s\<lparr>sys_worker := remove_reqres slot (sys_worker s),
      completed_by_service := slot # completed_by_service s\<rparr>)"
| references_change: "reqreses (sys_worker s) = xs @ (slot, e) # ys \<Longrightarrow>
    \<not> response_completed e' \<Longrightarrow> slot \<in> set (shutdown_response (sys_worker s)) \<longrightarrow> \<not> dissipated e' \<Longrightarrow>
    graceful_step conf s (s\<lparr>sys_worker := (sys_worker s)\<lparr>reqreses := xs @ (slot, e') # ys\<rparr>\<rparr>)"
| shutdown_requested:
    "graceful_step conf s (s\<lparr>sys_worker := worker_request_shutdown Shutdown_Graceful (sys_worker s)\<rparr>)"

lemma answered_send:
  "answered (send slot m w) = answered w @ (if \<exists>r. m = Endpoint_Reply r then [] else [slot])"
  by (auto simp: answered_def send_def)

lemma mset_partition:
  "mset (map f (filter P xs)) + mset (map f (filter (\<lambda>x. \<not> P x) xs)) = mset (map f xs)"
  by (induction xs) auto

lemma answered_errors:
  "answered (w\<lparr>reqreses := es, sent := sent w @ map (\<lambda>t. (fst t, Error_Record c m)) ts\<rparr>) =
    answered w @ map fst ts"
  by (simp add: answered_def filter_map comp_def)

text \<open>A slot whose request or response is in use outside the table.\<close>

definition held :: "endpoint_worker \<Rightarrow> u64 \<Rightarrow> bool" where
  "held w slot \<longleftrightarrow> (\<exists>e. (slot, e) \<in> set (reqreses w) \<and> \<not> dissipated e)"

definition sound :: "endpoint_worker \<Rightarrow> bool" where
  "sound w \<longleftrightarrow> fresh_table w \<and> worker_shutdown w \<noteq> Shutdown_Forceful \<and>
     distinct (shutdown_response w) \<and> (\<forall>slot \<in> set (shutdown_response w). held w slot)"

definition known :: "endpoint_worker \<Rightarrow> u64 multiset" where
  "known w = mset (slots w) + mset (answered w)"

definition accounted :: "worker_system \<Rightarrow> bool" where
  "accounted s \<longleftrightarrow> sound (sys_worker s) \<and>
     mset (received s) = known (sys_worker s) + mset (completed_by_service s)"

lemma accounted_initial:
  "accounted \<lparr>sys_worker = new_endpoint_worker now timeout refresh max_refresh r,
    received = [], completed_by_service = []\<rparr>"
  by (simp add: accounted_def sound_def known_def new_endpoint_worker_def
    update_expiration_time_def fresh_table_def answered_def)

lemma known_care:
  assumes "fresh_table w"
  shows "known (care_reqreses w) = known w"
  unfolding care_reqreses_eq [OF assms] known_def answered_errors
  using mset_partition [of fst "\<lambda>e. dissipated (snd e)" "reqreses w", symmetric] by simp

lemma held_care:
  assumes "fresh_table w"
  shows "held (care_reqreses w) slot = held w slot"
  unfolding care_reqreses_eq [OF assms] held_def by auto

lemma sound_care:
  assumes "sound w"
  shows "sound (care_reqreses w)"
proof -
  have fresh: "fresh_table w"
    using assms by (simp add: sound_def)
  have "shutdown_response (care_reqreses w) = shutdown_response w"
    "worker_shutdown (care_reqreses w) = worker_shutdown w"
    unfolding care_reqreses_eq [OF fresh] by simp_all
  then show ?thesis
    using assms fresh_table_care [OF fresh] by (simp add: sound_def held_care [OF fresh])
qed

lemma sound_check_shutdown:
  assumes "sound w" "check_shutdown_request w = (asked, w')"
  shows "w' = w"
  using assms by (auto simp: check_shutdown_request_def sound_def Let_def)

lemma sound_end_if_completed:
  assumes "sound w" "end_if_completed busy w = (ok, w')"
  shows "w' = w"
proof -
  obtain asked w'' where check: "check_shutdown_request w = (asked, w'')"
    by force
  then show ?thesis
    using assms(2) sound_check_shutdown [OF assms(1) check] by (simp add: end_if_completed_def)
qed

lemma extend_expiration_field: "\<exists>x. extend_expiration t w = w\<lparr>worker_expiration := x\<rparr>"
  by (cases "worker_expiration w") (auto simp: extend_expiration_def intro: exI [of _ None]
    exI [of _ "worker_expiration w"])

lemma update_expiration_field: "\<exists>x. update_expiration_time now f w = w\<lparr>worker_expiration := x\<rparr>"
  using extend_expiration_field [of "now + 1000 * int (refresh_timeout w)" w]
  by (auto simp: update_expiration_time_def Let_def intro: exI [of _ "worker_expiration w"])

lemma known_expiration_field [simp]:
  "known (w\<lparr>worker_expiration := x\<rparr>) = known w" "sound (w\<lparr>worker_expiration := x\<rparr>) = sound w"
  by (simp_all add: known_def sound_def answered_def fresh_table_def held_def)

section \<open>One round accounts for its request\<close>

definition registered :: "u64 \<Rightarrow> reqres \<Rightarrow> endpoint_worker \<Rightarrow> endpoint_worker" where
  "registered slot e w = w\<lparr>reqreses := insort_key fst (slot, e) (reqreses w)\<rparr>"

lemma mset_map_insort_key: "mset (map f (insort_key k x xs)) = add_mset (f x) (mset (map f xs))"
  by (induction xs) auto

lemma registered_distinct:
  assumes "slot \<notin> set (slots w)" "distinct (slots w)"
  shows "distinct (slots (registered slot e w))"
proof -
  have "mset (slots (registered slot e w)) = mset (slot # slots w)"
    by (simp add: registered_def mset_map_insort_key del: mset_map)
  from mset_eq_imp_distinct_iff [OF this] show ?thesis
    using assms by simp
qed

lemma sound_registered:
  assumes "sound w" "slot \<notin> set (slots w)" "\<not> response_completed e"
  shows "sound (registered slot e w)"
proof -
  have "distinct (slots (registered slot e w))"
    using assms(1,2) by (simp add: registered_distinct sound_def fresh_table_def)
  moreover have "held (registered slot e w) slot'" if "held w slot'" for slot'
    using that by (auto simp: held_def registered_def set_insort_key)
  ultimately show ?thesis
    using assms(1,3) by (simp add: sound_def fresh_table_def) (simp add: registered_def set_insort_key)
qed

lemma known_registered: "known (registered slot e w) = add_mset slot (known w)"
  by (simp add: known_def registered_def answered_def mset_map_insort_key del: mset_map)

lemma register_fresh:
  assumes "slot \<notin> set (slots w)"
  shows "register_reqres slot e blob_error w = (case blob_error of
      Some msg \<Rightarrow> (False, notify_client slot Code_OPERATION_DENIED msg (registered slot e w))
    | None \<Rightarrow> (True, registered slot e w))"
  using assms reqres_erase_absent [of slot "reqreses w"]
  by (simp add: register_reqres_def registered_def Let_def split: option.split)

lemma mset_reqres_erase:
  assumes "distinct (map fst es)" "slot \<in> fst ` set es"
  shows "add_mset slot (mset (map fst (reqres_erase slot es))) = mset (map fst es)"
  using assms
proof (induction es)
  case (Cons x es)
  then show ?case
    using reqres_erase_absent [of slot es] by (cases "fst x = slot") (auto simp: reqres_erase_def)
qed simp

lemma known_reply:
  assumes "sound w" "slot \<in> set (slots w)" "\<And>r. m \<noteq> Endpoint_Reply r"
  shows "known (remove_reqres slot (send slot m w)) = known w"
  using assms mset_reqres_erase [of "reqreses w" slot]
  by (simp add: known_def remove_reqres_def answered_send sound_def fresh_table_def answered_def
    send_def flip: mset_map)

lemma known_reply_new:
  assumes "slot \<notin> set (slots w)" "\<And>r. m \<noteq> Endpoint_Reply r"
  shows "known (remove_reqres slot (send slot m w)) = add_mset slot (known w)"
  using assms reqres_erase_absent [of slot "reqreses w"]
  by (simp add: known_def remove_reqres_def answered_def send_def)

lemma shutdown_slots:
  assumes "sound w" "slot \<in> set (shutdown_response w)"
  shows "slot \<in> set (slots w)"
  using assms by (force simp: sound_def held_def)

lemma sound_remove:
  assumes "sound w" "slot \<notin> set (shutdown_response w)"
  shows "sound (remove_reqres slot w)"
proof -
  have "held (remove_reqres slot w) slot'" if "held w slot'" "slot' \<noteq> slot" for slot'
    using that by (auto simp: held_def remove_reqres_def reqres_erase_def)
  moreover have "fresh_table (remove_reqres slot w)"
    using assms(1) distinct_map_filter [of fst "reqreses w"]
    by (simp add: sound_def fresh_table_def remove_reqres_def reqres_erase_def)
  ultimately show ?thesis
    using assms by (simp add: sound_def) (auto simp: remove_reqres_def)
qed

lemma sound_send [simp]: "sound (send slot m w) = sound w"
  by (simp add: sound_def fresh_table_def send_def held_def)

lemma known_fields [simp]:
  "known (w\<lparr>resultsets_closed := b\<rparr>) = known w" "sound (w\<lparr>resultsets_closed := b\<rparr>) = sound w"
  "known (w\<lparr>shutdown_response := ts\<rparr>) = known w" "known (w\<lparr>worker_shutdown := t\<rparr>) = known w"
  "known (w\<lparr>worker_resources := r\<rparr>) = known w" "sound (w\<lparr>worker_resources := r\<rparr>) = sound w"
  by (simp_all add: known_def sound_def answered_def fresh_table_def held_def)

lemma sound_graceful_request:
  assumes "sound w"
  shows "sound (worker_request_shutdown Shutdown_Graceful w)"
    and "known (worker_request_shutdown Shutdown_Graceful w) = known w"
  using assms
  by (auto simp: worker_request_shutdown_def request_shutdown_def sound_def held_def fresh_table_def)

lemma sound_shutdown_response:
  assumes "sound w" "held w index"
  shows "sound (w\<lparr>shutdown_response := (if index \<in> set (shutdown_response w) then shutdown_response w
    else insort index (shutdown_response w))\<rparr>)"
  using assms
  by (simp add: sound_def fresh_table_def distinct_insort set_insort_key) (simp add: held_def)

lemma send_fields [simp]:
  "shutdown_response (send slot m w) = shutdown_response w" "reqreses (send slot m w) = reqreses w"
  by (simp_all add: send_def)

lemma reply_sound:
  assumes "sound w" "slot \<in> set (slots w)" "slot \<notin> set (shutdown_response w)"
    "\<And>r. m \<noteq> Endpoint_Reply r"
  shows "sound (remove_reqres slot (send slot m w)) \<and> known (remove_reqres slot (send slot m w)) = known w"
  using assms known_reply [of w slot m] sound_remove [of "send slot m w" slot] by simp

lemma chain_sound:
  assumes "sound w" "held w index" "index \<notin> set (shutdown_response w)"
    "graceful_message (To_Core cmd e blob ok)" "routing_service_chain now cmd index w = (handled, w')"
  shows "sound w' \<and> known w' = known w"
proof -
  have slot: "index \<in> set (slots w)"
    using assms(2) by (force simp: held_def)
  consider (unparsed) "cmd = None" | (shutdown) "cmd = Some (Core_Shutdown GRACEFUL)"
    | (expiration) et where "cmd = Some (Core_Update_Expiration_Time et)"
    | (other) "w' = w"
    using assms(4,5) by (cases cmd rule: option.exhaust; simp add: routing_service_chain_def
      split: core_command.splits session_shutdown_type.splits)
  then show ?thesis
  proof cases
    case unparsed
    then have "w' = notify_client index Code_INVALID_REQUEST ''request parse error'' w"
      using assms(5) by (simp add: routing_service_chain_def)
    then show ?thesis
      using reply_sound [OF assms(1) slot assms(3)] by (simp add: notify_client_def)
  next
    case shutdown
    let ?w = "worker_request_shutdown Shutdown_Graceful (w\<lparr>resultsets_closed := True\<rparr>)"
    have "held ?w index"
      using assms(2) by (simp add: worker_request_shutdown_def held_def)
    then show ?thesis
      using assms(1,5) shutdown sound_graceful_request [of "w\<lparr>resultsets_closed := True\<rparr>"]
        sound_shutdown_response [of ?w index]
      by (auto simp: routing_service_chain_def Let_def)
  next
    case (expiration et)
    let ?w = "case et of Some e \<Rightarrow> extend_expiration (now + requested_expiration w e) w
      | None \<Rightarrow> update_expiration_time now False w"
    obtain x where x: "?w = w\<lparr>worker_expiration := x\<rparr>"
      using extend_expiration_field update_expiration_field by (cases et) fastforce+
    have "w' = remove_reqres index (send index Update_Expiration_Reply (w\<lparr>worker_expiration := x\<rparr>))"
      using assms(5) expiration unfolding x [symmetric] by (simp add: routing_service_chain_def Let_def)
    then show ?thesis
      using assms(1,3) slot reply_sound [of "w\<lparr>worker_expiration := x\<rparr>" index] by simp
  qed (use assms(1) in simp)
qed

lemma registered_fields [simp]:
  "shutdown_response (registered slot e w) = shutdown_response w"
  "slot \<in> fst ` set (reqreses (registered slot e w))"
  "worker_shutdown (registered slot e w) = worker_shutdown w"
  by (simp_all add: registered_def set_insort_key)

lemma core_round_sound:
  assumes "sound w" "index \<notin> set (slots w)" "graceful_message (To_Core cmd e blob ok)"
    "ipc_round conf w (Message now busy index (To_Core cmd e blob ok)) = (go, w')"
  shows "sound w' \<and> known w' = add_mset index (known w)"
proof -
  obtain x where x: "update_expiration_time now False w = w\<lparr>worker_expiration := x\<rparr>"
    using update_expiration_field by blast
  let ?w = "w\<lparr>worker_expiration := x\<rparr>"
  let ?r = "registered index e ?w"
  have new: "index \<notin> set (slots ?w)" "index \<notin> set (shutdown_response ?r)"
    using assms(1,2) shutdown_slots [of w index] by auto
  have r: "sound ?r" "known ?r = add_mset index (known w)"
    using assms(1,3) sound_registered [of ?w index e] new(1) by (simp_all add: known_registered)
  show ?thesis
  proof (cases blob)
    case (Some msg)
    then have "w' = notify_client index Code_OPERATION_DENIED msg ?r"
      using assms(4) register_fresh [OF new(1)] by (simp add: x)
    then show ?thesis
      using reply_sound [OF r(1) _ new(2)] r(2) by (simp add: notify_client_def)
  next
    case None
    have held: "held ?r index"
      using assms(3) by (auto simp: held_def registered_def set_insort_key)
    obtain handled w2 where chain: "routing_service_chain now cmd index ?r = (handled, w2)"
      by force
    have w2: "sound w2" "known w2 = add_mset index (known w)"
      using chain_sound [OF r(1) held new(2) assms(3) chain] r(2) by simp_all
    have "w' = (if handled then care_reqreses w2 else w2)"
      using assms(4) None register_fresh [OF new(1)] chain
        sound_end_if_completed [OF sound_care [OF w2(1)], of busy go w']
      by (cases handled) (simp_all add: x)
    then show ?thesis
      using w2 sound_care [OF w2(1)] known_care [of w2] by (auto simp: sound_def)
  qed
qed

lemma service_round_sound:
  assumes "sound w" "index \<notin> set (slots w)" "\<not> response_completed e"
    "ipc_round conf w (Message now busy index (To_Service e blob ok)) = (go, w')"
  shows "sound w' \<and> known w' = add_mset index (known w)"
proof -
  obtain x where x: "update_expiration_time now False w = w\<lparr>worker_expiration := x\<rparr>"
    using update_expiration_field by blast
  let ?w = "w\<lparr>worker_expiration := x\<rparr>"
  let ?r = "registered index e ?w"
  have sound: "sound ?w"
    using assms(1) by simp
  have new: "index \<notin> set (slots ?w)" "index \<notin> set (shutdown_response ?w)"
    using assms(1,2) shutdown_slots [of w index] by auto
  have r: "sound ?r" "known ?r = add_mset index (known w)"
    using assms(1,3) sound_registered [of ?w index e] new(1) by (simp_all add: known_registered)
  obtain asked w2 where check: "check_shutdown_request ?w = (asked, w2)"
    by force
  have "w2 = ?w"
    by (rule sound_check_shutdown [OF sound check])
  then consider "w' = notify_client index Code_SESSION_CLOSED ''this session is already shutdown'' ?w"
    | msg where "w' = notify_client index Code_OPERATION_DENIED msg ?r" | "w' = ?r"
    using assms(4) check register_fresh [OF new(1), of e blob]
    by (cases asked; cases blob) (auto simp: x)
  then show ?thesis
  proof cases
    case 1
    then show ?thesis
      using sound new known_reply_new [of index ?w] sound_remove [of "send index m ?w" index for m]
      by (simp add: notify_client_def)
  next
    case (2 msg)
    then show ?thesis
      using reply_sound [OF r(1), of index] new(2) r(2) by (simp add: notify_client_def)
  qed (use r in simp)
qed

lemma endpoint_round_sound:
  assumes "sound w" "ipc_round conf w (Message now busy index (To_Endpoint rq)) = (go, w')"
  shows "sound w' \<and> known w' = known w"
proof -
  have replies: "sound (fold (\<lambda>m. send index (Endpoint_Reply m)) outs u) = sound u \<and>
      known (fold (\<lambda>m. send index (Endpoint_Reply m)) outs u) = known u" for outs u
    by (induction outs arbitrary: u) (simp_all add: known_def answered_send)
  have cancel: "sound (u\<lparr>reqreses := map (\<lambda>(s, e). (s, if s = index then response_do_cancel e else e))
      (reqreses u)\<rparr>) \<and> known (u\<lparr>reqreses := map (\<lambda>(s, e). (s, if s = index then response_do_cancel e else e))
      (reqreses u)\<rparr>) = known u" if "sound u" for u
  proof -
    let ?f = "\<lambda>(s, e). (s, if s = index then response_do_cancel e else e)"
    have slots: "fst \<circ> ?f = fst" and flags: "response_completed (snd (?f x)) = response_completed (snd x)" for x
      by (auto simp: fun_eq_iff response_do_cancel_def split: prod.split)
    have "held (u\<lparr>reqreses := map ?f (reqreses u)\<rparr>) slot" if held: "held u slot" for slot
    proof -
      obtain e where e: "(slot, e) \<in> set (reqreses u)" "\<not> dissipated e"
        using held by (auto simp: held_def)
      from e(1) have "?f (slot, e) \<in> set (map ?f (reqreses u))"
        unfolding set_map by (rule imageI)
      then show ?thesis
        unfolding held_def using e(2)
        by (intro exI [of _ "snd (?f (slot, e))"]) (simp add: response_do_cancel_def dissipated_def)
    qed
    then show ?thesis
      using that by (simp add: sound_def fresh_table_def known_def answered_def slots flags
        flip: mset_map)
  qed
  obtain x where x: "update_expiration_time now False w = w\<lparr>worker_expiration := x\<rparr>"
    using update_expiration_field by blast
  obtain ok outs c r where service:
    "endpoint_service conf now rq (worker_resources w) = (ok, outs, c, r)"
    by (cases "endpoint_service conf now rq (worker_resources w)")
  show ?thesis
    using assms replies [of outs "w\<lparr>worker_expiration := x, worker_resources := r\<rparr>"]
      cancel [of "fold (\<lambda>m. send index (Endpoint_Reply m)) outs
        (w\<lparr>worker_expiration := x, worker_resources := r\<rparr>)"]
    by (cases c) (auto simp: x service Let_def)
qed

lemma quiet_round_sound:
  assumes "sound w" "\<not> is_expiration_time_over conf now w"
    "ipc_round conf w (No_Request now busy) = (go, w')"
  shows "w' = care_reqreses w"
proof -
  have fresh: "fresh_table w"
    using assms(1) by (simp add: sound_def)
  have "\<not> is_expiration_time_over conf now (care_reqreses w)"
    using assms(2) unfolding care_reqreses_eq [OF fresh] by (simp add: is_expiration_time_over_def)
  moreover obtain go2 w2 where ended: "end_if_completed busy (care_reqreses w) = (go2, w2)"
    by force
  moreover have "w2 = care_reqreses w"
    by (rule sound_end_if_completed [OF sound_care [OF assms(1)] ended])
  ultimately show ?thesis
    using assms(3) by (cases go2) (simp_all add: after_expiration_def)
qed

lemma references_sound:
  assumes "sound w" "reqreses w = xs @ (slot, e) # ys" "\<not> response_completed e'"
    "slot \<in> set (shutdown_response w) \<longrightarrow> \<not> dissipated e'"
  shows "sound (w\<lparr>reqreses := xs @ (slot, e') # ys\<rparr>)"
    and "known (w\<lparr>reqreses := xs @ (slot, e') # ys\<rparr>) = known w"
proof -
  let ?w = "w\<lparr>reqreses := xs @ (slot, e') # ys\<rparr>"
  have "held ?w s" if "s \<in> set (shutdown_response w)" for s
  proof (cases "s = slot")
    case True
    then show ?thesis
      using assms(4) that by (auto simp: held_def)
  next
    case False
    have "held w s"
      using assms(1) that by (simp add: sound_def)
    then show ?thesis
      using False assms(2) by (auto simp: held_def)
  qed
  then show "sound ?w"
    using assms(1-3) by (simp add: sound_def fresh_table_def)
  show "known ?w = known w"
    using assms(2) by (simp add: known_def answered_def)
qed

lemma graceful_step_accounted:
  assumes "graceful_step conf s s'" "accounted s"
  shows "accounted s'"
proof -
  have sound: "sound (sys_worker s)"
    using assms(2) by (simp add: accounted_def)
  show ?thesis
    using assms(1)
  proof (cases rule: graceful_step.cases)
    case (request_received m index now busy w)
    have "sound w \<and> known w = add_mset index (known (sys_worker s))"
    proof (cases m)
      case (To_Core cmd e blob ok)
      then show ?thesis
        using request_received(2-4) sound by (intro core_round_sound) simp_all
    next
      case (To_Service e blob ok)
      then show ?thesis
        using request_received(2-4) sound by (intro service_round_sound) simp_all
    qed (use request_received(2) in simp)
    then show ?thesis
      using assms(2) request_received(1) by (simp add: accounted_def)
  next
    case (endpoint_request now busy index rq w)
    then show ?thesis
      using assms(2) endpoint_round_sound [of "sys_worker s"] by (simp add: accounted_def)
  next
    case (no_request now busy w)
    then have "w = care_reqreses (sys_worker s)"
      using assms(2) quiet_round_sound [of "sys_worker s" conf now busy True w] by (simp add: accounted_def)
    then show ?thesis
      using assms(2) no_request(1) sound_care [of "sys_worker s"] known_care [of "sys_worker s"]
      by (simp add: accounted_def) (simp add: sound_def)
  next
    case (service_completes slot)
    have "add_mset slot (known (remove_reqres slot (sys_worker s))) = known (sys_worker s)"
      using known_reply [OF sound service_completes(2), of Shutdown_Reply]
      by (simp add: known_def answered_def remove_reqres_def send_def)
    then show ?thesis
      using assms(2) service_completes sound_remove [OF sound, of slot]
      by (simp add: accounted_def flip: \<open>add_mset slot _ = known _\<close>)
  next
    case (references_change xs slot e ys e')
    then show ?thesis
      using assms(2) references_sound [of "sys_worker s" xs slot e ys e'] by (simp add: accounted_def)
  next
    case shutdown_requested
    then show ?thesis
      using assms(2) sound_graceful_request [of "sys_worker s"] by (simp add: accounted_def)
  qed
qed

lemma graceful_run_accounted:
  assumes "(graceful_step conf)\<^sup>*\<^sup>* s s'" "accounted s"
  shows "accounted s'"
  using assms by (induction rule: rtranclp_induct) (auto intro: graceful_step_accounted)

text \<open>The end of the thread answers the shutdown requests, the only ones that are left.\<close>

lemma fold_shutdown:
  "fold (\<lambda>slot w. remove_reqres slot (send slot Shutdown_Reply w)) ts w =
    w\<lparr>reqreses := filter (\<lambda>e. fst e \<notin> set ts) (reqreses w),
      sent := sent w @ map (\<lambda>t. (t, Shutdown_Reply)) ts\<rparr>"
proof (induction ts arbitrary: w)
  case (Cons t ts)
  have "filter (\<lambda>e. fst e \<notin> set ts) (filter (\<lambda>e. fst e \<noteq> t) (reqreses w)) =
      filter (\<lambda>e. fst e \<notin> set (t # ts)) (reqreses w)"
    by (auto intro!: filter_cong)
  then show ?case
    using Cons.IH [of "remove_reqres t (send t Shutdown_Reply w)"]
    by (simp add: send_def remove_reqres_def reqres_erase_def)
qed simp

lemma shutdown_complete_answers:
  assumes "sound w" "is_completed busy w"
  shows "mset (answered (shutdown_complete w)) = known w"
proof -
  have "set (slots w) = set (shutdown_response w)"
    using assms shutdown_slots [of w]
    by (auto simp: is_completed_def list_all_iff split: if_splits)
  then have "mset (slots w) = mset (shutdown_response w)"
    using assms(1) set_eq_iff_mset_eq_distinct [of "slots w" "shutdown_response w"]
    by (simp add: sound_def fresh_table_def)
  moreover have "answered (shutdown_complete w) = answered w @ shutdown_response w"
    by (simp add: shutdown_complete_def Let_def fold_shutdown answered_def filter_map comp_def)
  ultimately show ?thesis
    by (simp add: known_def)
qed

section \<open>Properties\<close>

text \<open>
  C5. Every request of a session that ends gracefully is answered exactly once (requests for the
  endpoint broker, which are answered on the spot, are left out on both sides). From a new worker, after any run of rounds in which requests arrive, services complete responses or drop
  them, and shutdowns are requested gracefully, if the worker ends its loop and completes the
  shutdown, then the requests received are, slot by slot, those the worker answered and those
  a service completed.
\<close>

theorem every_request_answered:
  assumes "(graceful_step conf)\<^sup>*\<^sup>*
      \<lparr>sys_worker = new_endpoint_worker start timeout refresh max_refresh r,
       received = [], completed_by_service = []\<rparr> s"
    and "\<not> is_expiration_time_over conf now (sys_worker s)"
    and "ipc_round conf (sys_worker s) (No_Request now busy) = (False, w)"
  shows "mset (received s) =
    mset (answered (shutdown_complete w)) + mset (completed_by_service s)"
proof -
  have "accounted s"
    by (rule graceful_run_accounted [OF assms(1) accounted_initial])
  then have s: "sound (sys_worker s)" "mset (received s) = known (sys_worker s) + mset (completed_by_service s)"
    by (simp_all add: accounted_def)
  have w: "w = care_reqreses (sys_worker s)"
    by (rule quiet_round_sound [OF s(1) assms(2,3)])
  obtain go w2 where ended: "end_if_completed busy (care_reqreses (sys_worker s)) = (go, w2)"
    by force
  then have "\<not> go"
    using assms(3) by (cases go) simp_all
  moreover have "w2 = w"
    using sound_end_if_completed [OF sound_care [OF s(1)] ended] w by simp
  ultimately have "is_completed busy w"
    using ended unfolding w by (auto simp: end_if_completed_def split: prod.splits)
  then show ?thesis
    using shutdown_complete_answers [of w busy] s sound_care [OF s(1)] known_care [of "sys_worker s"] w
    by (simp add: sound_def)
qed

text \<open>
  A session that serves one request and then a graceful shutdown that has to wait for a result set.
\<close>

definition sample_reqres :: reqres where
  "sample_reqres = \<lparr>request_uses = 2, response_uses = 2, response_completed = False,
     response_data_channel = False, response_cancel = False\<rparr>"

definition sample_worker :: endpoint_worker where
  "sample_worker = new_endpoint_worker 0 False 0 0 sample_resources"

abbreviation open_configuration :: endpoint_configuration where
  "open_configuration \<equiv> sample_configuration\<lparr>conf_auth := None\<rparr>"

lemmas worker_eval = sample_worker_def sample_reqres_def new_endpoint_worker_def update_expiration_time_def
  check_shutdown_request_def register_reqres_def reqres_erase_def routing_service_chain_def
  worker_request_shutdown_def request_shutdown_def end_if_completed_def is_completed_def
  care_reqreses_def dissipated_def remove_reqres_def is_expiration_time_over_def
  after_expiration_def Let_def

theorem every_request_answered_witness:
  "\<exists>s w. (graceful_step open_configuration)\<^sup>*\<^sup>*
      \<lparr>sys_worker = sample_worker, received = [], completed_by_service = []\<rparr> s \<and>
    ipc_round open_configuration (sys_worker s) (No_Request 0 False) = (False, w) \<and>
    received s = [8, 7] \<and> completed_by_service s = [7] \<and>
    {#8, 7#} = mset (answered (shutdown_complete w)) + {#7#}"
proof -
  let ?e = sample_reqres
  let ?w1 = "sample_worker\<lparr>reqreses := [(7, ?e)]\<rparr>"
  let ?w3 = "sample_worker\<lparr>reqreses := [(8, ?e)], resultsets_closed := True,
    worker_shutdown := Shutdown_Graceful, shutdown_response := [8]\<rparr>"
  let ?s0 = "\<lparr>sys_worker = sample_worker, received = [], completed_by_service = []\<rparr>"
  let ?s1 = "\<lparr>sys_worker = ?w1, received = [7], completed_by_service = []\<rparr>"
  let ?s2 = "\<lparr>sys_worker = sample_worker, received = [7], completed_by_service = [7]\<rparr>"
  let ?s3 = "\<lparr>sys_worker = ?w3, received = [8, 7], completed_by_service = [7]\<rparr>"
  have "graceful_step open_configuration ?s0 ?s1"
    using graceful_step.request_received [of "To_Service ?e None True" 7 ?s0 open_configuration 0 False ?w1]
    by (simp add: worker_eval)
  moreover have "graceful_step open_configuration ?s1 ?s2"
    using graceful_step.service_completes [of 7 ?s1 open_configuration]
    by (simp add: worker_eval)
  moreover have "graceful_step open_configuration ?s2 ?s3"
    using graceful_step.request_received [of "To_Core (Some (Core_Shutdown GRACEFUL)) ?e None True" 8 ?s2
      open_configuration 0 True ?w3]
    by (simp add: worker_eval)
  ultimately have run: "(graceful_step open_configuration)\<^sup>*\<^sup>* ?s0 ?s3"
    by (meson converse_rtranclp_into_rtranclp rtranclp.rtrancl_refl)
  have last: "ipc_round open_configuration ?w3 (No_Request 0 False) = (False, ?w3)"
    by (simp add: worker_eval)
  have "\<not> is_expiration_time_over open_configuration 0 ?w3"
    by (simp add: worker_eval)
  with every_request_answered [of open_configuration 0 False 0 0 sample_resources ?s3 0 False ?w3] run last
  have "{#8, 7#} = mset (answered (shutdown_complete ?w3)) + {#7#}"
    by (simp add: sample_worker_def)
  with run last show ?thesis
    by (intro exI [of _ ?s3] exI [of _ ?w3]) simp
qed

text \<open>
  C35. A request nobody holds any more is answered with an error when the worker cares for its
  table, but only if no other visit of the table comes first: after \<^verbatim>\<open>has_incomplete_response\<close>,
  which diagnostics and the listener call, the request is gone and no answer was sent.
\<close>

theorem visit_drops_dissipated:
  assumes "fresh_table w" "(slot, e) \<in> set (reqreses w)" "dissipated e"
  shows "(slot, Error_Record Code_UNKNOWN ''request dissipated'') \<in> set (sent (care_reqreses w)) \<and>
    slot \<notin> set (slots (snd (has_incomplete_response w))) \<and>
    sent (snd (has_incomplete_response w)) = sent w"
proof -
  have "(slot, Error_Record Code_UNKNOWN ''request dissipated'') \<in> set (sent (care_reqreses w))"
    unfolding care_reqreses_eq [OF assms(1)] using assms(2,3) by force
  moreover have "e' = e" if "(slot, e') \<in> set (reqreses w)" for e'
    using assms(1,2) that by (auto simp: fresh_table_def intro: eq_key_imp_eq_value)
  ultimately show ?thesis
    using assms(3) by (auto simp: has_incomplete_response_def foreach_reqreses_def visited_def dissipated_def)
qed

theorem visit_drops_dissipated_witness:
  "let w = sample_worker\<lparr>reqreses := [(7, sample_reqres\<lparr>request_uses := 1, response_uses := 1\<rparr>)]\<rparr>
   in (7, Error_Record Code_UNKNOWN ''request dissipated'') \<in> set (sent (care_reqreses w)) \<and>
      sent (snd (has_incomplete_response w)) = []"
proof -
  let ?e = "sample_reqres\<lparr>request_uses := 1, response_uses := 1\<rparr>"
  let ?w = "sample_worker\<lparr>reqreses := [(7, ?e)]\<rparr>"
  have "fresh_table ?w" "(7, ?e) \<in> set (reqreses ?w)" "dissipated ?e"
    by (simp_all add: fresh_table_def worker_eval)
  from visit_drops_dissipated [OF this] show ?thesis
    by (simp add: Let_def) (simp add: worker_eval)
qed

text \<open>
  Once a shutdown is requested, a request to a service is answered with
  \<^verbatim>\<open>SESSION_CLOSED\<close>, is not registered and ends nothing.
\<close>

theorem closed_session_refuses:
  assumes "worker_shutdown w \<noteq> Shutdown_Nothing"
    and "ipc_round conf w (Message now busy index (To_Service e blob ok)) = (go, w')"
  shows "go \<and> index \<notin> set (slots w') \<and> set (slots w') \<subseteq> set (slots w) \<and>
    sent w' = sent w @ [(index, Error_Record Code_SESSION_CLOSED ''this session is already shutdown'')]"
proof -
  obtain x where x: "update_expiration_time now False w = w\<lparr>worker_expiration := x\<rparr>"
    using update_expiration_field by blast
  have "fst (check_shutdown_request (w\<lparr>worker_expiration := x\<rparr>))"
    using assms(1) by (cases "worker_shutdown w") (simp_all add: check_shutdown_request_def Let_def)
  then obtain w2 where check: "check_shutdown_request (w\<lparr>worker_expiration := x\<rparr>) = (True, w2)"
    by (cases "check_shutdown_request (w\<lparr>worker_expiration := x\<rparr>)") simp
  then have "sent w2 = sent w \<and> set (slots w2) \<subseteq> set (slots w)"
    by (auto simp: check_shutdown_request_def Let_def cancel_all_def foreach_reqreses_def
      split: if_splits) force+
  then show ?thesis
    using assms(2) by (auto simp: x check notify_client_def remove_reqres_def reqres_erase_def send_def
      dest: subsetD [OF _ imageI])
qed

theorem closed_session_refuses_witness:
  "sent (snd (ipc_round open_configuration (sample_worker\<lparr>worker_shutdown := Shutdown_Graceful\<rparr>)
     (Message 0 False 9 (To_Service sample_reqres None True)))) =
   [(9, Error_Record Code_SESSION_CLOSED ''this session is already shutdown'')]"
proof -
  let ?w = "sample_worker\<lparr>worker_shutdown := Shutdown_Graceful\<rparr>"
  obtain go w' where run: "ipc_round open_configuration ?w
      (Message 0 False 9 (To_Service sample_reqres None True)) = (go, w')"
    by force
  have "worker_shutdown ?w \<noteq> Shutdown_Nothing"
    by simp
  from closed_session_refuses [OF this run] show ?thesis
    unfolding run by (simp add: worker_eval)
qed

text \<open>
  C25. A client that asks for more time gets it within the configured limits: the expiration
  time becomes the later of the old one and now plus the requested time, raised to the refresh
  timeout and cut at the maximum, so that it never moves back.
\<close>

theorem expiration_update_bounds:
  assumes "worker_expiration w = Some old"
  shows "worker_expiration (snd (routing_service_chain now (Some (Core_Update_Expiration_Time (Some et))) index w)) =
    Some (max old (now + min (max (sint et) (1000 * int (refresh_timeout w)))
      (1000 * int (max_refresh_timeout w))))"
  using assms
  by (auto simp: routing_service_chain_def extend_expiration_def requested_expiration_def Let_def
    remove_reqres_def send_def)

theorem expiration_update_bounds_witness:
  "worker_expiration (snd (routing_service_chain 5000 (Some (Core_Update_Expiration_Time (Some 90000))) 3
     (sample_worker\<lparr>worker_expiration := Some 6000, refresh_timeout := 1, max_refresh_timeout := 60\<rparr>))) =
   Some 65000"
  using expiration_update_bounds [of "sample_worker\<lparr>worker_expiration := Some 6000, refresh_timeout := 1,
    max_refresh_timeout := 60\<rparr>" 6000 5000 90000 3]
  by simp

end
