(* ===== verification/Stream_Socket.thy ===== *)
theory Stream_Socket
  imports Tateyama_Prelude
begin

text \<open>
  The stream (TCP) connection of a session (\<^verbatim>\<open>endpoint/stream/stream.h\<close>): the frames a client
  sends, read from a socket that delivers bytes in pieces of any size, and the frames the server
  sends. The socket is the list of what its \<^verbatim>\<open>recv\<close> calls have still to deliver; a loop that
  polls consumes one answer of \<^verbatim>\<open>poll\<close> in each round.
\<close>

section \<open>The socket\<close>

text \<open>
  Bytes that have arrived together, or a \<^verbatim>\<open>recv\<close> that fails; at the end of the list the peer
  has closed the connection.
\<close>

datatype packet = Data bytes | Failure

fun sys_recv :: "nat \<Rightarrow> packet list \<Rightarrow> int \<times> bytes \<times> packet list" where
  "sys_recv n [] = (0, [], [])"
| "sys_recv n (Failure # ps) = (-1, [], ps)"
| "sys_recv n (Data b # ps) = (int (length (take n b)), take n b,
     if drop n b = [] then ps else Data (drop n b) # ps)"

datatype sending_status = Sending | Closed | Finished

record stream_socket =
  incoming :: "packet list"
  outgoing :: bytes
  session_closed :: bool
  socket_closed :: bool
  sending :: "sending_status list"
  slot_size :: nat

definition SLOT_SIZE :: nat where
  "SLOT_SIZE = 16"

definition new_stream_socket :: "packet list \<Rightarrow> stream_socket" where
  "new_stream_socket ps = \<lparr>incoming = ps, outgoing = [], session_closed = False, socket_closed = False,
     sending = replicate SLOT_SIZE Sending, slot_size = SLOT_SIZE\<rparr>"

section \<open>Receiving bytes\<close>

text \<open>
  What a call of \<^verbatim>\<open>recv(to, size)\<close> comes to: the bytes, the end of the stream, or a write
  before the start of the buffer, which is undefined.
\<close>

datatype recv_outcome = Got bytes | Peer_Closed | Overrun

definition packets_size :: "packet list \<Rightarrow> nat" where
  "packets_size ps = sum_list (map (\<lambda>p. case p of Data b \<Rightarrow> Suc (length b) | Failure \<Rightarrow> 1) ps)"

lemma sys_recv_decreases:
  assumes "sys_recv n ps = (s, b, ps')" "s \<noteq> 0"
  shows "packets_size ps' < packets_size ps"
  using assms by (cases "(n, ps)" rule: sys_recv.cases) (auto simp: packets_size_def split: if_splits)

text \<open>
  The loop of \<^verbatim>\<open>recv\<close>. A failing call returns -1, which the loop adds to the count of received
  bytes as it does any other number; the next bytes go to \<^verbatim>\<open>to + received\<close> and overwrite what is
  there.
\<close>

function recv_loop :: "nat \<Rightarrow> int \<Rightarrow> bytes \<Rightarrow> packet list \<Rightarrow> recv_outcome \<times> packet list" where
  "recv_loop n received buf ps =
     (if received < int n then
        (case sys_recv (nat (int n - received)) ps of
           (s, b, ps') \<Rightarrow>
             if s = 0 then (Peer_Closed, ps')
             else if received < 0 \<and> s > 0 then (Overrun, ps')
             else recv_loop n (received + s) (memcpy_to buf (nat received) b) ps')
      else (Got buf, ps))"
  by pat_completeness auto
termination
  by (relation "measure (\<lambda>(n, received, buf, ps). packets_size ps)") (auto dest: sys_recv_decreases [OF sym])

declare recv_loop.simps [simp del]

definition recv_bytes :: "nat \<Rightarrow> packet list \<Rightarrow> recv_outcome \<times> packet list" where
  "recv_bytes n ps = recv_loop n 0 [] ps"

definition strip :: "u8 \<Rightarrow> u32" where
  "strip c = ucast c AND 0xff"

fun read_slot :: "bytes \<Rightarrow> u16" where
  "read_slot [b0, b1] = ucast (push_bit 8 (strip b1) OR strip b0)"
| "read_slot _ = 0"

fun read_length :: "bytes \<Rightarrow> u32" where
  "read_length [b0, b1, b2, b3] =
     push_bit 24 (strip b3) OR push_bit 16 (strip b2) OR push_bit 8 (strip b1) OR strip b0"
| "read_length _ = 0"

text \<open>
  \<^verbatim>\<open>recv(payload)\<close>: the outcome carries the new payload. A message of length 0 leaves the
  payload the caller passed.
\<close>

definition recv_payload :: "bytes \<Rightarrow> packet list \<Rightarrow> recv_outcome \<times> packet list" where
  "recv_payload payload ps = (case recv_bytes 4 ps of
     (Got buffer, ps') \<Rightarrow>
       (let len = unat (read_length buffer) in
        if len > 0 then recv_bytes len ps' else (Got payload, ps'))
   | (out, ps') \<Rightarrow> (out, ps'))"

section \<open>Sending frames\<close>

text \<open>A \<^verbatim>\<open>send\<close> whose result nobody looks at: it has no effect on a closed socket.\<close>

definition sys_send :: "bytes \<Rightarrow> stream_socket \<Rightarrow> stream_socket" where
  "sys_send b s = (if socket_closed s then s else s\<lparr>outgoing := outgoing s @ b\<rparr>)"

definition slot_bytes :: "u16 \<Rightarrow> bytes" where
  "slot_bytes slot = [ucast (slot AND 0xff), ucast ((slot div 0x100) AND 0xff)]"

definition length_bytes :: "u32 \<Rightarrow> bytes" where
  "length_bytes n = [ucast (n AND 0xff), ucast ((n div 0x100) AND 0xff),
     ucast ((n div 0x10000) AND 0xff), ucast ((n div 0x1000000) AND 0xff)]"

definition send_payload :: "bytes \<Rightarrow> stream_socket \<Rightarrow> stream_socket" where
  "send_payload payload s =
     (let len = of_nat (length payload) :: u32 in
      if len > 0 then sys_send (take (unat len) payload) (sys_send (length_bytes len) s)
      else sys_send (length_bytes len) s)"

definition send_response :: "u8 \<Rightarrow> u16 \<Rightarrow> bytes \<Rightarrow> bool \<Rightarrow> stream_socket \<Rightarrow> stream_socket" where
  "send_response info slot payload force s =
     (if session_closed s \<and> \<not> force then s
      else send_payload payload (sys_send (slot_bytes slot) (sys_send [info] s)))"

definition REQUEST_SESSION_HELLO :: u8 where "REQUEST_SESSION_HELLO = 1"
definition REQUEST_SESSION_PAYLOAD :: u8 where "REQUEST_SESSION_PAYLOAD = 2"
definition REQUEST_RESULT_SET_BYE_OK :: u8 where "REQUEST_RESULT_SET_BYE_OK = 3"
definition REQUEST_SESSION_BYE :: u8 where "REQUEST_SESSION_BYE = 4"
definition REQUEST_ALIVE_CHECK :: u8 where "REQUEST_ALIVE_CHECK = 5"

definition RESPONSE_SESSION_PAYLOAD :: u8 where "RESPONSE_SESSION_PAYLOAD = 1"
definition RESPONSE_RESULT_SET_PAYLOAD :: u8 where "RESPONSE_RESULT_SET_PAYLOAD = 2"
definition RESPONSE_SESSION_HELLO_OK :: u8 where "RESPONSE_SESSION_HELLO_OK = 3"
definition RESPONSE_RESULT_SET_HELLO :: u8 where "RESPONSE_RESULT_SET_HELLO = 5"
definition RESPONSE_RESULT_SET_BYE :: u8 where "RESPONSE_RESULT_SET_BYE = 6"
definition RESPONSE_SESSION_BODYHEAD :: u8 where "RESPONSE_SESSION_BODYHEAD = 7"
definition RESPONSE_SESSION_BYE_OK :: u8 where "RESPONSE_SESSION_BYE_OK = 8"

lemmas frame_types = REQUEST_SESSION_HELLO_def REQUEST_SESSION_PAYLOAD_def
  REQUEST_RESULT_SET_BYE_OK_def REQUEST_SESSION_BYE_def REQUEST_ALIVE_CHECK_def
  RESPONSE_SESSION_PAYLOAD_def RESPONSE_RESULT_SET_PAYLOAD_def RESPONSE_SESSION_HELLO_OK_def
  RESPONSE_RESULT_SET_HELLO_def RESPONSE_RESULT_SET_BYE_def RESPONSE_SESSION_BODYHEAD_def
  RESPONSE_SESSION_BYE_OK_def

definition send_body :: "u16 \<Rightarrow> bytes \<Rightarrow> bool \<Rightarrow> stream_socket \<Rightarrow> stream_socket" where
  "send_body slot payload body s =
     (if body then send_response RESPONSE_SESSION_PAYLOAD slot payload False s
      else send_response RESPONSE_SESSION_BODYHEAD slot payload False s)"

definition send_result_set_hello :: "u16 \<Rightarrow> bytes \<Rightarrow> stream_socket \<Rightarrow> stream_socket result" where
  "send_result_set_hello slot name s =
     bind_result (update_checked (sending s) (unat slot) Sending) (\<lambda>st.
       Inr (send_response RESPONSE_RESULT_SET_HELLO slot name False (s\<lparr>sending := st\<rparr>)))"

definition send_result_set_bye :: "u16 \<Rightarrow> stream_socket \<Rightarrow> stream_socket" where
  "send_result_set_bye slot s = send_response RESPONSE_RESULT_SET_BYE slot [] False s"

definition send_session_bye_ok :: "stream_socket \<Rightarrow> stream_socket" where
  "send_session_bye_ok s = send_response RESPONSE_SESSION_BYE_OK 0 [] True s"

definition send_result_set_delimiter :: "u16 \<Rightarrow> u8 \<Rightarrow> stream_socket \<Rightarrow> stream_socket" where
  "send_result_set_delimiter slot writer s =
     sys_send [0, 0, 0, 0] (sys_send [writer] (sys_send (slot_bytes slot)
       (sys_send [RESPONSE_RESULT_SET_PAYLOAD] s)))"

text \<open>The data of a result set, closed by an empty chunk.\<close>

definition send_result_set :: "u16 \<Rightarrow> u8 \<Rightarrow> bytes \<Rightarrow> stream_socket \<Rightarrow> stream_socket result" where
  "send_result_set slot writer payload s =
     bind_result (at_checked (sending s) (unat slot)) (\<lambda>st.
       if st = Closed then
         (let s = send_result_set_bye slot (send_result_set_delimiter slot writer s)
          in Inr (s\<lparr>sending := (sending s)[unat slot := Finished]\<rparr>))
       else if st = Finished then Inr s
       else if session_closed s then Inr s
       else Inr (send_result_set_delimiter slot writer
         (if payload \<noteq> [] then
            send_payload payload (sys_send [writer] (sys_send (slot_bytes slot)
              (sys_send [RESPONSE_RESULT_SET_PAYLOAD] s)))
          else s)))"

definition socket_close :: "stream_socket \<Rightarrow> stream_socket" where
  "socket_close s = s\<lparr>socket_closed := True\<rparr>"

definition change_slot_size :: "nat \<Rightarrow> stream_socket \<Rightarrow> stream_socket" where
  "change_slot_size index s =
     (if index + 1 > slot_size s
      then s\<lparr>slot_size := index + 1,
        sending := sending s @ replicate (index + 1 - length (sending s)) Sending\<rparr>
      else s)"

definition is_sending :: "u16 \<Rightarrow> stream_socket \<Rightarrow> bool result" where
  "is_sending slot s = bind_result (at_checked (sending s) (unat slot)) (\<lambda>st. Inr (st = Sending))"

definition release_slot :: "u16 \<Rightarrow> stream_socket \<Rightarrow> stream_socket result" where
  "release_slot slot s =
     bind_result (at_checked (sending s) (unat slot)) (\<lambda>st.
       if st \<noteq> Sending then Inr s
       else Inr (s\<lparr>sending := (sending s)[unat slot := Closed]\<rparr>))"

section \<open>Waiting for a request\<close>

datatype await_result =
    Await_Payload
  | Await_Timeout
  | Await_Socket_Closed
  | Await_Termination_Request
  | Await_Illegal_Message

datatype await_outcome =
    Await_Returns await_result u16 bytes
  | Await_Throws exn
  | Await_Undefined
  | Still_Waiting

text \<open>
  An answer of \<^verbatim>\<open>poll\<close>: a timeout, an error, urgent data (whether it can be read), bytes or
  the end of the stream, or none of the events asked for.
\<close>

datatype poll = Poll_Timeout | Poll_Error | Poll_Urgent bool | Poll_In | Poll_Other

text \<open>
  The switch over the type of a frame: the outcome when the call returns, or the payload with
  which the loop goes on.
\<close>

definition hello_name :: bytes where
  "hello_name = [0x2d, 0x31]"

definition on_frame :: "u8 \<Rightarrow> u16 \<Rightarrow> bytes \<Rightarrow> stream_socket \<Rightarrow>
    (await_outcome + bytes) \<times> stream_socket" where
  "on_frame info slot payload s =
     (if info = REQUEST_SESSION_PAYLOAD then
        (case recv_payload payload (incoming s) of
           (Got p, ps) \<Rightarrow> (Inl (Await_Returns Await_Payload slot p), s\<lparr>incoming := ps\<rparr>)
         | (Peer_Closed, ps) \<Rightarrow> (Inl (Await_Returns Await_Socket_Closed slot payload), s\<lparr>incoming := ps\<rparr>)
         | (Overrun, ps) \<Rightarrow> (Inl Await_Undefined, s\<lparr>incoming := ps\<rparr>))
      else if info = REQUEST_RESULT_SET_BYE_OK then
        (case recv_payload [] (incoming s) of
           (Got p, ps) \<Rightarrow>
             (case release_slot slot (s\<lparr>incoming := ps\<rparr>) of
                Inl e \<Rightarrow> (Inl (Await_Throws e), s\<lparr>incoming := ps\<rparr>)
              | Inr s' \<Rightarrow> (Inr payload, s'))
         | (Peer_Closed, ps) \<Rightarrow> (Inl (Await_Returns Await_Socket_Closed slot payload), s\<lparr>incoming := ps\<rparr>)
         | (Overrun, ps) \<Rightarrow> (Inl Await_Undefined, s\<lparr>incoming := ps\<rparr>))
      else if info = REQUEST_SESSION_HELLO then
        (case recv_payload payload (incoming s) of
           (Got p, ps) \<Rightarrow>
             (Inr p, send_response RESPONSE_SESSION_HELLO_OK 0 hello_name False (s\<lparr>incoming := ps\<rparr>))
         | (Peer_Closed, ps) \<Rightarrow> (Inr payload, s\<lparr>incoming := ps\<rparr>)
         | (Overrun, ps) \<Rightarrow> (Inl Await_Undefined, s\<lparr>incoming := ps\<rparr>))
      else if info = REQUEST_SESSION_BYE then
        (case recv_payload payload (incoming s) of
           (Got p, ps) \<Rightarrow> (Inl (Await_Returns Await_Termination_Request slot p),
              s\<lparr>incoming := ps, session_closed := True\<rparr>)
         | (Peer_Closed, ps) \<Rightarrow> (Inl (Await_Returns Await_Socket_Closed slot payload), s\<lparr>incoming := ps\<rparr>)
         | (Overrun, ps) \<Rightarrow> (Inl Await_Undefined, s\<lparr>incoming := ps\<rparr>))
      else if info = REQUEST_ALIVE_CHECK then (Inr payload, s)
      else (Inl (Await_Returns Await_Illegal_Message slot payload), socket_close s))"

text \<open>The type and the slot of the next frame; a failing \<^verbatim>\<open>recv\<close> leaves the type as it was.\<close>

definition read_frame_head :: "u8 \<Rightarrow> u16 \<Rightarrow> packet list \<Rightarrow> (recv_outcome + u8 \<times> u16) \<times> packet list" where
  "read_frame_head info slot ps = (case sys_recv 1 ps of
     (s, b, ps1) \<Rightarrow>
       if s = 0 then (Inl Peer_Closed, ps1)
       else (let info = (case b of [] \<Rightarrow> info | x # _ \<Rightarrow> x) in
             case recv_bytes 2 ps1 of
               (Got buffer, ps2) \<Rightarrow> (Inr (info, read_slot buffer), ps2)
             | (out, ps2) \<Rightarrow> (Inl out, ps2)))"

fun stream_await :: "poll list \<Rightarrow> u8 \<Rightarrow> u16 \<Rightarrow> bytes \<Rightarrow> stream_socket \<Rightarrow> await_outcome \<times> stream_socket" where
  "stream_await [] info slot payload s = (Still_Waiting, s)"
| "stream_await (Poll_Timeout # polls) info slot payload s = (Await_Returns Await_Timeout slot payload, s)"
| "stream_await (Poll_Error # polls) info slot payload s = (Await_Throws (Runtime_Error ''error in poll''), s)"
| "stream_await (Poll_Urgent ok # polls) info slot payload s =
     (Await_Returns (if ok then Await_Timeout else Await_Socket_Closed) slot payload, s)"
| "stream_await (Poll_In # polls) info slot payload s = (case read_frame_head info slot (incoming s) of
     (Inl Overrun, ps) \<Rightarrow> (Await_Undefined, s\<lparr>incoming := ps\<rparr>)
   | (Inl _, ps) \<Rightarrow> (Await_Returns Await_Socket_Closed slot payload, s\<lparr>incoming := ps\<rparr>)
   | (Inr (info', slot'), ps) \<Rightarrow>
       (case on_frame info' slot' payload (s\<lparr>incoming := ps\<rparr>) of
          (Inl out, s') \<Rightarrow> (out, s')
        | (Inr payload', s') \<Rightarrow> stream_await polls info' slot' payload' s'))"
| "stream_await (Poll_Other # polls) info slot payload s = (case on_frame info slot payload s of
     (Inl out, s') \<Rightarrow> (out, s')
   | (Inr payload', s') \<Rightarrow> stream_await polls info slot payload' s')"

end
