(* ===== verification/Stream_Properties.thy ===== *)
theory Stream_Properties
  imports Stream_Socket
begin

text \<open>
  Properties of the stream connection: however the network cuts the bytes, the server reads the
  frames the client sent; what the server sends can be read back frame by frame; and what a
  failing \<^verbatim>\<open>recv\<close> does.
\<close>

section \<open>The codec of slots and lengths\<close>

lemma strip_ucast: "strip b = ucast b"
proof -
  have m: "(255 :: u32) = mask 8"
    by (simp add: mask_eq_exp_minus_1)
  show ?thesis
    unfolding strip_def m by (rule bit_word_eqI) (auto simp: bit_simps dest: bit_imp_le_length)
qed

lemma low_byte: "ucast (w AND 255) = (ucast w :: u8)" for w :: "'a::len word"
proof -
  have m: "(255 :: 'a word) = mask 8"
    by (simp add: mask_eq_exp_minus_1)
  show ?thesis
    unfolding m by (rule bit_word_eqI) (auto simp: bit_simps dest: bit_imp_le_length)
qed

lemma length_bytes_le: "length_bytes n = le_encode 4 n"
proof -
  have d: "n div 256 = drop_bit 8 n" "n div 65536 = drop_bit 16 n" "n div 16777216 = drop_bit 24 n"
    by (simp_all add: drop_bit_eq_div)
  show ?thesis
    unfolding length_bytes_def d low_byte by (simp add: eval_nat_numeral)
qed

lemma read_length_le: "length bs = 4 \<Longrightarrow> read_length bs = le_decode bs"
  by (auto simp: strip_ucast length_Suc_conv eval_nat_numeral push_bit_or ac_simps)

lemma read_length_bytes [simp]: "read_length (length_bytes n) = n"
  by (simp add: length_bytes_le read_length_le le_decode_encode)

lemma read_slot_bytes [simp]: "read_slot (slot_bytes slot) = slot"
proof -
  have d: "slot div 256 = drop_bit 8 slot"
    by (simp add: drop_bit_eq_div)
  show ?thesis
    unfolding slot_bytes_def read_slot.simps strip_ucast d low_byte
    by (rule bit_word_eqI) (auto simp: bit_simps)
qed

lemma length_slot_bytes [simp]: "length (slot_bytes slot) = 2"
  by (simp add: slot_bytes_def)

lemma length_length_bytes [simp]: "length (length_bytes n) = 4"
  by (simp add: length_bytes_def)

section \<open>Reading from pieces\<close>

definition delivers :: "packet list \<Rightarrow> bool" where
  "delivers ps \<longleftrightarrow> (\<forall>p \<in> set ps. \<exists>b. p = Data b \<and> b \<noteq> [])"

definition stream_of :: "packet list \<Rightarrow> bytes" where
  "stream_of ps = concat (map (\<lambda>p. case p of Data b \<Rightarrow> b | Failure \<Rightarrow> []) ps)"

lemma stream_of_simps [simp]:
  "stream_of [] = []" "stream_of (Data b # ps) = b @ stream_of ps"
  by (simp_all add: stream_of_def)

lemma delivers_simps [simp]:
  "delivers []" "delivers (Data b # ps) \<longleftrightarrow> b \<noteq> [] \<and> delivers ps" "\<not> delivers (Failure # ps)"
  by (auto simp: delivers_def)

lemma sys_recv_flat:
  assumes "delivers ps" "0 < n" "sys_recv n ps = (s, b, ps')"
  shows "delivers ps'" "stream_of ps = b @ stream_of ps'" "s = int (length b)" "length b \<le> n"
    "b = [] \<longleftrightarrow> ps = []"
  using assms by (cases "(n, ps)" rule: sys_recv.cases; auto split: if_splits)+

lemma recv_loop_flat:
  assumes "delivers ps" "stream_of ps = bs @ rest" "length buf + length bs = n"
  shows "\<exists>ps'. recv_loop n (int (length buf)) buf ps = (Got (buf @ bs), ps') \<and>
    delivers ps' \<and> stream_of ps' = rest"
  using assms
proof (induction "packets_size ps" arbitrary: ps buf bs rule: less_induct)
  case less
  show ?case
  proof (cases "bs = []")
    case True
    then show ?thesis
      using less.prems by (simp add: recv_loop.simps)
  next
    case False
    then have pos: "length buf < n"
      using less.prems(3) by auto
    obtain s b ps' where r: "sys_recv (n - length buf) ps = (s, b, ps')"
      by (cases "sys_recv (n - length buf) ps")
    have flat: "delivers ps'" "stream_of ps = b @ stream_of ps'" "s = int (length b)"
      "length b \<le> length bs" "b = [] \<longleftrightarrow> ps = []"
      using sys_recv_flat [OF less.prems(1) _ r] pos less.prems(3) by auto
    have "b \<noteq> []"
      using flat(5) less.prems(2) False by auto
    then have unfold: "recv_loop n (int (length buf)) buf ps = recv_loop n (int (length (buf @ b))) (buf @ b) ps'"
      using pos r flat(3) by (subst recv_loop.simps) (simp add: nat_diff_distrib memcpy_to_def)
    obtain bs' where split: "bs = b @ bs'" "stream_of ps' = bs' @ rest"
    proof (rule that [of "drop (length b) bs"])
      have "b = take (length b) bs"
        using less.prems(2) flat(2,4) by (simp add: append_eq_conv_conj)
      then show "bs = b @ drop (length b) bs"
        by (metis append_take_drop_id)
      show "stream_of ps' = drop (length b) bs @ rest"
        using less.prems(2) flat(2,4) by (simp add: append_eq_conv_conj)
    qed
    have "packets_size ps' < packets_size ps"
      using sys_recv_decreases [OF r] flat(3) \<open>b \<noteq> []\<close> by simp
    moreover have "length (buf @ b) + length bs' = n"
      using split(1) less.prems(3) by simp
    ultimately obtain ps2 where "recv_loop n (int (length (buf @ b))) (buf @ b) ps' =
        (Got ((buf @ b) @ bs'), ps2)" "delivers ps2" "stream_of ps2 = rest"
      using less.hyps flat(1) split(2) by blast
    then show ?thesis
      using unfold split(1) by simp
  qed
qed

lemma recv_bytes_flat:
  assumes "delivers ps" "stream_of ps = bs @ rest" "length bs = n"
  shows "\<exists>ps'. recv_bytes n ps = (Got bs, ps') \<and> delivers ps' \<and> stream_of ps' = rest"
  using recv_loop_flat [of ps bs rest "[]" n] assms by (simp add: recv_bytes_def)

lemma recv_payload_flat:
  assumes "delivers ps" "stream_of ps = length_bytes (of_nat (length p)) @ p @ rest" "length p < 2 ^ 32"
  shows "\<exists>ps'. recv_payload q ps = (Got (if p = [] then q else p), ps') \<and>
    delivers ps' \<and> stream_of ps' = rest"
proof -
  have len: "unat (of_nat (length p) :: u32) = length p"
    using assms(3) by (simp add: unat_of_nat take_bit_nat_eq_self)
  obtain ps1 where ps1: "recv_bytes 4 ps = (Got (length_bytes (of_nat (length p))), ps1)"
    "delivers ps1" "stream_of ps1 = p @ rest"
    using recv_bytes_flat [OF assms(1,2), of 4] by auto
  show ?thesis
    using recv_bytes_flat [OF ps1(2,3) refl] ps1 by (auto simp: recv_payload_def len)
qed

section \<open>Frames of a client\<close>

datatype client_frame =
    Hello_Frame u16 bytes
  | Request_Frame u16 bytes
  | Bye_Ok_Frame u16 bytes
  | Alive_Frame u16

definition with_payload :: "u8 \<Rightarrow> u16 \<Rightarrow> bytes \<Rightarrow> bytes" where
  "with_payload info slot p = info # slot_bytes slot @ length_bytes (of_nat (length p)) @ p"

fun encode_frame :: "client_frame \<Rightarrow> bytes" where
  "encode_frame (Hello_Frame slot p) = with_payload REQUEST_SESSION_HELLO slot p"
| "encode_frame (Request_Frame slot p) = with_payload REQUEST_SESSION_PAYLOAD slot p"
| "encode_frame (Bye_Ok_Frame slot p) = with_payload REQUEST_RESULT_SET_BYE_OK slot p"
| "encode_frame (Alive_Frame slot) = REQUEST_ALIVE_CHECK # slot_bytes slot"

text \<open>A frame after which \<^verbatim>\<open>await\<close> goes on waiting, for a connection with \<open>n\<close> slots.\<close>

fun passes :: "nat \<Rightarrow> client_frame \<Rightarrow> bool" where
  "passes n (Hello_Frame slot p) = (length p < 2 ^ 32)"
| "passes n (Request_Frame slot p) = False"
| "passes n (Bye_Ok_Frame slot p) = (length p < 2 ^ 32 \<and> unat slot < n)"
| "passes n (Alive_Frame slot) = True"

fun left_over :: "bytes \<Rightarrow> client_frame \<Rightarrow> bytes" where
  "left_over q (Hello_Frame slot p) = (if p = [] then q else p)"
| "left_over q _ = q"

lemma read_frame_head_flat:
  assumes "delivers ps" "stream_of ps = info' # slot_bytes slot' @ rest"
  shows "\<exists>ps'. read_frame_head info slot ps = (Inr (info', slot'), ps') \<and> delivers ps' \<and> stream_of ps' = rest"
proof -
  obtain s b ps1 where r: "sys_recv 1 ps = (s, b, ps1)"
    by (cases "sys_recv 1 ps")
  have flat: "delivers ps1" "stream_of ps = b @ stream_of ps1" "s = int (length b)" "length b \<le> 1"
    "b = [] \<longleftrightarrow> ps = []"
    using sys_recv_flat [OF assms(1) _ r] by auto
  have "ps \<noteq> []"
    using assms(2) by auto
  then have b: "b = [info']" "stream_of ps1 = slot_bytes slot' @ rest"
    using flat(2,4,5) assms(2) by (cases b; simp)+
  then obtain ps2 where "recv_bytes 2 ps1 = (Got (slot_bytes slot'), ps2)" "delivers ps2" "stream_of ps2 = rest"
    using recv_bytes_flat [OF flat(1) b(2), of 2] by auto
  then show ?thesis
    using r flat(3) b(1) by (simp add: read_frame_head_def)
qed

text \<open>What such a frame does to the connection.\<close>

fun after_frame :: "client_frame \<Rightarrow> stream_socket \<Rightarrow> stream_socket" where
  "after_frame (Hello_Frame slot p) s = send_response RESPONSE_SESSION_HELLO_OK 0 hello_name False s"
| "after_frame (Bye_Ok_Frame slot p) s =
     (if sending s ! unat slot = Sending then s\<lparr>sending := (sending s)[unat slot := Closed]\<rparr> else s)"
| "after_frame _ s = s"

lemma send_response_fields [simp]:
  "incoming (send_response i sl p f s) = incoming s" "sending (send_response i sl p f s) = sending s"
  "send_response i sl p f (s\<lparr>incoming := ps\<rparr>) = (send_response i sl p f s)\<lparr>incoming := ps\<rparr>"
  by (simp_all add: send_response_def send_payload_def sys_send_def Let_def)

lemma after_frame_fields [simp]:
  "length (sending (after_frame f s)) = length (sending s)" "incoming (after_frame f s) = incoming s"
  "after_frame f (s\<lparr>incoming := ps\<rparr>) = (after_frame f s)\<lparr>incoming := ps\<rparr>"
  by (cases f; simp)+

lemma on_passing_frame:
  assumes "delivers (incoming s)" "passes (length (sending s)) f"
    "encode_frame f = info # slot_bytes slot @ p" "stream_of (incoming s) = p @ rest"
  shows "\<exists>ps. on_frame info slot q s = (Inr (left_over q f), (after_frame f s)\<lparr>incoming := ps\<rparr>) \<and>
    delivers ps \<and> stream_of ps = rest"
proof (cases f)
  case (Hello_Frame sl x)
  then have f: "info = REQUEST_SESSION_HELLO" "p = length_bytes (of_nat (length x)) @ x" "length x < 2 ^ 32"
    using assms(2,3) by (simp_all add: with_payload_def slot_bytes_def)
  then obtain ps where "recv_payload q (incoming s) = (Got (if x = [] then q else x), ps)"
    "delivers ps" "stream_of ps = rest"
    using recv_payload_flat [OF assms(1), of x rest q] assms(4) by auto
  then show ?thesis
    using Hello_Frame f(1) by (auto simp: on_frame_def frame_types)
next
  case (Bye_Ok_Frame sl x)
  then have f: "info = REQUEST_RESULT_SET_BYE_OK" "p = length_bytes (of_nat (length x)) @ x"
    "length x < 2 ^ 32" "slot_bytes slot = slot_bytes sl" "unat sl < length (sending s)"
    using assms(2,3) by (simp_all add: with_payload_def slot_bytes_def)
  then have "slot = sl"
    using read_slot_bytes by metis
  moreover obtain ps where "recv_payload [] (incoming s) = (Got x, ps)" "delivers ps" "stream_of ps = rest"
    using recv_payload_flat [OF assms(1), of x rest "[]"] assms(4) f(2,3) by (auto split: if_splits)
  ultimately show ?thesis
    using Bye_Ok_Frame f(1,5)
    by (intro exI [of _ ps]) (simp add: on_frame_def frame_types release_slot_def at_checked_def)
next
  case (Alive_Frame sl)
  then show ?thesis
    using assms by (intro exI [of _ "incoming s"]) (simp add: on_frame_def frame_types slot_bytes_def)
qed (use assms(2) in simp)

lemma encode_frame_head: "\<exists>info slot p. encode_frame f = info # slot_bytes slot @ p"
  by (cases f) (auto simp: with_payload_def)

lemma await_frames:
  assumes "delivers (incoming s)" "\<forall>f \<in> set fs. passes (length (sending s)) f" "length p < 2 ^ 32"
    "stream_of (incoming s) = concat (map encode_frame fs) @ encode_frame (Request_Frame slot p) @ rest"
  shows "\<exists>ps. stream_await (replicate (Suc (length fs)) Poll_In @ polls) old_info old_slot q s =
      (Await_Returns Await_Payload slot (if p = [] then foldl left_over q fs else p),
       (fold after_frame fs s)\<lparr>incoming := ps\<rparr>) \<and> delivers ps \<and> stream_of ps = rest"
  using assms
proof (induction fs arbitrary: s q old_info old_slot)
  case Nil
  obtain ps1 where head: "read_frame_head old_info old_slot (incoming s) = (Inr (REQUEST_SESSION_PAYLOAD, slot), ps1)"
    "delivers ps1" "stream_of ps1 = length_bytes (of_nat (length p)) @ p @ rest"
    using read_frame_head_flat [OF Nil(1), of REQUEST_SESSION_PAYLOAD slot _ old_info old_slot] Nil(4)
    by (auto simp: with_payload_def)
  with recv_payload_flat [OF head(2,3) Nil(3), of q] show ?case
    by (auto simp: on_frame_def frame_types)
next
  case (Cons f fs)
  obtain info sl x where f: "encode_frame f = info # slot_bytes sl @ x"
    using encode_frame_head by blast
  let ?rest = "concat (map encode_frame fs) @ encode_frame (Request_Frame slot p) @ rest"
  obtain ps1 where head: "read_frame_head old_info old_slot (incoming s) = (Inr (info, sl), ps1)"
    "delivers ps1" "stream_of ps1 = x @ ?rest"
    using read_frame_head_flat [OF Cons.prems(1), of info sl "x @ ?rest" old_info old_slot] Cons.prems(4) f by auto
  obtain ps2 where ps2: "on_frame info sl q (s\<lparr>incoming := ps1\<rparr>) =
      (Inr (left_over q f), (after_frame f s)\<lparr>incoming := ps2\<rparr>)" "delivers ps2" "stream_of ps2 = ?rest"
    using on_passing_frame [of "s\<lparr>incoming := ps1\<rparr>" f info sl x ?rest q] head(2,3) Cons.prems(2) f by auto
  have "fold after_frame fs (t\<lparr>incoming := ps\<rparr>) = (fold after_frame fs t)\<lparr>incoming := ps\<rparr>" for t ps
    by (induction fs arbitrary: t) simp_all
  note fold = this
  have step: "stream_await (replicate (Suc (length (f # fs))) Poll_In @ polls) old_info old_slot q s =
      stream_await (replicate (Suc (length fs)) Poll_In @ polls) info sl (left_over q f) ((after_frame f s)\<lparr>incoming := ps2\<rparr>)"
    using head(1) ps2(1) by simp
  let ?s = "(after_frame f s)\<lparr>incoming := ps2\<rparr>"
  have "delivers (incoming ?s)" "\<forall>f \<in> set fs. passes (length (sending ?s)) f" "stream_of (incoming ?s) = ?rest"
    using ps2 Cons.prems(2) by simp_all
  then obtain ps where "stream_await (replicate (Suc (length fs)) Poll_In @ polls) info sl (left_over q f) ?s =
      (Await_Returns Await_Payload slot (if p = [] then foldl left_over (left_over q f) fs else p),
       (fold after_frame fs ?s)\<lparr>incoming := ps\<rparr>)" "delivers ps" "stream_of ps = rest"
    using Cons.IH [where s = ?s] Cons.prems(3) by blast
  then show ?case
    unfolding step by (intro exI [of _ ps]) (simp add: fold del: stream_await.simps)
qed

section \<open>Frames of the server\<close>

datatype server_frame =
    Response_Frame u8 u16 bytes
  | Data_Frame u16 u8 bytes

fun encode_server_frame :: "server_frame \<Rightarrow> bytes" where
  "encode_server_frame (Response_Frame info slot p) = with_payload info slot p"
| "encode_server_frame (Data_Frame slot writer p) =
     RESPONSE_RESULT_SET_PAYLOAD # slot_bytes slot @ writer # length_bytes (of_nat (length p)) @ p"

fun frame_ok :: "server_frame \<Rightarrow> bool" where
  "frame_ok (Response_Frame info slot p) \<longleftrightarrow> info \<noteq> RESPONSE_RESULT_SET_PAYLOAD \<and> length p < 2 ^ 32"
| "frame_ok (Data_Frame slot writer p) \<longleftrightarrow> length p < 2 ^ 32"

text \<open>How a client reads the frames from the bytes it receives.\<close>

definition read_sized :: "bytes \<Rightarrow> (bytes \<times> bytes) option" where
  "read_sized bs =
     (let n = unat (read_length (take 4 bs)) in
      if length bs < 4 + n then None else Some (take n (drop 4 bs), drop (4 + n) bs))"

definition read_server_frame :: "bytes \<Rightarrow> (server_frame \<times> bytes) option" where
  "read_server_frame bs = (case bs of
     info # b0 # b1 # rest \<Rightarrow>
       (if info = RESPONSE_RESULT_SET_PAYLOAD then
          (case rest of
             [] \<Rightarrow> None
           | w # rest' \<Rightarrow> map_option (\<lambda>(p, bs'). (Data_Frame (read_slot [b0, b1]) w p, bs')) (read_sized rest'))
        else map_option (\<lambda>(p, bs'). (Response_Frame info (read_slot [b0, b1]) p, bs')) (read_sized rest))
   | _ \<Rightarrow> None)"

lemma read_sized_encode:
  assumes "length p < 2 ^ 32"
  shows "read_sized (length_bytes (of_nat (length p)) @ p @ rest) = Some (p, rest)"
proof -
  have "unat (of_nat (length p) :: u32) = length p"
    using assms by (simp add: unat_of_nat take_bit_nat_eq_self)
  then show ?thesis
    by (simp add: read_sized_def Let_def)
qed

lemma read_server_frame_encode:
  assumes "frame_ok f"
  shows "read_server_frame (encode_server_frame f @ rest) = Some (f, rest)"
proof -
  have cons: "slot_bytes sl @ xs = slot_bytes sl ! 0 # slot_bytes sl ! Suc 0 # xs" for sl xs
    by (simp add: slot_bytes_def)
  have read: "read_slot [slot_bytes sl ! 0, slot_bytes sl ! Suc 0] = sl" for sl
    using read_slot_bytes [of sl] cons [of sl "[]"] by (metis append_Nil2)
  show ?thesis
  proof (cases f)
    case (Response_Frame info sl p)
    then show ?thesis
      using assms read_sized_encode [of p rest] by (simp add: read_server_frame_def with_payload_def cons read del: read_slot.simps)
  next
    case (Data_Frame sl w p)
    then show ?thesis
      using assms read_sized_encode [of p rest] by (simp add: read_server_frame_def cons read del: read_slot.simps)
  qed
qed

fun read_frames :: "nat \<Rightarrow> bytes \<Rightarrow> server_frame list option" where
  "read_frames n [] = Some []"
| "read_frames 0 bs = None"
| "read_frames (Suc n) bs = (case read_server_frame bs of
     None \<Rightarrow> None
   | Some (f, rest) \<Rightarrow> map_option (Cons f) (read_frames n rest))"

lemma read_frames_encode:
  assumes "\<forall>f \<in> set fs. frame_ok f" "length (concat (map encode_server_frame fs)) \<le> n"
  shows "read_frames n (concat (map encode_server_frame fs)) = Some fs"
  using assms
proof (induction fs arbitrary: n)
  case (Cons f fs)
  have "encode_server_frame f \<noteq> []"
    by (cases f) (simp_all add: with_payload_def)
  then obtain b bs where b: "encode_server_frame f = b # bs"
    by (cases "encode_server_frame f") auto
  obtain m where n: "n = Suc m"
    using Cons.prems(2) b by (cases n) auto
  have "read_server_frame (encode_server_frame f @ concat (map encode_server_frame fs)) =
      Some (f, concat (map encode_server_frame fs))"
    using Cons.prems(1) by (intro read_server_frame_encode) simp
  then show ?case
    using Cons b n by simp
qed simp

text \<open>The operations by which the responses of a session send.\<close>

datatype server_op =
    Send_Body u16 bytes bool
  | Send_Hello u16 bytes
  | Send_Bye u16
  | Send_Bye_Ok
  | Send_Data u16 u8 bytes

fun run_op :: "server_op \<Rightarrow> stream_socket \<Rightarrow> stream_socket result" where
  "run_op (Send_Body slot p body) s = Inr (send_body slot p body s)"
| "run_op (Send_Hello slot p) s = send_result_set_hello slot p s"
| "run_op (Send_Bye slot) s = Inr (send_result_set_bye slot s)"
| "run_op Send_Bye_Ok s = Inr (send_session_bye_ok s)"
| "run_op (Send_Data slot w p) s = send_result_set slot w p s"

fun op_size :: "server_op \<Rightarrow> nat" where
  "op_size (Send_Body slot p body) = length p"
| "op_size (Send_Hello slot p) = length p"
| "op_size (Send_Data slot w p) = length p"
| "op_size _ = 0"

text \<open>The frames an operation stands for, given the state of the connection.\<close>

fun emitted :: "server_op \<Rightarrow> stream_socket \<Rightarrow> server_frame list" where
  "emitted (Send_Body slot p body) s = (if session_closed s then [] else
     [Response_Frame (if body then RESPONSE_SESSION_PAYLOAD else RESPONSE_SESSION_BODYHEAD) slot p])"
| "emitted (Send_Hello slot p) s = (if session_closed s then [] else
     [Response_Frame RESPONSE_RESULT_SET_HELLO slot p])"
| "emitted (Send_Bye slot) s = (if session_closed s then [] else
     [Response_Frame RESPONSE_RESULT_SET_BYE slot []])"
| "emitted Send_Bye_Ok s = [Response_Frame RESPONSE_SESSION_BYE_OK 0 []]"
| "emitted (Send_Data slot w p) s = (case sending s ! unat slot of
     Closed \<Rightarrow> Data_Frame slot w [] #
       (if session_closed s then [] else [Response_Frame RESPONSE_RESULT_SET_BYE slot []])
   | Finished \<Rightarrow> []
   | Sending \<Rightarrow> if session_closed s then [] else
       (if p = [] then [] else [Data_Frame slot w p]) @ [Data_Frame slot w []])"

fun run_ops :: "server_op list \<Rightarrow> stream_socket \<Rightarrow> (server_frame list \<times> stream_socket) result" where
  "run_ops [] s = Inr ([], s)"
| "run_ops (c # cs) s = bind_result (run_op c s) (\<lambda>s'.
     bind_result (run_ops cs s') (\<lambda>(fs, s''). Inr (emitted c s @ fs, s'')))"

lemma send_payload_outgoing:
  assumes "\<not> socket_closed s" "length p < 2 ^ 32"
  shows "outgoing (send_payload p s) = outgoing s @ length_bytes (of_nat (length p)) @ p"
    and "\<not> socket_closed (send_payload p s)"
proof -
  have "unat (of_nat (length p) :: u32) = length p"
    using assms(2) by (simp add: unat_of_nat take_bit_nat_eq_self)
  moreover from this have "(of_nat (length p) :: u32) = 0 \<longleftrightarrow> p = []"
    by (metis length_0_conv unat_eq_0)
  ultimately show "outgoing (send_payload p s) = outgoing s @ length_bytes (of_nat (length p)) @ p"
    "\<not> socket_closed (send_payload p s)"
    using assms(1) by (auto simp: send_payload_def sys_send_def Let_def word_gt_0)
qed

lemma send_response_outgoing:
  assumes "\<not> socket_closed s" "length p < 2 ^ 32"
  shows "outgoing (send_response i sl p f s) =
      outgoing s @ (if session_closed s \<and> \<not> f then [] else with_payload i sl p)"
    and "\<not> socket_closed (send_response i sl p f s)"
  using assms send_payload_outgoing [of "sys_send (slot_bytes sl) (sys_send [i] s)" p]
  by (auto simp: send_response_def sys_send_def with_payload_def)

lemma delimiter_outgoing:
  assumes "\<not> socket_closed s"
  shows "outgoing (send_result_set_delimiter sl w s) =
      outgoing s @ encode_server_frame (Data_Frame sl w [])"
    and "\<not> socket_closed (send_result_set_delimiter sl w s)"
    and "session_closed (send_result_set_delimiter sl w s) = session_closed s"
proof -
  have "length_bytes 0 = [0, 0, 0, 0]"
    by (simp add: length_bytes_def)
  then show "outgoing (send_result_set_delimiter sl w s) =
      outgoing s @ encode_server_frame (Data_Frame sl w [])"
    using assms by (simp add: send_result_set_delimiter_def sys_send_def)
  show "\<not> socket_closed (send_result_set_delimiter sl w s)"
    "session_closed (send_result_set_delimiter sl w s) = session_closed s"
    using assms by (simp_all add: send_result_set_delimiter_def sys_send_def)
qed

lemma run_op_outgoing:
  assumes "\<not> socket_closed s" "op_size c < 2 ^ 32" "run_op c s = Inr s'"
  shows "outgoing s' = outgoing s @ concat (map encode_server_frame (emitted c s))"
    and "\<not> socket_closed s'" and "\<forall>f \<in> set (emitted c s). frame_ok f"
proof -
  note sends = send_response_outgoing delimiter_outgoing
  have "outgoing s' = outgoing s @ concat (map encode_server_frame (emitted c s)) \<and> \<not> socket_closed s'"
  proof (cases c)
    case (Send_Data sl w p)
    let ?d = "sys_send [w] (sys_send (slot_bytes sl) (sys_send [RESPONSE_RESULT_SET_PAYLOAD] s))"
    have "outgoing (send_payload p ?d) = outgoing s @ encode_server_frame (Data_Frame sl w p)"
      "\<not> socket_closed (send_payload p ?d)"
      using assms(1,2) send_payload_outgoing [of ?d p] Send_Data by (simp_all add: sys_send_def)
    then show ?thesis
      using assms Send_Data sends
      by (auto simp: send_result_set_def bind_result_Inr_iff Let_def send_result_set_bye_def
        split: if_splits sending_status.splits)
  qed (use assms sends in \<open>auto simp: send_body_def send_result_set_hello_def bind_result_Inr_iff
    send_result_set_bye_def send_session_bye_ok_def\<close>)
  then show "outgoing s' = outgoing s @ concat (map encode_server_frame (emitted c s))" "\<not> socket_closed s'"
    by simp_all
  show "\<forall>f \<in> set (emitted c s). frame_ok f"
    using assms(2) by (cases c) (auto simp: frame_types split: sending_status.splits if_splits)
qed

lemma run_ops_outgoing:
  assumes "\<not> socket_closed s" "\<forall>c \<in> set cs. op_size c < 2 ^ 32" "run_ops cs s = Inr (fs, s')"
  shows "outgoing s' = outgoing s @ concat (map encode_server_frame fs) \<and> (\<forall>f \<in> set fs. frame_ok f)"
  using assms
proof (induction cs arbitrary: s fs)
  case (Cons c cs)
  then obtain s1 fs1 where run: "run_op c s = Inr s1" "run_ops cs s1 = Inr (fs1, s')"
    and fs: "fs = emitted c s @ fs1"
    by (auto simp: bind_result_Inr_iff)
  have "op_size c < 2 ^ 32"
    using Cons.prems(2) by simp
  note one = run_op_outgoing [OF Cons.prems(1) this run(1)]
  have "outgoing s' = outgoing s1 @ concat (map encode_server_frame fs1) \<and> (\<forall>f \<in> set fs1. frame_ok f)"
    using Cons.IH [OF one(2) _ run(2)] Cons.prems(2) by simp
  then show ?case
    using one(1,3) fs by auto
qed simp

section \<open>Properties\<close>

text \<open>
  C9. However the network cuts the bytes of a client into pieces, \<^verbatim>\<open>await\<close> returns the
  client's next request with its slot and leaves the bytes after it unread, having handled the
  alive checks, the closed result sets and the greetings before it. (A request without content
  is given the content of the last such greeting.)
\<close>

theorem stream_requests_received:
  assumes "delivers (incoming s)" "\<forall>f \<in> set fs. passes (length (sending s)) f" "length p < 2 ^ 32"
    "stream_of (incoming s) = concat (map encode_frame fs) @ encode_frame (Request_Frame slot p) @ rest"
  shows "\<exists>ps. stream_await (replicate (Suc (length fs)) Poll_In @ polls) 0 0 [] s =
      (Await_Returns Await_Payload slot (if p = [] then foldl left_over [] fs else p),
       (fold after_frame fs s)\<lparr>incoming := ps\<rparr>) \<and> delivers ps \<and> stream_of ps = rest"
  by (rule await_frames [OF assms])

theorem stream_requests_received_witness:
  "\<exists>s. stream_await [Poll_In, Poll_In] 0 0 []
     (new_stream_socket [Data [5, 1], Data [0, 2, 7, 0, 3], Data [0, 0, 0, 10, 11], Data [12]]) =
     (Await_Returns Await_Payload 7 [10, 11, 12], s)"
proof -
  let ?s = "new_stream_socket [Data [5, 1], Data [0, 2, 7, 0, 3], Data [0, 0, 0, 10, 11], Data [12]]"
  have bytes: "slot_bytes 1 = [1, 0]" "slot_bytes 7 = [7, 0]" "length_bytes 3 = [3, 0, 0, 0]"
    by code_simp+
  have "stream_of (incoming ?s) = concat (map encode_frame [Alive_Frame 1]) @
      encode_frame (Request_Frame 7 [10, 11, 12]) @ []"
    using bytes by (simp add: new_stream_socket_def with_payload_def frame_types)
  then show ?thesis
    using stream_requests_received [of ?s "[Alive_Frame 1]" "[10, 11, 12]" 7 "[]" "[]"]
    by (auto simp: new_stream_socket_def)
qed

text \<open>
  C10. A client can read back what the server sends: after any sequence of sends on an open
  connection, the bytes sent are exactly the frames the sends stand for, whole and in order.
\<close>

theorem server_stream_readable:
  assumes "run_ops cs (new_stream_socket ps) = Inr (fs, s)" "\<forall>c \<in> set cs. op_size c < 2 ^ 32"
  shows "read_frames (length (outgoing s)) (outgoing s) = Some fs"
proof -
  have "\<not> socket_closed (new_stream_socket ps)" "outgoing (new_stream_socket ps) = []"
    by (simp_all add: new_stream_socket_def)
  then show ?thesis
    using run_ops_outgoing [OF _ assms(2,1)] read_frames_encode [of fs "length (outgoing s)"] by simp
qed

theorem server_stream_readable_witness:
  "\<exists>s. run_ops [Send_Hello 1 [65], Send_Data 1 0 [9, 9], Send_Bye 1] (new_stream_socket []) =
      Inr ([Response_Frame RESPONSE_RESULT_SET_HELLO 1 [65], Data_Frame 1 0 [9, 9], Data_Frame 1 0 [],
        Response_Frame RESPONSE_RESULT_SET_BYE 1 []], s) \<and>
    read_frames (length (outgoing s)) (outgoing s) = Some
      [Response_Frame RESPONSE_RESULT_SET_HELLO 1 [65], Data_Frame 1 0 [9, 9], Data_Frame 1 0 [],
        Response_Frame RESPONSE_RESULT_SET_BYE 1 []]"
proof -
  let ?fs = "[Response_Frame RESPONSE_RESULT_SET_HELLO 1 [65], Data_Frame 1 0 [9, 9], Data_Frame 1 0 [],
    Response_Frame RESPONSE_RESULT_SET_BYE 1 []]"
  have "map_sum id fst (run_ops [Send_Hello 1 [65], Send_Data 1 0 [9, 9], Send_Bye 1] (new_stream_socket [])) =
      Inr ?fs"
    by code_simp
  then obtain s where run: "run_ops [Send_Hello 1 [65], Send_Data 1 0 [9, 9], Send_Bye 1]
      (new_stream_socket []) = Inr (?fs, s)"
    by (cases "run_ops [Send_Hello 1 [65], Send_Data 1 0 [9, 9], Send_Bye 1] (new_stream_socket [])") auto
  from server_stream_readable [OF run] run show ?thesis by auto
qed

text \<open>
  C36. The end of a result set that the client closed is sent even after the client has closed
  the session, when nothing but the farewell should follow: the delimiter is written without a
  look at the state of the session.
\<close>

theorem delimiter_after_session_end:
  assumes "session_closed s" "\<not> socket_closed s" "unat slot < length (sending s)"
    "sending s ! unat slot = Closed"
  shows "\<exists>s'. send_result_set slot w p s = Inr s' \<and>
    outgoing s' = outgoing s @ encode_server_frame (Data_Frame slot w [])"
  using assms delimiter_outgoing [of s slot w]
    send_response_outgoing [of "send_result_set_delimiter slot w s" "[]"]
  by (simp add: send_result_set_def at_checked_def send_result_set_bye_def Let_def)

theorem delimiter_after_session_end_witness:
  "\<exists>s'. send_result_set 3 1 [7]
     ((new_stream_socket [])\<lparr>session_closed := True, sending := replicate 16 Closed\<rparr>) = Inr s' \<and>
    outgoing s' = [2, 3, 0, 1, 0, 0, 0, 0]"
proof -
  let ?s = "(new_stream_socket [])\<lparr>session_closed := True, sending := replicate 16 Closed\<rparr>"
  have "encode_server_frame (Data_Frame 3 1 []) = [2, 3, 0, 1, 0, 0, 0, 0]"
    by code_simp
  then show ?thesis
    using delimiter_after_session_end [of ?s 3 1 "[7]"] by (simp add: new_stream_socket_def)
qed

text \<open>
  C37. A failing \<^verbatim>\<open>recv\<close> is not seen as a failure: its result -1 counts as the number of bytes
  received. When the first call for a message fails, the bytes that follow are written from one
  byte before the buffer.
\<close>

theorem failed_recv_overruns:
  assumes "0 < n" "b \<noteq> []"
  shows "fst (recv_bytes n (Failure # Data b # ps)) = Overrun"
proof -
  have first: "recv_bytes n (Failure # Data b # ps) = recv_loop n (-1) [] (Data b # ps)"
    using assms(1) unfolding recv_bytes_def by (subst recv_loop.simps) simp
  have "fst (recv_loop n (-1) [] (Data b # ps)) = Overrun"
    using assms(2) by (subst recv_loop.simps) (simp add: nat_add_distrib)
  then show ?thesis
    using first by simp
qed

theorem failed_recv_overruns_witness:
  "fst (recv_bytes 4 [Failure, Data [1, 2, 3, 4, 5]]) = Overrun"
  by (rule failed_recv_overruns) simp_all

end
