(* ===== verification/Stream_Worker.thy ===== *)
theory Stream_Worker
  imports Worker_Properties Stream_Properties
begin

text \<open>
  The worker of a stream session (\<^verbatim>\<open>endpoint/stream/bootstrap/stream_worker.cpp\<close>): the loop that
  waits for the handshake, and the loop that serves requests, each round of which begins with
  an outcome of \<^verbatim>\<open>await\<close>. The table of requests, the shutdown and the expiration are those of
  every worker.
\<close>

section \<open>State\<close>

record stream_session =
  ss_worker :: endpoint_worker
  ss_socket :: stream_socket

datatype round_end =
    Goes_On
  | Session_Starts
  | Ends
  | Draining
  | Round_Throws

definition on_worker :: "(endpoint_worker \<Rightarrow> endpoint_worker) \<Rightarrow> stream_session \<Rightarrow> stream_session" where
  "on_worker f st = st\<lparr>ss_worker := f (ss_worker st)\<rparr>"

definition on_socket :: "(stream_socket \<Rightarrow> stream_socket) \<Rightarrow> stream_session \<Rightarrow> stream_session" where
  "on_socket f st = st\<lparr>ss_socket := f (ss_socket st)\<rparr>"

text \<open>The end of the serving loop closes the socket.\<close>

definition ends :: "stream_session \<Rightarrow> round_end \<times> stream_session" where
  "ends st = (Ends, on_socket socket_close st)"

section \<open>Before the handshake\<close>

definition decline_reply :: "endpoint_command \<Rightarrow> endpoint_reply" where
  "decline_reply c =
     (let msg = ''requests for session connections exceeded the maximum number of sessions'' in
      case c of
        Encryption_Key \<Rightarrow> Key_Error Code_RESOURCE_LIMIT_REACHED msg
      | Handshake label app cred media wi \<Rightarrow> Handshake_Error Code_RESOURCE_LIMIT_REACHED msg
      | _ \<Rightarrow> Diagnostics Code_INVALID_REQUEST ''invalid request for handshake phase'')"

datatype start_event =
    Start_Payload int u16 u64 "endpoint_request option"
  | Start_Malformed
  | Start_Timeout
  | Start_Socket_Closed
  | Start_Termination
  | Start_Illegal

definition answer :: "u16 \<Rightarrow> endpoint_reply list \<Rightarrow> endpoint_worker \<Rightarrow> endpoint_worker" where
  "answer slot outs w = fold (\<lambda>m. send (ucast slot) (Endpoint_Reply m)) outs w"

text \<open>
  A session the server declines gets one reply. A handshake that fails waits for the client to
  close, as a declined one does; what \<^verbatim>\<open>await\<close> returns then does not matter.
\<close>

fun stream_start :: "endpoint_configuration \<Rightarrow> bool \<Rightarrow> stream_session \<Rightarrow> start_event \<Rightarrow>
    round_end \<times> stream_session" where
  "stream_start conf decline st (Start_Payload now slot service rq) =
     (if decline then
        (case rq of
           None \<Rightarrow> (Ends, on_worker (answer slot [Diagnostics Code_INVALID_REQUEST ''request parse error'']) st)
         | Some rq \<Rightarrow> (Ends, on_socket socket_close
             (on_worker (answer slot [decline_reply (endpoint_request.endpoint_command rq)]) st)))
      else
        (case handshake conf now service rq (worker_resources (ss_worker st)) of
           (end_of, outs, r) \<Rightarrow>
             (let st = on_worker (\<lambda>w. answer slot outs (w\<lparr>worker_resources := r\<rparr>)) st in
              case end_of of
                Handshake_Returns True \<Rightarrow>
                  (Session_Starts, on_socket (change_slot_size (unat (max_result_sets r))) st)
              | Handshake_Returns False \<Rightarrow> (Ends, on_socket socket_close st)
              | Handshake_Continues \<Rightarrow> (Goes_On, st))))"
| "stream_start conf decline st Start_Malformed = (Round_Throws, st)"
| "stream_start conf decline st Start_Timeout = (Goes_On, st)"
| "stream_start conf decline st Start_Socket_Closed = (Ends, on_socket socket_close st)"
| "stream_start conf decline st Start_Termination =
     (Ends, if complete_shutdown_from_client (ss_worker st) then on_socket send_session_bye_ok st else st)"
| "stream_start conf decline st Start_Illegal = (Ends, on_socket socket_close st)"

section \<open>Serving requests\<close>

datatype stream_event =
    Stream_Payload int u16 message
  | Stream_Malformed int
  | Stream_Timeout int
  | Stream_Termination
  | Stream_Socket_Closed
  | Stream_Illegal

definition stream_after_expiration :: "endpoint_configuration \<Rightarrow> int \<Rightarrow> endpoint_worker \<Rightarrow> endpoint_worker" where
  "stream_after_expiration conf now w =
     (if \<not> expiration_notified w \<and> is_expiration_time_over conf now w
      then (worker_request_shutdown Shutdown_Forceful w)\<lparr>expiration_notified := True\<rparr>
      else w)"

text \<open>\<^verbatim>\<open>check_shutdown_request() && is_completed()\<close>; a stream has no incomplete result sets.\<close>

definition shutdown_ready :: "endpoint_worker \<Rightarrow> bool \<times> endpoint_worker" where
  "shutdown_ready w = (case check_shutdown_request w of (asked, w') \<Rightarrow> (asked \<and> is_completed False w', w'))"

text \<open>A message for the endpoint, for the core service, or for another service.\<close>

fun stream_message :: "endpoint_configuration \<Rightarrow> int \<Rightarrow> u64 \<Rightarrow> message \<Rightarrow> endpoint_worker \<Rightarrow>
    bool \<times> endpoint_worker" where
  "stream_message conf now slot (To_Endpoint rq) w =
     (case endpoint_service conf now rq (worker_resources w) of
        (ok, outs, cancel, r) \<Rightarrow>
          (let w = fold (\<lambda>m. send slot (Endpoint_Reply m)) outs (w\<lparr>worker_resources := r\<rparr>) in
           (ok, if cancel
             then w\<lparr>reqreses := map (\<lambda>(s, e). (s, if s = slot then response_do_cancel e else e)) (reqreses w)\<rparr>
             else w)))"
| "stream_message conf now slot (To_Core cmd e blob_error service_ok) w =
     (case register_reqres slot e blob_error w of
        (False, w) \<Rightarrow> (True, w)
      | (True, w) \<Rightarrow>
          (case routing_service_chain now cmd slot w of
             (True, w) \<Rightarrow>
               (case shutdown_ready (care_reqreses w) of
                  (ready, w) \<Rightarrow> (True, if ready then shutdown_complete w else w))
           | (False, w) \<Rightarrow> (service_ok, w)))"
| "stream_message conf now slot (To_Service e blob_error service_ok) w =
     (case check_shutdown_request w of
        (True, w) \<Rightarrow> (True, notify_client slot Code_SESSION_CLOSED ''this session is already shutdown'' w)
      | (False, w) \<Rightarrow>
          (case register_reqres slot e blob_error w of
             (False, w) \<Rightarrow> (True, w)
           | (True, w) \<Rightarrow> (service_ok, w)))"

fun stream_round :: "endpoint_configuration \<Rightarrow> stream_session \<Rightarrow> stream_event \<Rightarrow>
    round_end \<times> stream_session" where
  "stream_round conf st (Stream_Payload now slot m) =
     (case stream_message conf now (ucast slot) m (update_expiration_time now False (ss_worker st)) of
        (ok, w) \<Rightarrow>
          (let st = st\<lparr>ss_worker := w\<rparr> in if ok then (Goes_On, st) else ends st))"
| "stream_round conf st (Stream_Malformed now) =
     (Round_Throws, on_worker (update_expiration_time now False) st)"
| "stream_round conf st (Stream_Timeout now) =
     (case shutdown_ready (care_reqreses (ss_worker st)) of
        (ready, w) \<Rightarrow>
          (let w = (if ready then shutdown_complete w else w) in
           if ready \<and> \<not> complete_shutdown_from_client w then ends (st\<lparr>ss_worker := w\<rparr>)
           else (Goes_On, st\<lparr>ss_worker := stream_after_expiration conf now w\<rparr>)))"
| "stream_round conf st Stream_Termination =
     (if complete_shutdown_from_client (ss_worker st)
      then ends (on_socket send_session_bye_ok st)
      else (Goes_On, on_socket send_session_bye_ok (on_worker (worker_request_shutdown Shutdown_Forceful) st)))"
| "stream_round conf st Stream_Socket_Closed =
     (if is_completed False (ss_worker st) then ends st else (Draining, on_worker care_reqreses st))"
| "stream_round conf st Stream_Illegal = ends st"

section \<open>Properties\<close>

text \<open>
  C27. A worker that times out ends its loop only when a shutdown was requested by somebody else
  than the client and no request is left; it has then not answered a shutdown, and the socket is
  closed.
\<close>

theorem stream_ends_idle:
  assumes "stream_round conf st (Stream_Timeout now) = (Ends, st')"
  shows "worker_shutdown (ss_worker st') \<noteq> Shutdown_Nothing \<and> reqreses (ss_worker st') = [] \<and>
    shutdown_response (ss_worker st') = [] \<and> \<not> complete_shutdown_from_client (ss_worker st') \<and>
    socket_closed (ss_socket st')"
proof -
  obtain ready w where ready: "shutdown_ready (care_reqreses (ss_worker st)) = (ready, w)"
    by force
  have end_of: "ready" "\<not> complete_shutdown_from_client (shutdown_complete w)"
    "ss_worker st' = shutdown_complete w" "socket_closed (ss_socket st')"
    using assms ready by (auto simp: ends_def on_socket_def socket_close_def Let_def split: if_splits)
  obtain asked where asked: "check_shutdown_request (care_reqreses (ss_worker st)) = (asked, w)"
    "asked" "is_completed False w"
    using ready end_of(1) by (auto simp: shutdown_ready_def split: prod.splits)
  have "shutdown_response w = []"
    using end_of(2) by (auto simp: shutdown_complete_def Let_def split: if_splits)
  moreover from this have "reqreses w = []"
    using asked(3) by (simp add: is_completed_def)
  moreover have "worker_shutdown w \<noteq> Shutdown_Nothing"
    using asked(1,2) by (auto simp: check_shutdown_request_def Let_def cancel_all_def foreach_reqreses_def
      split: if_splits)
  ultimately show ?thesis
    using end_of by (simp add: shutdown_complete_def)
qed

theorem stream_ends_idle_witness:
  "\<exists>st'. stream_round open_configuration
      \<lparr>ss_worker = sample_worker\<lparr>worker_shutdown := Shutdown_Graceful\<rparr>, ss_socket = new_stream_socket []\<rparr>
      (Stream_Timeout 0) = (Ends, st') \<and> reqreses (ss_worker st') = []"
proof -
  let ?st = "\<lparr>ss_worker = sample_worker\<lparr>worker_shutdown := Shutdown_Graceful\<rparr>, ss_socket = new_stream_socket []\<rparr>"
  obtain st' where run: "stream_round open_configuration ?st (Stream_Timeout 0) = (Ends, st')"
    by (simp add: shutdown_ready_def shutdown_complete_def ends_def worker_eval)
  from stream_ends_idle [OF run] run show ?thesis
    by blast
qed

end
