(* ===== verification/Delimited_Messages.thy ===== *)
theory Delimited_Messages
  imports Tateyama_Prelude
begin

text \<open>
  Messages with a length in front (\<^verbatim>\<open>utils/protobuf_utils.cpp\<close>) and the header they carry
  (\<^verbatim>\<open>endpoint/common/endpoint_proto_utils.h\<close>). The Protocol Buffers library is a parameter: its
  functions on an array of unread bytes, with what its documentation promises as the predicate
  \<open>protobuf_ok\<close>.
\<close>

section \<open>The library\<close>

text \<open>
  \<^verbatim>\<open>ReadVarint32\<close> and \<^verbatim>\<open>WriteVarint32\<close>; \<^verbatim>\<open>PushLimit\<close>, which gives the part of the unread bytes
  that may be read; \<^verbatim>\<open>GetDirectBufferPointer\<close>; \<^verbatim>\<open>MergeFromCodedStream\<close>, with the bytes it leaves;
  \<^verbatim>\<open>ConsumedEntireMessage\<close> for what was left; and the serialization of a message.
\<close>

record 'm protobuf =
  read_varint32 :: "bytes \<Rightarrow> (u32 \<times> bytes) option"
  write_varint32 :: "u32 \<Rightarrow> bytes"
  push_limit :: "int \<Rightarrow> bytes \<Rightarrow> bytes"
  direct_buffer :: "bytes \<Rightarrow> bytes option"
  merge_message :: "bytes \<Rightarrow> ('m \<times> bytes) option"
  consumed_entire :: "bytes \<Rightarrow> bool"
  serialize_message :: "'m \<Rightarrow> bytes"

definition INT_MAX :: nat where
  "INT_MAX = 2147483647"

text \<open>What the documentation says, with the serialization of one message.\<close>

definition protobuf_ok :: "'m protobuf \<Rightarrow> 'm \<Rightarrow> bool" where
  "protobuf_ok lib m \<longleftrightarrow>
     (\<forall>n rest. read_varint32 lib (write_varint32 lib n @ rest) = Some (n, rest)) \<and>
     (\<forall>n bs. n \<le> length bs \<longrightarrow> push_limit lib (int n) bs = take n bs) \<and>
     (\<forall>bs. direct_buffer lib bs = (if bs = [] then None else Some bs)) \<and>
     merge_message lib (serialize_message lib m) = Some (m, []) \<and>
     consumed_entire lib []"

section \<open>Delimited messages and bodies\<close>

definition ParseDelimitedFromCodedStream :: "'m protobuf \<Rightarrow> bytes \<Rightarrow> ('m \<times> bytes) option" where
  "ParseDelimitedFromCodedStream lib bs = (case read_varint32 lib bs of
     None \<Rightarrow> None
   | Some (sz, rest) \<Rightarrow>
       (let visible = push_limit lib (sint sz) rest in
        case merge_message lib visible of
          None \<Rightarrow> None
        | Some (m, left) \<Rightarrow>
            if \<not> consumed_entire lib left then None
            else if int (length visible - length left) \<noteq> sint sz then None
            else Some (m, drop (length visible - length left) rest)))"

definition SerializeDelimitedToCodedStream :: "'m protobuf \<Rightarrow> 'm \<Rightarrow> bytes option" where
  "SerializeDelimitedToCodedStream lib m =
     (let sz = length (serialize_message lib m) in
      if sz > INT_MAX then None
      else Some (write_varint32 lib (of_nat sz) @ serialize_message lib m))"

definition GetDelimitedBodyFromCodedStream :: "'m protobuf \<Rightarrow> bytes \<Rightarrow> (bytes \<times> bytes) option" where
  "GetDelimitedBodyFromCodedStream lib bs = (case read_varint32 lib bs of
     None \<Rightarrow> None
   | Some (sz, rest) \<Rightarrow>
       (let visible = push_limit lib (sint sz) rest in
        case direct_buffer lib visible of
          None \<Rightarrow> None
        | Some out \<Rightarrow>
            if int (length out) \<noteq> sint sz then None
            else Some (out, drop (length out) rest)))"

definition PutDelimitedBodyToCodedStream :: "'m protobuf \<Rightarrow> bytes \<Rightarrow> bytes option" where
  "PutDelimitedBodyToCodedStream lib body =
     (let sz = length body in
      if sz > INT_MAX then None
      else Some (write_varint32 lib (of_nat sz) @ body))"

section \<open>Headers\<close>

datatype blob_location =
    Blob_Path string
  | Blob_Reference u64 u64 u64
  | Blob_Location_Not_Set

record blob_info =
  channel_name :: string
  location :: blob_location
  temporary :: bool

record request_header =
  hdr_version_major :: u64
  hdr_version_minor :: u64
  hdr_service_id :: u64
  hdr_session_id :: u64
  hdr_blobs :: "blob_info list option"

record parse_result =
  pr_payload :: bytes
  pr_service_id :: u64
  pr_session_id :: u64
  pr_version_major :: u64
  pr_version_minor :: u64

type_synonym blobs_map = "(string \<times> blob_location \<times> bool) list"

text \<open>\<^verbatim>\<open>std::map::emplace\<close> on a map kept in the order of its keys: an existing key stays.\<close>

fun map_emplace :: "('k \<Rightarrow> 'k \<Rightarrow> bool) \<Rightarrow> 'k \<Rightarrow> 'v \<Rightarrow> ('k \<times> 'v) list \<Rightarrow> ('k \<times> 'v) list" where
  "map_emplace lt k v [] = [(k, v)]"
| "map_emplace lt k v ((k', v') # es) =
     (if k = k' then (k', v') # es
      else if lt k k' then (k, v) # (k', v') # es
      else (k', v') # map_emplace lt k v es)"

definition string_less :: "string \<Rightarrow> string \<Rightarrow> bool" where
  "string_less a b \<longleftrightarrow> ord_class.lexordp (map (of_char :: char \<Rightarrow> nat) a) (map of_char b)"

definition collect_blob :: "blob_info \<Rightarrow> blobs_map \<Rightarrow> blobs_map" where
  "collect_blob e m = (case location e of
     Blob_Location_Not_Set \<Rightarrow> m
   | l \<Rightarrow> map_emplace string_less (channel_name e) (l, temporary e) m)"

definition parse_header :: "request_header protobuf \<Rightarrow> bytes \<Rightarrow> (parse_result \<times> blobs_map) option" where
  "parse_header lib bs = (case ParseDelimitedFromCodedStream lib bs of
     None \<Rightarrow> None
   | Some (hdr, rest) \<Rightarrow>
       (let blobs = (case hdr_blobs hdr of None \<Rightarrow> [] | Some es \<Rightarrow> fold collect_blob es []) in
        case GetDelimitedBodyFromCodedStream lib rest of
          None \<Rightarrow> None
        | Some (payload, _) \<Rightarrow>
            Some (\<lparr>pr_payload = payload, pr_service_id = hdr_service_id hdr,
              pr_session_id = hdr_session_id hdr, pr_version_major = hdr_version_major hdr,
              pr_version_minor = hdr_version_minor hdr\<rparr>, blobs)))"

datatype payload_type = Payload_Unknown | SERVER_DIAGNOSTICS | SERVICE_RESULT

record response_header_message =
  rh_session_id :: u64
  rh_payload_type :: payload_type
  rh_blobs :: "blob_info list"

text \<open>The header of a response and its body; blobs are named only in the result of a service.\<close>

definition append_response_header :: "response_header_message protobuf \<Rightarrow> bytes \<Rightarrow> u64 \<Rightarrow>
    blob_info list option \<Rightarrow> payload_type \<Rightarrow> bytes option" where
  "append_response_header lib body session blobs t =
     (let hdr = \<lparr>rh_session_id = session, rh_payload_type = t,
        rh_blobs = (case blobs of Some es \<Rightarrow> if t = SERVICE_RESULT then es else [] | None \<Rightarrow> [])\<rparr> in
      case SerializeDelimitedToCodedStream lib hdr of
        None \<Rightarrow> None
      | Some h \<Rightarrow>
          (case PutDelimitedBodyToCodedStream lib body of
             None \<Rightarrow> None
           | Some b \<Rightarrow> Some (h @ b)))"

section \<open>Round trips\<close>

lemma sint_of_size:
  assumes "n \<le> INT_MAX"
  shows "sint (of_nat n :: u32) = int n"
proof -
  have "signed_take_bit 31 (int n) = int n"
    using assms by (intro signed_take_bit_int_eq_self) (auto simp: INT_MAX_def)
  then show ?thesis
    by (simp add: signed_of_nat)
qed

lemma parse_serialized:
  assumes "protobuf_ok lib m" "SerializeDelimitedToCodedStream lib m = Some bs"
  shows "ParseDelimitedFromCodedStream lib (bs @ rest) = Some (m, rest)"
proof -
  let ?s = "serialize_message lib m"
  have bs: "bs = write_varint32 lib (of_nat (length ?s)) @ ?s" and sz: "length ?s \<le> INT_MAX"
    using assms(2) by (auto simp: SerializeDelimitedToCodedStream_def Let_def split: if_splits)
  have lib: "read_varint32 lib (bs @ rest) = Some (of_nat (length ?s), ?s @ rest)"
    "push_limit lib (int (length ?s)) (?s @ rest) = ?s"
    "merge_message lib ?s = Some (m, [])" "consumed_entire lib []"
    using assms(1) unfolding bs protobuf_ok_def by simp_all
  show ?thesis
    by (simp add: ParseDelimitedFromCodedStream_def lib sint_of_size [OF sz] Let_def)
qed

lemma get_put_body:
  assumes "protobuf_ok lib m" "PutDelimitedBodyToCodedStream lib body = Some bs"
  shows "GetDelimitedBodyFromCodedStream lib (bs @ rest) = (if body = [] then None else Some (body, rest))"
proof -
  have bs: "bs = write_varint32 lib (of_nat (length body)) @ body" and sz: "length body \<le> INT_MAX"
    using assms(2) by (auto simp: PutDelimitedBodyToCodedStream_def Let_def split: if_splits)
  have lib: "read_varint32 lib (bs @ rest) = Some (of_nat (length body), body @ rest)"
    "push_limit lib (int (length body)) (body @ rest) = body"
    "direct_buffer lib body = (if body = [] then None else Some body)"
    using assms(1) unfolding bs protobuf_ok_def by simp_all
  show ?thesis
    by (simp add: GetDelimitedBodyFromCodedStream_def lib sint_of_size [OF sz] Let_def)
qed

text \<open>A library that keeps the promises: lengths in four bytes, one message.\<close>

definition sample_library :: "'m \<Rightarrow> 'm protobuf" where
  "sample_library m = \<lparr>read_varint32 = (\<lambda>bs. if length bs < 4 then None else Some (le_decode (take 4 bs), drop 4 bs)),
     write_varint32 = le_encode 4, push_limit = (\<lambda>n bs. take (nat n) bs),
     direct_buffer = (\<lambda>bs. if bs = [] then None else Some bs),
     merge_message = (\<lambda>bs. if bs = [1] then Some (m, []) else None),
     consumed_entire = (\<lambda>bs. bs = []), serialize_message = (\<lambda>_. [1])\<rparr>"

lemma sample_library_ok: "protobuf_ok (sample_library m) m"
  by (simp add: protobuf_ok_def sample_library_def le_decode_encode)

end
