(* ===== verification/Endpoint_Request.thy ===== *)
theory Endpoint_Request
  imports Endpoint_Service Delimited_Messages
begin

text \<open>
  A request as the services see it (\<^verbatim>\<open>endpoint/common/request.h\<close>): the framework header with
  its version, and the files of the large objects (blobs) it names, each of which is checked
  before a service can read it. The file system and the session of the blob relay service are
  parameters.
\<close>

section \<open>State\<close>

datatype blob_error =
    Blob_Ok
  | Blob_Not_Allowed
  | Blob_Not_Found
  | Blob_Not_Accessible
  | Blob_Not_Regular_File
  | Blob_Tag_Mismatch

text \<open>What the file system answers about a path; an error counts as no.\<close>

record file_system =
  fs_exists :: "string \<Rightarrow> bool"
  fs_readable :: "string \<Rightarrow> bool"
  fs_regular :: "string \<Rightarrow> bool"
  fs_not_symlink :: "string \<Rightarrow> bool"

text \<open>The session of the relay: the first and the second look-up of an object, and its tag.\<close>

record blob_session =
  find_object :: "u64 \<Rightarrow> string option"
  find_object_again :: "u64 \<Rightarrow> string option"
  compute_tag :: "u64 \<Rightarrow> u64"

record request =
  rq_session_id :: u64
  rq_service_id :: u64
  rq_local_id :: u64
  rq_blobs :: "(string \<times> string \<times> bool) list"
  rq_blob_error :: blob_error
  rq_causing_file :: string
  rq_payload :: bytes

definition new_request :: "u64 \<Rightarrow> request" where
  "new_request local = \<lparr>rq_session_id = 0, rq_service_id = 0, rq_local_id = local, rq_blobs = [],
     rq_blob_error = Blob_Ok, rq_causing_file = [], rq_payload = []\<rparr>"

section \<open>Blobs\<close>

definition check_blob_path :: "file_system \<Rightarrow> string \<Rightarrow> request \<Rightarrow> blob_error \<times> request" where
  "check_blob_path fs p rq =
     (if fs_exists fs p then
        (if fs_readable fs p then
           (if fs_regular fs p \<and> fs_not_symlink fs p then (Blob_Ok, rq)
            else (Blob_Not_Regular_File, rq\<lparr>rq_causing_file := p\<rparr>))
         else (Blob_Not_Accessible, rq\<lparr>rq_causing_file := p\<rparr>))
      else (Blob_Not_Found, rq\<lparr>rq_causing_file := p\<rparr>))"

definition add_blob_path :: "string \<Rightarrow> string \<Rightarrow> bool \<Rightarrow> request \<Rightarrow> request" where
  "add_blob_path name p temp rq = rq\<lparr>rq_blobs := map_emplace string_less name (p, temp) (rq_blobs rq)\<rparr>"

fun blob_handler :: "endpoint_configuration \<Rightarrow> blob_transfer_type \<Rightarrow> blob_session \<Rightarrow> file_system \<Rightarrow>
    string \<Rightarrow> bool \<Rightarrow> blob_location \<Rightarrow> request \<Rightarrow> blob_error \<times> request" where
  "blob_handler conf transfer bs fs name temp (Blob_Path p) rq =
     (if \<not> allow_blob_privileged conf \<or> transfer \<noteq> Privileged then (Blob_Not_Allowed, rq)
      else (case check_blob_path fs p rq of
        (e, rq') \<Rightarrow> if e = Blob_Ok then (Blob_Ok, add_blob_path name p temp rq')
          else (e, rq'\<lparr>rq_causing_file := p\<rparr>)))"
| "blob_handler conf transfer bs fs name temp (Blob_Reference storage obj tag) rq =
     (if transfer \<noteq> Blob_Relay_Streaming then (Blob_Not_Allowed, rq)
      else (case find_object bs obj of
        None \<Rightarrow> (Blob_Not_Found, rq\<lparr>rq_blob_error := Blob_Not_Found\<rparr>)
      | Some p \<Rightarrow>
          (case check_blob_path fs p rq of
             (e, rq') \<Rightarrow>
               (let rq' = rq'\<lparr>rq_blob_error := e\<rparr> in
                if e \<noteq> Blob_Ok then (e, rq'\<lparr>rq_causing_file := p\<rparr>)
                else if compute_tag bs obj \<noteq> tag then (Blob_Tag_Mismatch, rq'\<lparr>rq_causing_file := p\<rparr>)
                else (case find_object_again bs obj of
                  None \<Rightarrow> (Blob_Not_Found, rq'\<lparr>rq_causing_file := p\<rparr>)
                | Some p' \<Rightarrow> (Blob_Ok, add_blob_path name p' temp rq'))))))"
| "blob_handler conf transfer bs fs name temp Blob_Location_Not_Set rq = (Blob_Ok, rq)"

fun handle_blobs :: "endpoint_configuration \<Rightarrow> blob_transfer_type \<Rightarrow> blob_session \<Rightarrow> file_system \<Rightarrow>
    blobs_map \<Rightarrow> request \<Rightarrow> request" where
  "handle_blobs conf transfer bs fs [] rq = rq"
| "handle_blobs conf transfer bs fs ((name, l, temp) # es) rq =
     (case blob_handler conf transfer bs fs name temp l rq of
        (e, rq') \<Rightarrow>
          (let rq' = rq'\<lparr>rq_blob_error := e\<rparr> in
           if e \<noteq> Blob_Ok then rq' else handle_blobs conf transfer bs fs es rq'))"

section \<open>The header\<close>

definition FRAMEWORK_SERVICE_MESSAGE_VERSION_MAJOR :: u64 where
  "FRAMEWORK_SERVICE_MESSAGE_VERSION_MAJOR = 2"

definition FRAMEWORK_SERVICE_MESSAGE_VERSION_MINOR :: u64 where
  "FRAMEWORK_SERVICE_MESSAGE_VERSION_MINOR = 1"

definition unacceptable_version :: "parse_result \<Rightarrow> bool" where
  "unacceptable_version res \<longleftrightarrow>
     pr_version_major res > FRAMEWORK_SERVICE_MESSAGE_VERSION_MAJOR \<or>
     pr_version_major res = FRAMEWORK_SERVICE_MESSAGE_VERSION_MAJOR \<and>
     pr_version_minor res > FRAMEWORK_SERVICE_MESSAGE_VERSION_MINOR"

definition parse_framework_header :: "request_header protobuf \<Rightarrow> endpoint_configuration \<Rightarrow>
    blob_transfer_type \<Rightarrow> blob_session \<Rightarrow> file_system \<Rightarrow> bytes \<Rightarrow> request \<Rightarrow> request result" where
  "parse_framework_header lib conf transfer bs fs message rq = (case parse_header lib message of
     None \<Rightarrow> Inl (Runtime_Error ''error occurred while parsing a request message in Protocol Buffers'')
   | Some (res, blobs_arrived) \<Rightarrow>
       if unacceptable_version res then
         Inl (Runtime_Error (''unacceptable service message version ('' @
           to_string (pr_version_major res) @ ''.'' @ to_string (pr_version_minor res) @ '')''))
       else Inr (handle_blobs conf transfer bs fs blobs_arrived
         (rq\<lparr>rq_session_id := pr_session_id res, rq_service_id := pr_service_id res,
           rq_payload := pr_payload res\<rparr>)))"

section \<open>What the services ask\<close>

definition has_blob :: "string \<Rightarrow> request \<Rightarrow> bool" where
  "has_blob name rq \<longleftrightarrow> rq_blob_error rq = Blob_Ok \<and> map_of (rq_blobs rq) name \<noteq> None"

definition blob_error_label :: "blob_error \<Rightarrow> string" where
  "blob_error_label e = (case e of
     Blob_Ok \<Rightarrow> ''ok''
   | Blob_Not_Allowed \<Rightarrow> ''not_allowed''
   | Blob_Not_Found \<Rightarrow> ''not_found''
   | Blob_Not_Accessible \<Rightarrow> ''not_accessible''
   | Blob_Not_Regular_File \<Rightarrow> ''not_regular_file''
   | Blob_Tag_Mismatch \<Rightarrow> ''tag_mismatch'')"

definition get_blob :: "string \<Rightarrow> request \<Rightarrow> (string \<times> string \<times> bool) result" where
  "get_blob name rq =
     (if rq_blob_error rq \<noteq> Blob_Ok then Inl (Runtime_Error (blob_error_label (rq_blob_error rq)))
      else (case map_of (rq_blobs rq) name of
        Some (p, temp) \<Rightarrow> Inr (name, p, temp)
      | None \<Rightarrow> Inl (Runtime_Error ''not found any blob entry with the given name'')))"

definition blob_transfer_mode :: "blob_transfer_type \<Rightarrow> string" where
  "blob_transfer_mode t = (case t of
     Privileged \<Rightarrow> ''privileged''
   | Blob_Relay_Streaming \<Rightarrow> ''blob_relay_streaming''
   | Does_Not_Use \<Rightarrow> ''do not use'')"

text \<open>A path is written in quotes, with a backslash before a quote or a backslash.\<close>

definition quoted :: "string \<Rightarrow> string" where
  "quoted p = [CHR 0x22] @
     concat (map (\<lambda>c. if c = CHR 0x22 \<or> c = CHR 0x5c then [CHR 0x5c, c] else [c]) p) @ [CHR 0x22]"

definition with_causing_file :: "request \<Rightarrow> string \<Rightarrow> string" where
  "with_causing_file rq msg =
     (if rq_causing_file rq \<noteq> [] then msg @ '': '' @ quoted (rq_causing_file rq) else msg)"

definition blob_error_message :: "blob_transfer_type \<Rightarrow> request \<Rightarrow> string" where
  "blob_error_message t rq =
     (let failed = ''tsurugidb failed to receive BLOB file in '' @ blob_transfer_mode t in
      case rq_blob_error rq of
        Blob_Ok \<Rightarrow> []
      | Blob_Not_Allowed \<Rightarrow> ''BLOB handling in '' @ blob_transfer_mode t @ '' mode is not allowed''
      | Blob_Not_Found \<Rightarrow> with_causing_file rq (failed @ '' mode (file not found)'')
      | Blob_Not_Accessible \<Rightarrow> with_causing_file rq (failed @ '' mode (cannot read file)'')
      | Blob_Not_Regular_File \<Rightarrow> with_causing_file rq (failed @ '' mode (not regular file)'')
      | Blob_Tag_Mismatch \<Rightarrow> with_causing_file rq (failed @ '' mode (tag mismatch)''))"

section \<open>Which files a service can reach\<close>

definition file_checked :: "file_system \<Rightarrow> string \<Rightarrow> bool" where
  "file_checked fs p \<longleftrightarrow> fs_exists fs p \<and> fs_readable fs p \<and> fs_regular fs p \<and> fs_not_symlink fs p"

text \<open>
  The file a service gets for a blob the client named, if it may have it: by its path in
  privileged mode, by a reference with the right tag in relay mode. In relay mode the object is
  looked up twice (\<^verbatim>\<open>request.h\<close> 230 and 234): the file of the first look-up is checked, that of the
  second is handed out; nothing here says that they are the same.
\<close>

definition granted :: "endpoint_configuration \<Rightarrow> blob_transfer_type \<Rightarrow> blob_session \<Rightarrow> file_system \<Rightarrow>
    blob_location \<Rightarrow> string \<Rightarrow> bool" where
  "granted conf transfer bs fs l p = (case l of
     Blob_Path q \<Rightarrow> p = q \<and> allow_blob_privileged conf \<and> transfer = Privileged \<and> file_checked fs q
   | Blob_Reference storage obj tag \<Rightarrow> transfer = Blob_Relay_Streaming \<and> compute_tag bs obj = tag \<and>
       find_object_again bs obj = Some p \<and> (\<exists>q. find_object bs obj = Some q \<and> file_checked fs q)
   | Blob_Location_Not_Set \<Rightarrow> False)"

lemma map_emplace_cases:
  "map_of (map_emplace lt k v m) x = Some y \<Longrightarrow> map_of m x = Some y \<or> x = k \<and> y = v"
  by (induction m) (auto split: if_splits)

lemma blob_handler_grants:
  assumes "blob_handler conf transfer bs fs name temp l rq = (Blob_Ok, rq')"
    "map_of (rq_blobs rq') x = Some (p, t)"
  shows "map_of (rq_blobs rq) x = Some (p, t) \<or>
    x = name \<and> t = temp \<and> granted conf transfer bs fs l p"
proof (cases l)
  case (Blob_Path q)
  then show ?thesis
    using assms
    by (auto simp: check_blob_path_def add_blob_path_def granted_def file_checked_def
      split: if_splits dest!: map_emplace_cases)
next
  case (Blob_Reference storage obj tag)
  then show ?thesis
    using assms
    by (auto simp: check_blob_path_def add_blob_path_def granted_def file_checked_def Let_def
      split: if_splits option.splits dest!: map_emplace_cases)
qed (use assms in simp)

lemma handle_blobs_grants:
  assumes "map_of (rq_blobs (handle_blobs conf transfer bs fs es rq)) x = Some (p, t)"
    "rq_blob_error (handle_blobs conf transfer bs fs es rq) = Blob_Ok"
  shows "map_of (rq_blobs rq) x = Some (p, t) \<or>
    (\<exists>l. (x, l, t) \<in> set es \<and> granted conf transfer bs fs l p)"
  using assms
proof (induction es arbitrary: rq)
  case (Cons e es)
  obtain name l temp where e: "e = (name, l, temp)"
    by (cases e)
  obtain err rq1 where h: "blob_handler conf transfer bs fs name temp l rq = (err, rq1)"
    by force
  have ok: "err = Blob_Ok"
    using Cons.prems(2) e h by (auto simp: Let_def split: if_splits)
  let ?rq = "rq1\<lparr>rq_blob_error := Blob_Ok\<rparr>"
  have "map_of (rq_blobs ?rq) x = Some (p, t) \<or> (\<exists>l. (x, l, t) \<in> set es \<and> granted conf transfer bs fs l p)"
    using Cons.IH [of ?rq] Cons.prems e h ok by (simp add: Let_def)
  then show ?case
    using blob_handler_grants [of conf transfer bs fs name temp l rq rq1 x p t] h ok e by auto
qed simp

section \<open>The blobs of a header\<close>







section \<open>Properties\<close>


definition sample_request_header :: request_header where
  "sample_request_header = \<lparr>hdr_version_major = 1, hdr_version_minor = 0, hdr_service_id = 3,
     hdr_session_id = 21, hdr_blobs = None\<rparr>"

definition sample_files :: file_system where
  "sample_files = \<lparr>fs_exists = (\<lambda>p. p = ''/tmp/blob''), fs_readable = (\<lambda>p. True),
     fs_regular = (\<lambda>p. True), fs_not_symlink = (\<lambda>p. True)\<rparr>"

definition sample_blob_session :: blob_session where
  "sample_blob_session = \<lparr>find_object = (\<lambda>_. None), find_object_again = (\<lambda>_. None), compute_tag = (\<lambda>_. 0)\<rparr>"

definition privileged_configuration :: endpoint_configuration where
  "privileged_configuration = \<lparr>conf_connection = Connection_Ipc, conf_auth = None,
     allow_blob_privileged = True, blob_relay_enabled = False, blob_relay_session = None,
     blob_relay_endpoint = [], blob_relay_secure = False, blob_relay_streaming_params = []\<rparr>"



text \<open>
  C12. A service gets a file for a blob only if the client named it in this request and may use
  it: in privileged mode the server allows the mode, the session chose it, and the path is a
  readable regular file and no link; in relay mode the reference has the right tag and the file
  of the first look-up of the object is such a file. The file handed out in relay mode is that of
  a second look-up, which is not checked again.
\<close>

theorem blob_access:
  assumes "parse_framework_header lib conf transfer bs fs message (new_request local) = Inr rq"
    "get_blob name rq = Inr (n, p, t)"
  shows "\<exists>res blobs l. parse_header lib message = Some (res, blobs) \<and> (name, l, t) \<in> set blobs \<and>
    granted conf transfer bs fs l p"
proof -
  obtain res blobs where parsed: "parse_header lib message = Some (res, blobs)"
    using assms(1) by (cases "parse_header lib message") (auto simp: parse_framework_header_def)
  let ?rq = "(new_request local)\<lparr>rq_session_id := pr_session_id res, rq_service_id := pr_service_id res,
    rq_payload := pr_payload res\<rparr>"
  have rq: "rq = handle_blobs conf transfer bs fs blobs ?rq"
    using assms(1) parsed by (auto simp: parse_framework_header_def split: if_splits)
  have "rq_blob_error rq = Blob_Ok" "map_of (rq_blobs rq) name = Some (p, t)"
    using assms(2) by (auto simp: get_blob_def split: if_splits option.splits)
  then have "\<exists>l. (name, l, t) \<in> set blobs \<and> granted conf transfer bs fs l p"
    using handle_blobs_grants [of conf transfer bs fs blobs ?rq name p t] unfolding rq
    by (simp add: new_request_def)
  then show ?thesis
    using parsed by blast
qed

definition blob_header :: request_header where
  "blob_header = sample_request_header\<lparr>hdr_blobs := Some [\<lparr>channel_name = ''b'', location = Blob_Path ''/tmp/blob'',
     temporary = False\<rparr>]\<rparr>"

theorem blob_access_witness:
  "\<exists>rq. parse_framework_header (sample_library blob_header) privileged_configuration Privileged
     sample_blob_session sample_files ((le_encode 4 (1::u32) @ [1]) @ le_encode 4 (1::u32) @ [8]) (new_request 5) = Inr rq \<and>
   get_blob ''b'' rq = Inr (''b'', ''/tmp/blob'', False) \<and> file_checked sample_files ''/tmp/blob''"
proof -
  let ?lib = "sample_library blob_header"
  let ?bs = "(le_encode 4 (1::u32) @ [1]) @ le_encode 4 (1::u32) @ [8]"
  have ser: "SerializeDelimitedToCodedStream ?lib blob_header = Some (le_encode 4 (1::u32) @ [1])"
    "PutDelimitedBodyToCodedStream ?lib [8] = Some (le_encode 4 (1::u32) @ [8])"
    by (simp_all add: SerializeDelimitedToCodedStream_def PutDelimitedBodyToCodedStream_def sample_library_def
      INT_MAX_def)
  have parsed: "\<exists>res. parse_header ?lib ?bs = Some (res, [(''b'', Blob_Path ''/tmp/blob'', False)]) \<and> pr_version_major res = 1"
    using parse_serialized [OF sample_library_ok ser(1), of "le_encode 4 (1::u32) @ [8]"]
      get_put_body [OF sample_library_ok ser(2), of "[]"]
    by (simp add: parse_header_def blob_header_def sample_request_header_def collect_blob_def)
  then obtain rq where rq: "parse_framework_header ?lib privileged_configuration Privileged
      sample_blob_session sample_files ?bs (new_request 5) = Inr rq" "get_blob ''b'' rq = Inr (''b'', ''/tmp/blob'', False)"
    by (auto simp: parse_framework_header_def unacceptable_version_def FRAMEWORK_SERVICE_MESSAGE_VERSION_MAJOR_def
      FRAMEWORK_SERVICE_MESSAGE_VERSION_MINOR_def privileged_configuration_def check_blob_path_def sample_files_def
      add_blob_path_def get_blob_def new_request_def Let_def)
  from blob_access [OF rq] parsed have "file_checked sample_files ''/tmp/blob''"
    by (auto simp: granted_def)
  with rq show ?thesis by blast
qed

end
