(* ===== verification/Endpoint_Response.thy ===== *)
theory Endpoint_Response
  imports Delimited_Messages Stream_Properties
begin

text \<open>
  The response to a request (\<^verbatim>\<open>endpoint/common/response.h\<close>) over shared memory
  (\<^verbatim>\<open>ipc/ipc_response.cpp\<close>) and over a stream (\<^verbatim>\<open>stream/stream_response.cpp\<close>): its body or
  error, sent at most once, the head of a body, and the data channel for a result set with its
  writers.
\<close>

section \<open>Common part\<close>

datatype status = Status_Ok | Status_Not_Found | Status_Unknown | Status_Operation_Denied

datatype channel_state =
    No_Data_Channel
  | To_Be_Used
  | Acquired
  | Released
  | Acquire_Failed
  | Release_Failed

text \<open>The data channel is known by a number, as objects are by their address.\<close>

record response =
  index :: u64
  response_session_id :: u64
  data_channel :: "nat option"
  complete_gate :: bool
  blobs :: "blob_info list"
  cancelled :: bool
  completed :: bool
  channel_state :: channel_state

definition new_response :: "u64 \<Rightarrow> response" where
  "new_response i = \<lparr>index = i, response_session_id = 0, data_channel = None, complete_gate = False,
     blobs = [], cancelled = False, completed = False, channel_state = No_Data_Channel\<rparr>"

definition set_session_id :: "u64 \<Rightarrow> response \<Rightarrow> response" where
  "set_session_id i r = r\<lparr>response_session_id := i\<rparr>"

definition add_blob :: "bool \<Rightarrow> blob_info \<Rightarrow> response \<Rightarrow> status \<times> response" where
  "add_blob allow_privileged b r =
     (if \<not> allow_privileged then (Status_Operation_Denied, r)
      else (Status_Ok, r\<lparr>blobs := blobs r @ [b]\<rparr>))"

definition resp_is_completed :: "response \<Rightarrow> bool" where
  "resp_is_completed r \<longleftrightarrow> completed r \<and> data_channel r = None"

definition state_label :: "channel_state \<Rightarrow> string" where
  "state_label s = (case s of
     No_Data_Channel \<Rightarrow> ''data channel is not used''
   | To_Be_Used \<Rightarrow> ''data channel is to be used''
   | Acquired \<Rightarrow> ''data channel is acquired''
   | Released \<Rightarrow> ''data channel is released''
   | Acquire_Failed \<Rightarrow> ''acqure_channel failed''
   | Release_Failed \<Rightarrow> ''release_channel failed'')"

section \<open>Over shared memory\<close>

text \<open>
  What the responses of a session share: the messages in the response wire, with the slot and
  the kind, the data channels by their number, the wires given to the garbage collector, and how
  often the clean-up of this response was called.
\<close>

datatype response_kind = RESPONSE_BODY | RESPONSE_BODYHEAD | RESPONSE_CODE

record ipc_channel =
  wires_present :: bool
  end_of_records :: bool
  wires_closed :: bool
  channel_writers :: "nat list"
  released_writers :: "nat list"
  next_writer :: nat

record ipc_world =
  response_wire :: "(u64 \<times> response_kind \<times> bytes) list"
  ipc_channels :: "ipc_channel list"
  garbage :: "nat list"
  clean_ups :: nat

definition ipc_channel_shutdown :: "nat \<Rightarrow> ipc_world \<Rightarrow> ipc_world" where
  "ipc_channel_shutdown c w =
     (let ch = ipc_channels w ! c in
      if wires_present ch then
        w\<lparr>ipc_channels := (ipc_channels w)[c := ch\<lparr>wires_present := False, end_of_records := True,
            released_writers := released_writers ch @ channel_writers ch, channel_writers := []\<rparr>],
          garbage := (if \<not> wires_closed ch then garbage w @ [c] else garbage w)\<rparr>
      else w)"

text \<open>Guard against improper operation: a data channel that is still there is shut down.\<close>

definition ipc_drop_channel :: "response \<Rightarrow> ipc_world \<Rightarrow> response \<times> ipc_world" where
  "ipc_drop_channel r w = (case data_channel r of
     None \<Rightarrow> (r, w)
   | Some c \<Rightarrow> (r\<lparr>data_channel := None\<rparr>, ipc_channel_shutdown c w))"

definition ipc_write :: "response_kind \<Rightarrow> bytes \<Rightarrow> response \<Rightarrow> ipc_world \<Rightarrow> ipc_world" where
  "ipc_write k s r w = w\<lparr>response_wire := response_wire w @ [(index r, k, s)]\<rparr>"

definition ipc_finish :: "response \<Rightarrow> ipc_world \<Rightarrow> response \<times> ipc_world" where
  "ipc_finish r w = (r\<lparr>completed := True\<rparr>, w\<lparr>clean_ups := Suc (clean_ups w)\<rparr>)"

definition ipc_body :: "response_header_message protobuf \<Rightarrow> bytes \<Rightarrow> response \<times> ipc_world \<Rightarrow>
    status \<times> response \<times> ipc_world" where
  "ipc_body lib body = (\<lambda>(r, w).
     if complete_gate r then (Status_Unknown, r, w)
     else (case ipc_drop_channel (r\<lparr>complete_gate := True\<rparr>) w of
       (r, w) \<Rightarrow>
         (case append_response_header lib body (response_session_id r) (Some (blobs r)) SERVICE_RESULT of
            None \<Rightarrow> (Status_Unknown, r, w)
          | Some s \<Rightarrow> (Status_Ok, ipc_finish r (ipc_write RESPONSE_BODY s r w)))))"

definition ipc_body_head :: "response_header_message protobuf \<Rightarrow> bytes \<Rightarrow> response \<times> ipc_world \<Rightarrow>
    status \<times> response \<times> ipc_world" where
  "ipc_body_head lib body = (\<lambda>(r, w).
     if cancelled r then (Status_Unknown, r, w)
     else (case append_response_header lib body (response_session_id r) None SERVICE_RESULT of
       None \<Rightarrow> (Status_Unknown, r, w)
     | Some s \<Rightarrow> (Status_Ok, r\<lparr>channel_state := To_Be_Used\<rparr>, ipc_write RESPONSE_BODYHEAD s r w)))"

definition ipc_server_diagnostics :: "response_header_message protobuf \<Rightarrow> bytes \<Rightarrow> response \<Rightarrow> ipc_world \<Rightarrow>
    ipc_world" where
  "ipc_server_diagnostics lib rec r w =
     (case append_response_header lib rec (response_session_id r) None SERVER_DIAGNOSTICS of
        None \<Rightarrow> w
      | Some s \<Rightarrow> ipc_write RESPONSE_BODY s r w)"

text \<open>The error record is serialized, or empty if that fails.\<close>

definition ipc_error :: "response_header_message protobuf \<Rightarrow> bytes option \<Rightarrow> response \<times> ipc_world \<Rightarrow>
    response \<times> ipc_world" where
  "ipc_error lib rec = (\<lambda>(r, w).
     if complete_gate r then (r, w)
     else (case ipc_drop_channel (r\<lparr>complete_gate := True\<rparr>) w of
       (r, w) \<Rightarrow> ipc_finish r (ipc_server_diagnostics lib (case rec of Some s \<Rightarrow> s | None \<Rightarrow> []) r w)))"

text \<open>\<open>created\<close> tells whether the shared memory for the result set could be created.\<close>

definition ipc_acquire_channel :: "bool \<Rightarrow> nat \<Rightarrow> response \<times> ipc_world \<Rightarrow>
    status \<times> nat option \<times> response \<times> ipc_world" where
  "ipc_acquire_channel created max_writer_count = (\<lambda>(r, w).
     if complete_gate r \<or> max_writer_count > 256 \<or> \<not> created
     then (Status_Unknown, None, r\<lparr>channel_state := Acquire_Failed\<rparr>, w)
     else (let c = length (ipc_channels w) in
       (Status_Ok, Some c, r\<lparr>data_channel := Some c, channel_state := Acquired\<rparr>,
        w\<lparr>ipc_channels := ipc_channels w @ [\<lparr>wires_present = True, end_of_records = False,
          wires_closed = False, channel_writers = [], released_writers = [], next_writer = 0\<rparr>]\<rparr>)))"

definition ipc_release_channel :: "nat \<Rightarrow> response \<times> ipc_world \<Rightarrow> status \<times> response \<times> ipc_world" where
  "ipc_release_channel c = (\<lambda>(r, w).
     if data_channel r = Some c then
       (Status_Ok, r\<lparr>data_channel := None, channel_state := Released\<rparr>, ipc_channel_shutdown c w)
     else (Status_Unknown, r\<lparr>channel_state := Release_Failed\<rparr>, w))"

text \<open>\<open>acquired\<close> tells whether the wires of the result set gave one to a new writer.\<close>

definition ipc_channel_acquire :: "bool \<Rightarrow> ipc_channel \<Rightarrow> status \<times> nat option \<times> ipc_channel" where
  "ipc_channel_acquire acquired ch =
     (if acquired
      then (Status_Ok, Some (next_writer ch), ch\<lparr>channel_writers := channel_writers ch @ [next_writer ch],
        next_writer := Suc (next_writer ch)\<rparr>)
      else (Status_Unknown, None, ch))"

definition ipc_channel_release :: "nat \<Rightarrow> ipc_channel \<Rightarrow> status \<times> ipc_channel" where
  "ipc_channel_release x ch =
     (if x \<in> set (channel_writers ch)
      then (Status_Ok, ch\<lparr>released_writers := released_writers ch @ [x],
        channel_writers := remove1 x (channel_writers ch)\<rparr>)
      else (Status_Unknown, ch))"

section \<open>Over a stream\<close>

text \<open>
  The connection with the sends made on it, the channels with their next writer id and writers,
  and the calls of the clean-up.
\<close>

record stream_channel =
  next_writer_id :: u8
  stream_writers :: "u8 list"

record stream_world =
  connection :: stream_socket
  sends :: "server_op list"
  stream_channels :: "stream_channel list"
  stream_clean_ups :: nat

definition perform :: "server_op \<Rightarrow> stream_world \<Rightarrow> stream_world result" where
  "perform c w = bind_result (run_op c (connection w)) (\<lambda>s.
     Inr (w\<lparr>connection := s, sends := sends w @ [c]\<rparr>))"

text \<open>A send that cannot throw.\<close>

definition perform_plain :: "server_op \<Rightarrow> stream_world \<Rightarrow> stream_world" where
  "perform_plain c w = (case perform c w of Inr w' \<Rightarrow> w' | Inl e \<Rightarrow> w)"

definition slot_of :: "response \<Rightarrow> u16" where
  "slot_of r = ucast (index r)"

definition stream_drop_channel :: "response \<Rightarrow> stream_world \<Rightarrow> response \<times> stream_world" where
  "stream_drop_channel r w = (case data_channel r of
     None \<Rightarrow> (r, w)
   | Some c \<Rightarrow> (r\<lparr>data_channel := None\<rparr>, perform_plain (Send_Bye (slot_of r)) w))"

definition stream_finish :: "response \<Rightarrow> stream_world \<Rightarrow> response \<times> stream_world" where
  "stream_finish r w = (r\<lparr>completed := True\<rparr>, w\<lparr>stream_clean_ups := Suc (stream_clean_ups w)\<rparr>)"

definition stream_body :: "response_header_message protobuf \<Rightarrow> bytes \<Rightarrow> response \<times> stream_world \<Rightarrow>
    status \<times> response \<times> stream_world" where
  "stream_body lib body = (\<lambda>(r, w).
     if complete_gate r then (Status_Unknown, r, w)
     else (case stream_drop_channel (r\<lparr>complete_gate := True\<rparr>) w of
       (r, w) \<Rightarrow>
         (case append_response_header lib body (response_session_id r) (Some (blobs r)) SERVICE_RESULT of
            None \<Rightarrow> (Status_Unknown, r, w)
          | Some s \<Rightarrow> (Status_Ok, stream_finish r (perform_plain (Send_Body (slot_of r) s True) w)))))"

definition stream_body_head :: "response_header_message protobuf \<Rightarrow> bytes \<Rightarrow> response \<times> stream_world \<Rightarrow>
    status \<times> response \<times> stream_world" where
  "stream_body_head lib body = (\<lambda>(r, w).
     case append_response_header lib body (response_session_id r) None SERVICE_RESULT of
       None \<Rightarrow> (Status_Unknown, r, w)
     | Some s \<Rightarrow> (Status_Ok, r\<lparr>channel_state := To_Be_Used\<rparr>, perform_plain (Send_Body (slot_of r) s False) w))"

definition stream_server_diagnostics :: "response_header_message protobuf \<Rightarrow> bytes \<Rightarrow> response \<Rightarrow>
    stream_world \<Rightarrow> stream_world" where
  "stream_server_diagnostics lib rec r w =
     (case append_response_header lib rec (response_session_id r) None SERVER_DIAGNOSTICS of
        None \<Rightarrow> w
      | Some s \<Rightarrow> perform_plain (Send_Body (slot_of r) s True) w)"

definition stream_error :: "response_header_message protobuf \<Rightarrow> bytes option \<Rightarrow> response \<times> stream_world \<Rightarrow>
    response \<times> stream_world" where
  "stream_error lib rec = (\<lambda>(r, w).
     if complete_gate r then (r, w)
     else (case stream_drop_channel (r\<lparr>complete_gate := True\<rparr>) w of
       (r, w) \<Rightarrow> stream_finish r (stream_server_diagnostics lib (case rec of Some s \<Rightarrow> s | None \<Rightarrow> []) r w)))"

definition stream_acquire_channel :: "bytes \<Rightarrow> nat \<Rightarrow> response \<times> stream_world \<Rightarrow>
    status \<times> nat option \<times> response \<times> stream_world" where
  "stream_acquire_channel name max_writer_count = (\<lambda>(r, w).
     if max_writer_count > 256 then (Status_Unknown, None, r\<lparr>channel_state := Acquire_Failed\<rparr>, w)
     else (let c = length (stream_channels w);
               w = w\<lparr>stream_channels := stream_channels w @ [\<lparr>next_writer_id = 0, stream_writers = []\<rparr>]\<rparr>;
               r = r\<lparr>data_channel := Some c\<rparr>
           in case perform (Send_Hello (slot_of r) name) w of
                Inr w' \<Rightarrow> (Status_Ok, Some c, r\<lparr>channel_state := Acquired\<rparr>, w')
              | Inl e \<Rightarrow> (Status_Unknown, None, r\<lparr>channel_state := Acquire_Failed\<rparr>, w)))"

definition stream_release_channel :: "nat \<Rightarrow> response \<times> stream_world \<Rightarrow> status \<times> response \<times> stream_world" where
  "stream_release_channel c = (\<lambda>(r, w).
     if data_channel r = Some c then
       (Status_Ok, r\<lparr>data_channel := None, channel_state := Released\<rparr>, perform_plain (Send_Bye (slot_of r)) w)
     else (Status_Unknown, r\<lparr>channel_state := Release_Failed\<rparr>, w))"

definition stream_channel_acquire :: "stream_channel \<Rightarrow> status \<times> u8 \<times> stream_channel" where
  "stream_channel_acquire ch = (Status_Ok, next_writer_id ch,
     ch\<lparr>next_writer_id := next_writer_id ch + 1, stream_writers := stream_writers ch @ [next_writer_id ch]\<rparr>)"

definition stream_channel_release :: "u8 \<Rightarrow> stream_channel \<Rightarrow> status \<times> stream_channel" where
  "stream_channel_release x ch =
     (if x \<in> set (stream_writers ch) then (Status_Ok, ch\<lparr>stream_writers := remove1 x (stream_writers ch)\<rparr>)
      else (Status_Unknown, ch))"

text \<open>A writer collects a record in its buffer and sends it when it is committed.\<close>

definition stream_writer_write :: "u16 \<Rightarrow> bytes \<Rightarrow> bytes \<times> stream_world \<Rightarrow> (bytes \<times> stream_world) result" where
  "stream_writer_write slot d = (\<lambda>(buf, w).
     bind_result (is_sending slot (connection w)) (\<lambda>b. Inr (if b then buf @ d else buf, w)))"

definition stream_writer_commit :: "u16 \<Rightarrow> u8 \<Rightarrow> bytes \<times> stream_world \<Rightarrow> (bytes \<times> stream_world) result" where
  "stream_writer_commit slot writer = (\<lambda>(buf, w).
     bind_result (is_sending slot (connection w)) (\<lambda>b.
       if b then bind_result (perform (Send_Data slot writer buf) w) (\<lambda>w'. Inr ([], w'))
       else Inr (buf, w)))"

section \<open>One answer\<close>

text \<open>
  What both kinds of response promise: a gate that is passed once, by the first operation that
  completes the response.
\<close>

locale single_answer =
  fixes step :: "'op \<Rightarrow> 's \<Rightarrow> 's"
    and gate :: "'s \<Rightarrow> bool"
    and answers :: "'s \<Rightarrow> nat"
    and completes :: "'op \<Rightarrow> bool"
    and fits :: "'op \<Rightarrow> 's \<Rightarrow> bool"
  assumes closed: "gate s \<Longrightarrow> gate (step c s) \<and> answers (step c s) = answers s"
    and others: "\<not> gate s \<Longrightarrow> \<not> completes c \<Longrightarrow> \<not> gate (step c s) \<and> answers (step c s) = answers s"
    and completing: "\<not> gate s \<Longrightarrow> completes c \<Longrightarrow> gate (step c s)"
    and answering: "\<not> gate s \<Longrightarrow> completes c \<Longrightarrow> answers (step c s) = answers s + (if fits c s then 1 else 0)"
begin

lemma closed_run:
  "gate s \<Longrightarrow> answers (fold step cs s) = answers s"
  by (induction cs arbitrary: s) (simp_all add: closed)

lemma open_run:
  "\<not> gate s \<Longrightarrow> answers (fold step cs s) = answers s +
    (case dropWhile (\<lambda>c. \<not> completes c) cs of
       [] \<Rightarrow> 0
     | c # _ \<Rightarrow> if fits c (fold step (takeWhile (\<lambda>c. \<not> completes c) cs) s) then 1 else 0)"
proof (induction cs arbitrary: s)
  case (Cons c cs)
  show ?case
  proof (cases "completes c")
    case True
    then show ?thesis
      using Cons.prems closed_run [OF completing] answering by simp
  next
    case False
    then show ?thesis
      using Cons others [OF Cons.prems False] by (simp cong: list.case_cong)
  qed
qed simp

end

text \<open>The calls the server and a service make on a response.\<close>

datatype response_op =
    Call_Body bytes
  | Call_Body_Head bytes
  | Call_Error "bytes option"
  | Call_Acquire bytes bool nat
  | Call_Release nat
  | Call_Cancel
  | Call_Session_Id u64
  | Call_Add_Blob bool blob_info

fun ipc_step :: "response_header_message protobuf \<Rightarrow> response_op \<Rightarrow> response \<times> ipc_world \<Rightarrow> response \<times> ipc_world" where
  "ipc_step lib (Call_Body b) s = snd (ipc_body lib b s)"
| "ipc_step lib (Call_Body_Head b) s = snd (ipc_body_head lib b s)"
| "ipc_step lib (Call_Error e) s = ipc_error lib e s"
| "ipc_step lib (Call_Acquire name created n) s = snd (snd (ipc_acquire_channel created n s))"
| "ipc_step lib (Call_Release c) s = snd (ipc_release_channel c s)"
| "ipc_step lib Call_Cancel s = (fst s\<lparr>cancelled := True\<rparr>, snd s)"
| "ipc_step lib (Call_Session_Id i) s = (set_session_id i (fst s), snd s)"
| "ipc_step lib (Call_Add_Blob allow b) s = (snd (add_blob allow b (fst s)), snd s)"

fun stream_step :: "response_header_message protobuf \<Rightarrow> response_op \<Rightarrow> response \<times> stream_world \<Rightarrow>
    response \<times> stream_world" where
  "stream_step lib (Call_Body b) s = snd (stream_body lib b s)"
| "stream_step lib (Call_Body_Head b) s = snd (stream_body_head lib b s)"
| "stream_step lib (Call_Error e) s = stream_error lib e s"
| "stream_step lib (Call_Acquire name created n) s = snd (snd (stream_acquire_channel name n s))"
| "stream_step lib (Call_Release c) s = snd (stream_release_channel c s)"
| "stream_step lib Call_Cancel s = (fst s\<lparr>cancelled := True\<rparr>, snd s)"
| "stream_step lib (Call_Session_Id i) s = (set_session_id i (fst s), snd s)"
| "stream_step lib (Call_Add_Blob allow b) s = (snd (add_blob allow b (fst s)), snd s)"

definition ipc_answers :: "response \<times> ipc_world \<Rightarrow> nat" where
  "ipc_answers s = length (filter (\<lambda>(i, k, b). k = RESPONSE_BODY) (response_wire (snd s)))"

fun sends_body :: "server_op \<Rightarrow> bool" where
  "sends_body (Send_Body slot b body) = body"
| "sends_body _ = False"

definition stream_answers :: "response \<times> stream_world \<Rightarrow> nat" where
  "stream_answers s = length (filter sends_body (sends (snd s)))"

fun completes_response :: "response_op \<Rightarrow> bool" where
  "completes_response (Call_Body b) = True"
| "completes_response (Call_Error e) = True"
| "completes_response _ = False"

text \<open>
  A body or error record that fits into a message of this response, with the session id and the
  blobs it has now: header and body are each written with a length that is an \<^verbatim>\<open>int\<close>.
\<close>

definition message_fits :: "response_header_message protobuf \<Rightarrow> bytes \<Rightarrow> response_header_message \<Rightarrow> bool" where
  "message_fits lib body hdr \<longleftrightarrow> length (serialize_message lib hdr) \<le> INT_MAX \<and> length body \<le> INT_MAX"

fun response_fits :: "response_header_message protobuf \<Rightarrow> response_op \<Rightarrow> response \<Rightarrow> bool" where
  "response_fits lib (Call_Body b) r = message_fits lib b
     \<lparr>rh_session_id = response_session_id r, rh_payload_type = SERVICE_RESULT, rh_blobs = blobs r\<rparr>"
| "response_fits lib (Call_Error e) r = message_fits lib (case e of Some s \<Rightarrow> s | None \<Rightarrow> [])
     \<lparr>rh_session_id = response_session_id r, rh_payload_type = SERVER_DIAGNOSTICS, rh_blobs = []\<rparr>"
| "response_fits lib _ r = True"

lemma append_body_fits:
  "message_fits lib b \<lparr>rh_session_id = i, rh_payload_type = SERVICE_RESULT, rh_blobs = bl\<rparr> \<longleftrightarrow>
    append_response_header lib b i (Some bl) SERVICE_RESULT \<noteq> None"
  by (auto simp: append_response_header_def SerializeDelimitedToCodedStream_def
    PutDelimitedBodyToCodedStream_def message_fits_def Let_def)

lemma append_error_fits:
  "message_fits lib b \<lparr>rh_session_id = i, rh_payload_type = SERVER_DIAGNOSTICS, rh_blobs = []\<rparr> \<longleftrightarrow>
    append_response_header lib b i None SERVER_DIAGNOSTICS \<noteq> None"
  by (auto simp: append_response_header_def SerializeDelimitedToCodedStream_def
    PutDelimitedBodyToCodedStream_def message_fits_def Let_def)

lemma ipc_drop_fields [simp]:
  "complete_gate (fst (ipc_drop_channel r w)) = complete_gate r"
  "response_session_id (fst (ipc_drop_channel r w)) = response_session_id r"
  "blobs (fst (ipc_drop_channel r w)) = blobs r"
  "response_wire (snd (ipc_drop_channel r w)) = response_wire w"
  by (simp_all add: ipc_drop_channel_def ipc_channel_shutdown_def Let_def split: option.splits)

lemma perform_plain_body [simp]: "sends (perform_plain (Send_Body sl b body) w) = sends w @ [Send_Body sl b body]"
  "sends (perform_plain (Send_Bye sl) w) = sends w @ [Send_Bye sl]"
  by (simp_all add: perform_plain_def perform_def)

lemma stream_drop_fields [simp]:
  "complete_gate (fst (stream_drop_channel r w)) = complete_gate r"
  "response_session_id (fst (stream_drop_channel r w)) = response_session_id r"
  "blobs (fst (stream_drop_channel r w)) = blobs r"
  "filter sends_body (sends (snd (stream_drop_channel r w))) = filter sends_body (sends w)"
  by (simp_all add: stream_drop_channel_def split: option.splits)

lemmas ipc_defs = ipc_body_def ipc_body_head_def ipc_error_def ipc_acquire_channel_def
  ipc_release_channel_def ipc_server_diagnostics_def ipc_write_def ipc_finish_def
  ipc_channel_shutdown_def ipc_answers_def set_session_id_def add_blob_def Let_def

lemmas stream_defs = stream_body_def stream_body_head_def stream_error_def stream_acquire_channel_def
  stream_release_channel_def stream_server_diagnostics_def stream_finish_def stream_answers_def
  set_session_id_def add_blob_def Let_def

interpretation ipc_single: single_answer "ipc_step lib" "\<lambda>s. complete_gate (fst s)" ipc_answers
  completes_response "\<lambda>c s. response_fits lib c (fst s)" for lib
proof
  fix c and s :: "response \<times> ipc_world"
  obtain r w where s: "s = (r, w)"
    by (cases s)
  obtain r2 w2 where d: "ipc_drop_channel (r\<lparr>complete_gate := True\<rparr>) w = (r2, w2)"
    by force
  then have d2: "complete_gate r2" "response_session_id r2 = response_session_id r" "blobs r2 = blobs r"
    "response_wire w2 = response_wire w"
    using ipc_drop_fields [of "r\<lparr>complete_gate := True\<rparr>" w] by simp_all
  show "complete_gate (fst (ipc_step lib c s)) \<and> ipc_answers (ipc_step lib c s) = ipc_answers s"
    if "complete_gate (fst s)"
    using that s by (cases c) (auto simp: ipc_defs split: option.splits)
  show "\<not> complete_gate (fst (ipc_step lib c s)) \<and> ipc_answers (ipc_step lib c s) = ipc_answers s"
    if "\<not> complete_gate (fst s)" "\<not> completes_response c"
    using that s by (cases c) (auto simp: ipc_defs split: option.splits)
  show "complete_gate (fst (ipc_step lib c s))" if "\<not> complete_gate (fst s)" "completes_response c"
    using that s d d2 by (cases c) (auto simp: ipc_defs split: option.splits)
  show "ipc_answers (ipc_step lib c s) = ipc_answers s + (if response_fits lib c (fst s) then 1 else 0)"
    if "\<not> complete_gate (fst s)" "completes_response c"
    using that s d d2
    by (cases c) (auto simp: ipc_defs append_body_fits append_error_fits split: option.splits)
qed

interpretation stream_single: single_answer "stream_step lib" "\<lambda>s. complete_gate (fst s)" stream_answers
  completes_response "\<lambda>c s. response_fits lib c (fst s)" for lib
proof
  fix c and s :: "response \<times> stream_world"
  obtain r w where s: "s = (r, w)"
    by (cases s)
  obtain r2 w2 where d: "stream_drop_channel (r\<lparr>complete_gate := True\<rparr>) w = (r2, w2)"
    by force
  then have d2: "complete_gate r2" "response_session_id r2 = response_session_id r" "blobs r2 = blobs r"
    "filter sends_body (sends w2) = filter sends_body (sends w)"
    using stream_drop_fields [of "r\<lparr>complete_gate := True\<rparr>" w] by simp_all
  show "complete_gate (fst (stream_step lib c s)) \<and> stream_answers (stream_step lib c s) = stream_answers s"
    if "complete_gate (fst s)"
    using that s by (cases c) (auto simp: stream_defs perform_def bind_result_Inr_iff
      split: option.splits sum.splits)
  show "\<not> complete_gate (fst (stream_step lib c s)) \<and> stream_answers (stream_step lib c s) = stream_answers s"
    if "\<not> complete_gate (fst s)" "\<not> completes_response c"
    using that s by (cases c) (auto simp: stream_defs perform_def bind_result_Inr_iff
      split: option.splits sum.splits)
  show "complete_gate (fst (stream_step lib c s))" if "\<not> complete_gate (fst s)" "completes_response c"
    using that s d d2 by (cases c) (auto simp: stream_defs split: option.splits)
  show "stream_answers (stream_step lib c s) = stream_answers s + (if response_fits lib c (fst s) then 1 else 0)"
    if "\<not> complete_gate (fst s)" "completes_response c"
    using that s d d2
    by (cases c) (auto simp: stream_defs append_body_fits append_error_fits split: option.splits)
qed

section \<open>Properties\<close>

text \<open>
  C8. Whatever calls are made on a response, in any order and number, the client gets at most one
  answer, over shared memory as over a stream. It gets one exactly if there is a body or an error
  among the calls and the first of them fits into a message at that point, with the session id
  and the blobs the response has then: later bodies and errors neither add an answer nor make up
  for one that did not fit.
\<close>

theorem one_answer:
  "ipc_answers (fold (ipc_step lib) cs (new_response i, w)) = ipc_answers (new_response i, w) +
    (case dropWhile (\<lambda>c. \<not> completes_response c) cs of
       [] \<Rightarrow> 0
     | c # _ \<Rightarrow>
         if response_fits lib c
           (fst (fold (ipc_step lib) (takeWhile (\<lambda>c. \<not> completes_response c) cs) (new_response i, w)))
         then 1 else 0) \<and>
   stream_answers (fold (stream_step lib) cs (new_response i, v)) = stream_answers (new_response i, v) +
    (case dropWhile (\<lambda>c. \<not> completes_response c) cs of
       [] \<Rightarrow> 0
     | c # _ \<Rightarrow>
         if response_fits lib c
           (fst (fold (stream_step lib) (takeWhile (\<lambda>c. \<not> completes_response c) cs) (new_response i, v)))
         then 1 else 0)"
  using ipc_single.open_run [of "(new_response i, w)" lib cs]
    stream_single.open_run [of "(new_response i, v)" lib cs]
  by (simp add: new_response_def)

definition sample_response_header :: response_header_message where
  "sample_response_header = \<lparr>rh_session_id = 0, rh_payload_type = SERVICE_RESULT, rh_blobs = []\<rparr>"

definition sample_ipc_world :: ipc_world where
  "sample_ipc_world = \<lparr>response_wire = [], ipc_channels = [], garbage = [], clean_ups = 0\<rparr>"

definition sample_stream_world :: stream_world where
  "sample_stream_world = \<lparr>connection = new_stream_socket [], sends = [], stream_channels = [],
     stream_clean_ups = 0\<rparr>"

text \<open>A library whose headers grow with the names of the blobs.\<close>

definition growing_library :: "response_header_message protobuf" where
  "growing_library = (sample_library sample_response_header)\<lparr>serialize_message :=
     (\<lambda>hdr. concat (map (\<lambda>e. map of_char (channel_name e)) (rh_blobs hdr)))\<rparr>"

theorem one_answer_witness:
  "ipc_answers (fold (ipc_step growing_library)
      [Call_Acquire [1] True 3, Call_Add_Blob True \<lparr>channel_name = ''b'', location = Blob_Path ''/tmp/b'', temporary = True\<rparr>,
       Call_Body [5], Call_Error None, Call_Body [6]] (new_response 4, sample_ipc_world)) = 1"
  using one_answer [of growing_library "[Call_Acquire [1] True 3,
      Call_Add_Blob True \<lparr>channel_name = ''b'', location = Blob_Path ''/tmp/b'', temporary = True\<rparr>,
      Call_Body [5], Call_Error None, Call_Body [6]]" 4 sample_ipc_world sample_stream_world]
  by (simp add: message_fits_def growing_library_def INT_MAX_def sample_library_def ipc_acquire_channel_def
    add_blob_def new_response_def sample_ipc_world_def ipc_answers_def Let_def del: fold_simps(2))

lemma closed_ipc_step:
  assumes "complete_gate (fst s)"
  shows "completed (fst (ipc_step lib c s)) = completed (fst s) \<and>
    clean_ups (snd (ipc_step lib c s)) = clean_ups (snd s)"
  using assms by (cases s; cases c) (auto simp: ipc_defs split: option.splits)

lemma closed_ipc_run:
  assumes "complete_gate (fst s)"
  shows "completed (fst (fold (ipc_step lib) cs s)) = completed (fst s) \<and>
    clean_ups (snd (fold (ipc_step lib) cs s)) = clean_ups (snd s)"
  using assms
proof (induction cs arbitrary: s)
  case (Cons c cs)
  then show ?case
    using closed_ipc_step [of s lib c] ipc_single.closed [of s lib c] by simp
qed simp

text \<open>
  C38. A body that is too long for a message is lost for good: it passes the gate but is not
  sent, so that no later body and no error reaches the client; the response never completes and
  is never cleaned up. (A later \<^verbatim>\<open>body_head\<close> is still sent; it is not an answer.)
\<close>

theorem oversized_body_unanswered:
  assumes "INT_MAX < length b" "\<not> complete_gate r"
  shows "let s = fold (ipc_step lib) cs (snd (ipc_body lib b (r, w))) in
    ipc_answers s = ipc_answers (r, w) \<and> completed (fst s) = completed r \<and> clean_ups (snd s) = clean_ups w"
proof -
  obtain r2 w2 where d: "ipc_drop_channel (r\<lparr>complete_gate := True\<rparr>) w = (r2, w2)"
    by force
  have "append_response_header lib b i bl t = None" for i bl t
    using assms(1) by (simp add: append_response_header_def PutDelimitedBodyToCodedStream_def Let_def
      split: option.splits)
  then have s: "snd (ipc_body lib b (r, w)) = (r2, w2)"
    using assms(2) d by (simp add: ipc_body_def)
  have d2: "complete_gate r2" "response_wire w2 = response_wire w" "completed r2 = completed r"
    "clean_ups w2 = clean_ups w"
    using d ipc_drop_fields [of "r\<lparr>complete_gate := True\<rparr>" w]
    by (auto simp: ipc_drop_channel_def ipc_channel_shutdown_def Let_def split: option.splits if_splits)
  then have "ipc_answers (fold (ipc_step lib) cs (r2, w2)) = ipc_answers (r, w)"
    using ipc_single.closed_run [of "(r2, w2)" lib cs] by (simp add: ipc_answers_def)
  then show ?thesis
    using closed_ipc_run [of "(r2, w2)" lib cs] d2 unfolding s by (simp add: Let_def)
qed

theorem oversized_body_unanswered_witness:
  "ipc_answers (fold (ipc_step (sample_library sample_response_header)) [Call_Error None]
     (snd (ipc_body (sample_library sample_response_header) (replicate (Suc INT_MAX) 0)
       (new_response 4, sample_ipc_world)))) = 0"
proof -
  have "INT_MAX < length (replicate (Suc INT_MAX) (0::u8))" "\<not> complete_gate (new_response 4)"
    by (simp_all add: new_response_def del: replicate_Suc)
  from oversized_body_unanswered [OF this, of "sample_library sample_response_header" "[Call_Error None]"
    sample_ipc_world] show ?thesis
    by (simp only: Let_def) (simp add: ipc_answers_def sample_ipc_world_def del: replicate_Suc fold_simps)
qed

end
