(* ===== verification/Configuration.thy ===== *)
theory Configuration
  imports Authentication
begin

text \<open>
  The configuration of the server (\<^verbatim>\<open>include/tateyama/api/configuration.h\<close>): the properties the
  user set and the defaults, section by section, and the getters for the types of properties.
  The parser of the file and the conversion of a text to a type are of the boost library; they
  are parameters.
\<close>

section \<open>State\<close>

type_synonym properties = "(string \<times> string) list"
type_synonym ini = "(string \<times> properties) list"

text \<open>
  A section holds references to its subtrees: into the tree of the user and the tree of the
  defaults, or, when the user has no such section, into the tree of the defaults alone. The flag
  in \<open>section_map\<close> says the latter.
\<close>

record whole =
  property_tree :: ini
  default_tree :: ini
  default_valid :: bool
  section_map :: "(string \<times> bool) list"
  base_path :: "string option"
  property_file_exist :: bool
  check_done :: bool

record config_section =
  properties :: properties
  defaults :: properties
  defaults_used :: bool

definition child :: "ini \<Rightarrow> string \<Rightarrow> properties" where
  "child t n = (case map_of t n of Some ps \<Rightarrow> ps | None \<Rightarrow> [])"

definition get_section :: "string \<Rightarrow> whole \<Rightarrow> config_section option" where
  "get_section n w = map_option (\<lambda>default_only.
     if default_only
     then \<lparr>properties = child (default_tree w) n, defaults = child (default_tree w) n, defaults_used = False\<rparr>
     else \<lparr>properties = child (property_tree w) n, defaults = child (default_tree w) n, defaults_used = True\<rparr>)
     (map_of (section_map w) n)"

section \<open>Getters\<close>

text \<open>\<^verbatim>\<open>boost::algorithm::split\<close> with \<^verbatim>\<open>is_any_of\<close>.\<close>

fun split_any :: "string \<Rightarrow> string \<Rightarrow> string list" where
  "split_any seps [] = [[]]"
| "split_any seps (c # cs) = (let rest = split_any seps cs in
     if c \<in> set seps then [] # rest else (c # hd rest) # tl rest)"

definition convert :: "(string \<Rightarrow> 'a option) \<Rightarrow> string \<Rightarrow> 'a option result" where
  "convert lexical_cast v =
     (if v \<noteq> [] then
        (case lexical_cast v of
           Some x \<Rightarrow> Inr (Some x)
         | None \<Rightarrow> Inl (Runtime_Error ''the parameter string can not be converted to the type specified''))
      else Inr None)"

definition get_value :: "(string \<Rightarrow> 'a option) \<Rightarrow> string \<Rightarrow> config_section \<Rightarrow> 'a option result" where
  "get_value lexical_cast n s = (case map_of (properties s) n of
     Some v \<Rightarrow> convert lexical_cast v
   | None \<Rightarrow>
       if defaults_used s then
         (case map_of (defaults s) n of
            Some v \<Rightarrow> convert lexical_cast v
          | None \<Rightarrow> Inr None)
       else Inr None)"

fun convert_all :: "(string \<Rightarrow> 'a option) \<Rightarrow> string list \<Rightarrow> 'a list result" where
  "convert_all lexical_cast [] = Inr []"
| "convert_all lexical_cast (e # es) = (case lexical_cast (trim e) of
     None \<Rightarrow> Inl (Runtime_Error ''the parameter string can not be converted to the type specified'')
   | Some x \<Rightarrow> bind_result (convert_all lexical_cast es) (\<lambda>xs. Inr (x # xs)))"

text \<open>
  The getter of a list first looks at the properties of the user and then, if it uses defaults,
  looks at the defaults in any case.
\<close>

definition get_list :: "(string \<Rightarrow> 'a option) \<Rightarrow> string \<Rightarrow> string \<Rightarrow> config_section \<Rightarrow> 'a list option result" where
  "get_list lexical_cast n delimiter s =
     (let value = map_of (properties s) n in
      if value = Some [] then Inr None
      else if defaults_used s then
        (let value = (case map_of (defaults s) n of Some v \<Rightarrow> Some v | None \<Rightarrow> value) in
         if map_of (defaults s) n = Some [] then Inr None
         else bind_result (convert_all lexical_cast (split_any delimiter (case value of Some v \<Rightarrow> v | None \<Rightarrow> [])))
           (\<lambda>xs. Inr (Some xs)))
      else Inr None)"

definition get_string :: "string \<Rightarrow> config_section \<Rightarrow> string option" where
  "get_string n s = (case map_of (properties s) n of
     Some v \<Rightarrow> Some v
   | None \<Rightarrow> if defaults_used s then map_of (defaults s) n else None)"

text \<open>\<^verbatim>\<open>boost::algorithm::iequals\<close> in the classic locale.\<close>

definition to_lower :: "char \<Rightarrow> char" where
  "to_lower c = (if (65 :: nat) \<le> of_char c \<and> of_char c \<le> (90 :: nat) then char_of (of_char c + 32 :: nat) else c)"

definition iequals :: "string \<Rightarrow> string \<Rightarrow> bool" where
  "iequals a b \<longleftrightarrow> map to_lower a = map to_lower b"

definition parse_bool :: "string \<Rightarrow> bool result" where
  "parse_bool v =
     (if iequals v ''true'' \<or> iequals v ''yes'' \<or> v = ''1'' then Inr True
      else if iequals v ''false'' \<or> iequals v ''no'' \<or> v = ''0'' then Inr False
      else Inl (Runtime_Error ''the parameter string can not be converted to bool''))"

definition get_bool :: "string \<Rightarrow> config_section \<Rightarrow> bool option result" where
  "get_bool n s = (case get_string n s of
     Some v \<Rightarrow> bind_result (parse_bool v) (\<lambda>b. Inr (Some b))
   | None \<Rightarrow> Inr None)"

definition get_string_list :: "string \<Rightarrow> string \<Rightarrow> config_section \<Rightarrow> string list option" where
  "get_string_list n delimiter s = map_option (\<lambda>v. map trim (split_any delimiter v)) (get_string n s)"

fun parse_bools :: "string list \<Rightarrow> bool list result" where
  "parse_bools [] = Inr []"
| "parse_bools (e # es) = bind_result (parse_bool (trim e)) (\<lambda>b.
     bind_result (parse_bools es) (\<lambda>bs. Inr (b # bs)))"

definition get_bool_list :: "string \<Rightarrow> string \<Rightarrow> config_section \<Rightarrow> bool list option result" where
  "get_bool_list n delimiter s = (case get_string n s of
     Some v \<Rightarrow> bind_result (parse_bools (split_any delimiter v)) (\<lambda>bs. Inr (Some bs))
   | None \<Rightarrow> Inr None)"

text \<open>A path is absolute, or relative to the base path; \<^verbatim>\<open>operator/\<close> adds the separator.\<close>

definition is_absolute :: "string \<Rightarrow> bool" where
  "is_absolute p \<longleftrightarrow> p \<noteq> [] \<and> hd p = CHR ''/''"

definition path_join :: "string \<Rightarrow> string \<Rightarrow> string" where
  "path_join b p = (if b = [] \<or> last b = CHR ''/'' then b @ p else b @ ''/'' @ p)"

definition get_path :: "string option \<Rightarrow> string \<Rightarrow> config_section \<Rightarrow> string option result" where
  "get_path base n s = (case get_string n s of
     Some v \<Rightarrow>
       if v = [] then Inr (Some [])
       else if is_absolute v then Inr (Some v)
       else (case base of
         Some b \<Rightarrow> Inr (Some (path_join b v))
       | None \<Rightarrow> Inl (Runtime_Error ''the parameter string is relative path and the base path is empty''))
   | None \<Rightarrow> Inr None)"

section \<open>Setting a property\<close>

fun put_property :: "string \<Rightarrow> string \<Rightarrow> properties \<Rightarrow> bool \<times> properties" where
  "put_property n v [] = (True, [(n, v)])"
| "put_property n v ((k, x) # ps) =
     (if k = n then (False, (k, v) # ps)
      else (case put_property n v ps of (added, ps') \<Rightarrow> (added, (k, x) # ps')))"

definition put_child :: "string \<Rightarrow> properties \<Rightarrow> ini \<Rightarrow> ini" where
  "put_child n ps t = map (\<lambda>(k, x). if k = n then (k, ps) else (k, x)) t"

definition section_set :: "string \<Rightarrow> string \<Rightarrow> string \<Rightarrow> whole \<Rightarrow> (bool \<times> whole) option" where
  "section_set sec n v w = map_option (\<lambda>default_only.
     if default_only then
       (case put_property n v (child (default_tree w) sec) of
          (added, ps) \<Rightarrow> (added, w\<lparr>default_tree := put_child sec ps (default_tree w)\<rparr>))
     else
       (case put_property n v (child (property_tree w) sec) of
          (added, ps) \<Rightarrow> (added, w\<lparr>property_tree := put_child sec ps (property_tree w)\<rparr>)))
     (map_of (section_map w) sec)"

section \<open>Reading the configuration\<close>

text \<open>
  The check of the user's properties against the defaults. Properties without a default are
  logged; the result is always true.
\<close>

definition unknown_properties :: "whole \<Rightarrow> (string \<times> string) list" where
  "unknown_properties w = concat (map (\<lambda>(sec, ps).
     if sec = ''glog'' then [] else
       (case map_of (default_tree w) sec of
          None \<Rightarrow> [(sec, [])]
        | Some ds \<Rightarrow> map (\<lambda>p. (sec, fst p)) (filter (\<lambda>p. map_of ds (fst p) = None) ps)))
     (property_tree w))"

definition config_check :: "whole \<Rightarrow> bool \<times> (string \<times> string) list \<times> whole" where
  "config_check w =
     (if \<not> property_file_exist w \<or> check_done w \<or> \<not> default_valid w then (True, [], w)
      else (True, unknown_properties w, w\<lparr>check_done := True\<rparr>))"

definition initialize :: "ini option \<Rightarrow> ini result \<Rightarrow> bool \<Rightarrow> whole \<Rightarrow> whole result" where
  "initialize parsed_default parsed throw_exception w =
     (let w = (case parsed_default of
          Some t \<Rightarrow> w\<lparr>default_tree := t, default_valid := True\<rparr>
        | None \<Rightarrow> w\<lparr>default_valid := False\<rparr>)
      in bind_result (case parsed of
          Inr t \<Rightarrow> Inr (w\<lparr>property_tree := t\<rparr>)
        | Inl e \<Rightarrow> if throw_exception then Inl e else Inr w)
        (\<lambda>w. if default_valid w then
               Inr (snd (snd (config_check (w\<lparr>section_map :=
                 map (\<lambda>(n, ps). (n, map_of (property_tree w) n = None)) (default_tree w)\<rparr>))))
             else Inr w))"

definition empty_whole :: whole where
  "empty_whole = \<lparr>property_tree = [], default_tree = [], default_valid = False, section_map = [],
     base_path = None, property_file_exist = False, check_done = False\<rparr>"

text \<open>From a file that may not exist, or from a stream.\<close>

definition whole_of_file :: "bool \<Rightarrow> ini option \<Rightarrow> ini result \<Rightarrow> whole result" where
  "whole_of_file exists_file parsed_default parsed =
     (if exists_file
      then initialize parsed_default parsed True (empty_whole\<lparr>property_file_exist := True\<rparr>)
      else initialize parsed_default (Inr []) False empty_whole)"

definition whole_of_stream :: "ini option \<Rightarrow> ini result \<Rightarrow> whole result" where
  "whole_of_stream parsed_default parsed = initialize parsed_default parsed True empty_whole"

definition create_configuration :: "bool \<Rightarrow> ini option \<Rightarrow> ini result \<Rightarrow> whole option" where
  "create_configuration exists_file parsed_default parsed =
     (case whole_of_file exists_file parsed_default parsed of Inr w \<Rightarrow> Some w | Inl e \<Rightarrow> None)"

text \<open>
  Two configurations are compared section by section. A section of the user that is not in the
  defaults has no object: it is a null pointer, and comparing it is undefined (\<open>None\<close>).
\<close>

fun sections_equal :: "string list \<Rightarrow> whole \<Rightarrow> whole \<Rightarrow> bool option" where
  "sections_equal [] a b = Some True"
| "sections_equal (n # ns) a b = (case (get_section n a, get_section n b) of
     (Some x, Some y) \<Rightarrow> if properties x = properties y then sections_equal ns a b else Some False
   | _ \<Rightarrow> None)"

definition whole_equal :: "whole \<Rightarrow> whole \<Rightarrow> bool option" where
  "whole_equal a b =
     (if property_tree a \<noteq> property_tree b then Some False
      else sections_equal (map fst (property_tree a)) a b)"

section \<open>Properties\<close>

lemma map_of_put_property:
  "map_of (snd (put_property n v ps)) m = (if m = n then Some v else map_of ps m)"
  by (induction ps) (auto split: prod.splits)

lemma map_of_put_child:
  "map_of (put_child sec ps t) m = (if m = sec then map_option (\<lambda>_. ps) (map_of t m) else map_of t m)"
  by (induction t) (auto simp: put_child_def)

lemma child_put_child:
  assumes "map_of t sec \<noteq> None"
  shows "child (put_child sec ps t) m = (if m = sec then ps else child t m)"
  using assms by (auto simp: child_def map_of_put_child split: option.splits)

text \<open>A configuration as \<^verbatim>\<open>initialize\<close> leaves it: every section has its trees.\<close>

definition config_ok :: "whole \<Rightarrow> bool" where
  "config_ok w \<longleftrightarrow> (\<forall>n d. map_of (section_map w) n = Some d \<longrightarrow>
     map_of (default_tree w) n \<noteq> None \<and> (d \<longleftrightarrow> map_of (property_tree w) n = None))"

lemma section_map_of:
  "map_of (map (\<lambda>(n, ps). (n, f n)) t) n = map_option (\<lambda>_. f n) (map_of t n)"
  by (induction t) auto

lemma initialize_ok:
  assumes "initialize parsed_default parsed throw w = Inr w'" "section_map w = []"
  shows "config_ok w'"
  using assms
  by (auto simp: initialize_def bind_result_Inr_iff config_check_def config_ok_def section_map_of Let_def
    split: option.splits sum.splits if_splits)

text \<open>
  C28. After a property of a section is set, the getter of that section returns the new value,
  and every other property of every section is as before; whether the user or only the defaults
  have the section.
\<close>

theorem set_get_property:
  assumes "config_ok w" "section_set sec n v w = Some (added, w')"
  shows "config_ok w' \<and> (\<forall>m k. map_option (get_string k) (get_section m w') =
    (if m = sec \<and> k = n then Some (Some v) else map_option (get_string k) (get_section m w)))"
proof -
  obtain d where d: "map_of (section_map w) sec = Some d"
    using assms(2) by (auto simp: section_set_def)
  have trees: "map_of (default_tree w) sec \<noteq> None" "d \<longleftrightarrow> map_of (property_tree w) sec = None"
    using assms(1) d by (auto simp: config_ok_def)
  have w': "w' = (if d then w\<lparr>default_tree := put_child sec (snd (put_property n v (child (default_tree w) sec))) (default_tree w)\<rparr>
      else w\<lparr>property_tree := put_child sec (snd (put_property n v (child (property_tree w) sec))) (property_tree w)\<rparr>)"
    using assms(2) d by (auto simp: section_set_def split: prod.splits if_splits)
  have keep: "map_of (put_child sec ps t) m = None \<longleftrightarrow> map_of t m = None" for ps t m
    by (simp add: map_of_put_child)
  have "config_ok w'"
    using assms(1) unfolding w' config_ok_def by (simp add: keep del: not_None_eq)
  moreover have "map_option (get_string k) (get_section m w') =
      (if m = sec \<and> k = n then Some (Some v) else map_option (get_string k) (get_section m w))" for m k
  proof (cases d)
    case True
    then show ?thesis
      using d child_put_child [OF trees(1)] unfolding w'
      by (cases "map_of (section_map w) m"; cases "m = sec")
        (auto simp: get_section_def get_string_def map_of_put_property split: option.splits)
  next
    case False
    then have "map_of (property_tree w) sec \<noteq> None"
      using trees(2) by simp
    from child_put_child [OF this] False d show ?thesis
      unfolding w' by (cases "map_of (section_map w) m"; cases "m = sec")
        (auto simp: get_section_def get_string_def map_of_put_property split: option.splits)
  qed
  ultimately show ?thesis by blast
qed

definition sample_config :: whole where
  "sample_config = empty_whole\<lparr>default_tree := [(''ipc_endpoint'', [(''threads'', ''104'')]), (''session'', [(''timeout'', ''300'')])],
     property_tree := [(''ipc_endpoint'', [])], default_valid := True,
     section_map := [(''ipc_endpoint'', False), (''session'', True)]\<rparr>"

theorem set_get_property_witness:
  "\<exists>w. section_set ''session'' ''timeout'' ''600'' sample_config = Some (False, w) \<and>
     map_option (get_string ''timeout'') (get_section ''session'' w) = Some (Some ''600'') \<and>
     map_option (get_string ''threads'') (get_section ''ipc_endpoint'' w) = Some (Some ''104'')"
proof -
  have ok: "config_ok sample_config"
    by (auto simp: config_ok_def sample_config_def)
  obtain w where set: "section_set ''session'' ''timeout'' ''600'' sample_config = Some (False, w)"
    by (simp add: section_set_def sample_config_def child_def)
  have old: "map_option (get_string ''threads'') (get_section ''ipc_endpoint'' sample_config) = Some (Some ''104'')"
    by (simp add: get_section_def get_string_def sample_config_def child_def)
  from set_get_property [OF ok set] have
    "map_option (get_string ''timeout'') (get_section ''session'' w) = Some (Some ''600'')"
    "map_option (get_string ''threads'') (get_section ''ipc_endpoint'' w) = Some (Some ''104'')"
    using old by simp_all
  with set show ?thesis by blast
qed

text \<open>
  C39. The getter of a list of numbers ignores what the user configured: when the defaults have
  the property, the list is always that of the defaults, and in a section that only the defaults
  have it is never found.
\<close>

theorem list_ignores_user:
  assumes "map_of (defaults s) n = Some d" "d \<noteq> []" "u \<noteq> []"
  shows "get_list lexical_cast n delimiter (s\<lparr>properties := (n, u) # properties s\<rparr>) =
    (if defaults_used s
     then bind_result (convert_all lexical_cast (split_any delimiter d)) (\<lambda>xs. Inr (Some xs))
     else Inr None)"
  using assms by (simp add: get_list_def Let_def)

theorem list_ignores_user_witness:
  "get_list (\<lambda>x. if x = ''1'' then Some (1::int) else if x = ''2'' then Some 2 else None) ''cores'' '',''
     \<lparr>properties = [(''cores'', ''2'')], defaults = [(''cores'', ''1'')], defaults_used = True\<rparr> = Inr (Some [1])"
  using list_ignores_user [of "\<lparr>properties = [], defaults = [(''cores'', ''1'')], defaults_used = True\<rparr>"
    "''cores''" "''1''" "''2''" "\<lambda>x. if x = ''1'' then Some (1::int) else if x = ''2'' then Some 2 else None" "'',''"]
  by (simp add: trim_def isspace_def)

end
