(* ===== verification/Task_Scheduler.thy ===== *)
theory Task_Scheduler
  imports Tateyama_Prelude "HOL-Library.Multiset"
begin

text \<open>
  The task scheduler (\<^verbatim>\<open>include/tateyama/task_scheduler\<close>): workers with a local queue, from which
  other workers may steal, and a queue of sticky tasks of their own; the choice of a worker for a
  task; the control of the threads, which sleep when they find no task; and the worker that watches
  conditional tasks. What a task does is not modelled: a task has an identity and says whether it is
  sticky; the flag that tells a task that it is stolen is left out. The concurrent queues are a library of which only this is used: a pop of a queue that is
  not empty takes one of its elements. Which one is the parameter \<open>front\<close>, a position in the
  list of the elements in the order of their pushes.
\<close>

section \<open>Queues, notifiers and threads\<close>

datatype task = Task (task_id: nat) (sticky: bool)

record basic_queue =
  origin :: "task list"
  queue_active :: bool

definition new_queue :: basic_queue where
  "new_queue = \<lparr>origin = [], queue_active = True\<rparr>"

definition queue_push :: "task \<Rightarrow> basic_queue \<Rightarrow> basic_queue" where
  "queue_push t q = q\<lparr>origin := origin q @ [t]\<rparr>"

definition pop_list :: "('a list \<Rightarrow> nat) \<Rightarrow> 'a list \<Rightarrow> ('a \<times> 'a list) option" where
  "pop_list front xs =
     (if xs = [] then None
      else (let k = min (front xs) (length xs - 1) in Some (xs ! k, take k xs @ drop (Suc k) xs)))"

lemma pop_list_Some:
  assumes "pop_list front xs = Some (t, ys)"
  shows "mset xs = add_mset t (mset ys)" "length ys < length xs"
proof -
  let ?k = "min (front xs) (length xs - 1)"
  have k: "?k < length xs" and ys: "t = xs ! ?k" "ys = take ?k xs @ drop (Suc ?k) xs"
    using assms by (auto simp: pop_list_def Let_def min_less_iff_disj split: if_splits)
  have "xs = take ?k xs @ t # drop (Suc ?k) xs"
    unfolding ys(1) using k by (rule id_take_nth_drop)
  then have "mset xs = mset (take ?k xs @ t # drop (Suc ?k) xs)"
    by simp
  then show "mset xs = add_mset t (mset ys)"
    unfolding ys(2) by simp
  then show "length ys < length xs"
    by (metis size_mset size_add_mset lessI)
qed

lemma pop_list_Nil [simp]: "pop_list front [] = None"
  by (simp add: pop_list_def)

lemma pop_list_None [simp]: "pop_list front xs = None \<longleftrightarrow> xs = []"
  by (simp add: pop_list_def Let_def)

definition queue_try_pop :: "(task list \<Rightarrow> nat) \<Rightarrow> basic_queue \<Rightarrow> (task \<times> basic_queue) option" where
  "queue_try_pop front q = map_option (\<lambda>(t, ts). (t, q\<lparr>origin := ts\<rparr>)) (pop_list front (origin q))"

definition queue_reconstruct :: "basic_queue \<Rightarrow> basic_queue" where
  "queue_reconstruct q = q\<lparr>origin := []\<rparr>"

definition queue_deactivate :: "basic_queue \<Rightarrow> basic_queue" where
  "queue_deactivate q = q\<lparr>queue_active := False\<rparr>"

record periodic_notifier =
  notifications :: u64
  period :: u64
  current :: u64

definition notifier_init :: "u64 \<Rightarrow> u64 \<Rightarrow> periodic_notifier" where
  "notifier_init n p = \<lparr>notifications = n, period = p, current = 0\<rparr>"

definition count_up :: "periodic_notifier \<Rightarrow> bool \<times> periodic_notifier" where
  "count_up p =
     (let p = p\<lparr>current := current p + notifications p\<rparr> in
      if current p \<ge> period p then (True, p\<lparr>current := current p - period p\<rparr>) else (False, p))"

record thread_control =
  activate_requested :: bool
  thread_active :: bool
  initialized :: bool
  completed :: bool

definition new_thread :: thread_control where
  "new_thread = \<lparr>activate_requested = False, thread_active = False, initialized = False, completed = False\<rparr>"

definition activate :: "thread_control \<Rightarrow> thread_control" where
  "activate t = (if completed t then t else t\<lparr>activate_requested := True\<rparr>)"

text \<open>\<^verbatim>\<open>suspend\<close> up to its wait: whether it waits; and the end of the wait, by request or timeout.\<close>

definition suspend_begin :: "thread_control \<Rightarrow> bool \<times> thread_control" where
  "suspend_begin t =
     (if completed t then (False, t)
      else if activate_requested t then (False, t\<lparr>activate_requested := False\<rparr>)
      else (True, t\<lparr>thread_active := False\<rparr>))"

definition suspend_end :: "thread_control \<Rightarrow> thread_control" where
  "suspend_end t = t\<lparr>activate_requested := False, thread_active := True\<rparr>"

section \<open>The scheduler\<close>

record task_scheduler_cfg =
  thread_count :: nat
  stealing_enabled :: bool
  use_preferred_worker :: bool
  ratio_check_local_first :: "u64 \<times> u64"
  stealing_wait :: nat
  busy_worker :: bool
  worker_try_count :: nat

record worker_stat =
  stat_count :: u64
  stat_steal :: u64
  stat_sticky :: u64
  stat_wakeup_run :: u64
  stat_suspend :: u64

record worker_context =
  last_steal_from :: nat
  local_first_notifier :: periodic_notifier
  busy_working :: bool

record scheduler =
  ts_cfg :: task_scheduler_cfg
  local_queues :: "basic_queue list"
  sticky_task_queues :: "basic_queue list"
  threads :: "thread_control list"
  worker_stats :: "worker_stat list"
  contexts :: "worker_context list"
  next_worker_index :: u64
  initial_tasks :: "task list list"
  started :: bool

definition new_scheduler :: "task_scheduler_cfg \<Rightarrow> scheduler" where
  "new_scheduler cfg =
     (let sz = thread_count cfg; (n, d) = ratio_check_local_first cfg in
      \<lparr>ts_cfg = cfg, local_queues = replicate sz new_queue, sticky_task_queues = replicate sz new_queue,
       threads = replicate sz new_thread,
       worker_stats = replicate sz \<lparr>stat_count = 0, stat_steal = 0, stat_sticky = 0, stat_wakeup_run = 0, stat_suspend = 0\<rparr>,
       contexts = replicate sz \<lparr>last_steal_from = 0, local_first_notifier = notifier_init n d, busy_working = False\<rparr>,
       next_worker_index = 0, initial_tasks = replicate sz [], started = False\<rparr>)"

definition next_index :: "nat \<Rightarrow> nat \<Rightarrow> nat" where
  "next_index i modulus = (if i = modulus - 1 then 0 else i + 1)"

definition next_worker :: "scheduler \<Rightarrow> nat \<times> scheduler" where
  "next_worker s =
     (unat (next_worker_index s) mod thread_count (ts_cfg s), s\<lparr>next_worker_index := next_worker_index s + 1\<rparr>)"

text \<open>The thread-local preference of the calling thread is an argument and a result.\<close>

definition preferred_worker :: "nat option \<Rightarrow> scheduler \<Rightarrow> nat \<times> nat option \<times> scheduler" where
  "preferred_worker own s = (case own of
     Some i \<Rightarrow> (i, own, s)
   | None \<Rightarrow> (case next_worker s of (i, s) \<Rightarrow> (i, Some i, s)))"

datatype schedule_policy_kind = Undefined_Policy | Suspended_Worker

text \<open>The loop of \<^verbatim>\<open>select_worker\<close>; indices out of range do not occur and end it.\<close>

function suspended_from :: "thread_control list \<Rightarrow> nat \<Rightarrow> nat \<Rightarrow> nat" where
  "suspended_from ths base cur =
     (if \<not> thread_active (ths ! cur) then cur
      else (let cur' = next_index cur (length ths) in
        if cur' = base \<or> length ths \<le> base \<or> length ths \<le> cur then cur' else suspended_from ths base cur'))"
  by pat_completeness auto
termination
  by (relation "measure (\<lambda>(ths, base, cur). if cur < base then base - cur else base + length ths - cur)")
    (auto simp: next_index_def split: if_splits)

definition select_worker :: "schedule_policy_kind \<Rightarrow> nat option \<Rightarrow> scheduler \<Rightarrow> nat \<times> nat option \<times> scheduler" where
  "select_worker policy own s =
     (case (if use_preferred_worker (ts_cfg s) then preferred_worker own s
            else (case next_worker s of (i, s) \<Rightarrow> (i, own, s))) of
       (i, own, s) \<Rightarrow>
         if policy = Undefined_Policy then (i, own, s)
         else (let base = next_index i (thread_count (ts_cfg s)) in (suspended_from (threads s) base base, own, s)))"

text \<open>\<^verbatim>\<open>schedule_at\<close> up to the activation of the thread: whether the thread is activated next.\<close>

definition schedule_at :: "task \<Rightarrow> nat \<Rightarrow> scheduler \<Rightarrow> bool \<times> scheduler" where
  "schedule_at t i s =
     (if \<not> started s then (False, s\<lparr>initial_tasks := (initial_tasks s)[i := initial_tasks s ! i @ [t]]\<rparr>)
      else if sticky t
      then (\<not> busy_worker (ts_cfg s),
        s\<lparr>sticky_task_queues := (sticky_task_queues s)[i := queue_push t (sticky_task_queues s ! i)]\<rparr>)
      else (\<not> busy_worker (ts_cfg s), s\<lparr>local_queues := (local_queues s)[i := queue_push t (local_queues s ! i)]\<rparr>))"

definition activate_at :: "nat \<Rightarrow> scheduler \<Rightarrow> scheduler" where
  "activate_at i s = s\<lparr>threads := (threads s)[i := activate (threads s ! i)]\<rparr>"

definition schedule :: "task \<Rightarrow> schedule_policy_kind \<Rightarrow> nat option \<Rightarrow> scheduler \<Rightarrow> nat \<times> nat option \<times> bool \<times> scheduler" where
  "schedule t policy own s = (case select_worker policy own s of
     (i, own, s) \<Rightarrow> (case schedule_at t i s of (act, s) \<Rightarrow> (i, own, act, s)))"

text \<open>
  What \<^verbatim>\<open>start\<close> does once all threads are initialized, one access after the other: it activates the
  threads in order and then sets the flag.
\<close>

definition scheduler_start :: "nat \<Rightarrow> scheduler \<Rightarrow> scheduler" where
  "scheduler_start i s = (if i < length (threads s) then activate_at i s else s\<lparr>started := True\<rparr>)"

section \<open>A worker\<close>

function move_initial :: "(task list \<Rightarrow> nat) \<Rightarrow> task list \<Rightarrow> basic_queue \<Rightarrow> basic_queue \<Rightarrow> basic_queue \<times> basic_queue" where
  "move_initial front ts q sq = (case pop_list front ts of
     None \<Rightarrow> (q, sq)
   | Some (t, ts') \<Rightarrow>
       if sticky t then move_initial front ts' q (queue_push t sq) else move_initial front ts' (queue_push t q) sq)"
  by pat_completeness auto
termination
  by (relation "measure (\<lambda>(front, ts, q, sq). length ts)") (auto dest: pop_list_Some(2))

definition worker_init :: "(task list \<Rightarrow> nat) \<Rightarrow> nat \<Rightarrow> scheduler \<Rightarrow> scheduler" where
  "worker_init front i s =
     (case move_initial front (initial_tasks s ! i) (queue_reconstruct (local_queues s ! i))
        (queue_reconstruct (sticky_task_queues s ! i)) of
        (q, sq) \<Rightarrow> s\<lparr>local_queues := (local_queues s)[i := q], sticky_task_queues := (sticky_task_queues s)[i := sq],
          initial_tasks := (initial_tasks s)[i := []]\<rparr>)"

definition on_stat :: "nat \<Rightarrow> (worker_stat \<Rightarrow> worker_stat) \<Rightarrow> scheduler \<Rightarrow> scheduler" where
  "on_stat i f s = s\<lparr>worker_stats := (worker_stats s)[i := f (worker_stats s ! i)]\<rparr>"

definition on_context :: "nat \<Rightarrow> (worker_context \<Rightarrow> worker_context) \<Rightarrow> scheduler \<Rightarrow> scheduler" where
  "on_context i f s = s\<lparr>contexts := (contexts s)[i := f (contexts s ! i)]\<rparr>"

text \<open>What \<^verbatim>\<open>execute_task\<close> does besides running the task, whose exceptions it catches.\<close>

definition execute_task :: "nat \<Rightarrow> scheduler \<Rightarrow> scheduler" where
  "execute_task i s =
     (let s = (if busy_working (contexts s ! i) then s
               else on_stat i (\<lambda>st. st\<lparr>stat_wakeup_run := stat_wakeup_run st + 1\<rparr>) s);
          s = on_context i (\<lambda>c. c\<lparr>busy_working := True\<rparr>) s
      in on_stat i (\<lambda>st. st\<lparr>stat_count := stat_count st + 1\<rparr>) s)"

datatype queue_kind = Local_Queue | Sticky_Queue

fun queue_of :: "queue_kind \<Rightarrow> scheduler \<Rightarrow> basic_queue list" where
  "queue_of Local_Queue s = local_queues s"
| "queue_of Sticky_Queue s = sticky_task_queues s"

fun set_queue :: "queue_kind \<Rightarrow> nat \<Rightarrow> basic_queue \<Rightarrow> scheduler \<Rightarrow> scheduler" where
  "set_queue Local_Queue i q s = s\<lparr>local_queues := (local_queues s)[i := q]\<rparr>"
| "set_queue Sticky_Queue i q s = s\<lparr>sticky_task_queues := (sticky_task_queues s)[i := q]\<rparr>"

text \<open>\<^verbatim>\<open>stop\<close> deactivates the queues one after the other.\<close>

definition stop_queue :: "queue_kind \<Rightarrow> nat \<Rightarrow> scheduler \<Rightarrow> scheduler" where
  "stop_queue k i s = set_queue k i (queue_deactivate (queue_of k s ! i)) s"

text \<open>Worker \<open>i\<close> takes a task of the queue of worker \<open>j\<close> and executes it.\<close>

definition try_process :: "(task list \<Rightarrow> nat) \<Rightarrow> queue_kind \<Rightarrow> nat \<Rightarrow> nat \<Rightarrow> scheduler \<Rightarrow> task option \<times> scheduler" where
  "try_process front k j i s =
     (let q = queue_of k s ! j in
      if queue_active q then
        (case queue_try_pop front q of
           Some (t, q) \<Rightarrow> (Some t, execute_task i (set_queue k j q s))
         | None \<Rightarrow> (None, s))
      else (None, s))"

text \<open>One check of the worker's own queues; a sticky task is counted.\<close>

definition try_own :: "(task list \<Rightarrow> nat) \<Rightarrow> queue_kind \<Rightarrow> nat \<Rightarrow> scheduler \<Rightarrow> task option \<times> scheduler" where
  "try_own front k i s = (case try_process front k i i s of
     (Some t, s) \<Rightarrow> (Some t, if k = Sticky_Queue then on_stat i (\<lambda>st. st\<lparr>stat_sticky := stat_sticky st + 1\<rparr>) s else s)
   | (None, s) \<Rightarrow> (None, s))"

text \<open>The order of the checks of \<^verbatim>\<open>try_local_and_sticky\<close>.\<close>

definition begin_try :: "nat \<Rightarrow> scheduler \<Rightarrow> queue_kind list \<times> scheduler" where
  "begin_try i s = (case count_up (local_first_notifier (contexts s ! i)) of
     (b, p) \<Rightarrow> (if b then [Local_Queue, Sticky_Queue] else [Sticky_Queue, Local_Queue],
       on_context i (\<lambda>c. c\<lparr>local_first_notifier := p\<rparr>) s))"

text \<open>One turn of the loop of \<^verbatim>\<open>steal_and_execute\<close>, with the count of \<^verbatim>\<open>process_next\<close>.\<close>

definition try_steal :: "(task list \<Rightarrow> nat) \<Rightarrow> nat \<Rightarrow> nat \<Rightarrow> scheduler \<Rightarrow> task option \<times> scheduler" where
  "try_steal front j i s = (case try_process front Local_Queue j i s of
     (Some t, s) \<Rightarrow> (Some t, on_stat i (\<lambda>st. st\<lparr>stat_steal := stat_steal st + 1\<rparr>)
        (on_context i (\<lambda>c. c\<lparr>last_steal_from := j\<rparr>) s))
   | (None, s) \<Rightarrow> (None, s))"

section \<open>Conditional tasks\<close>

text \<open>
  A pass of the watcher over the queue, without tasks that arrive meanwhile: \<open>check\<close> gives the
  answer of a condition, an exception counting as false; the result are the tasks that were run, whether
  some are left, and the queue.
\<close>

function conditional_pass :: "('c list \<Rightarrow> nat) \<Rightarrow> ('c \<Rightarrow> bool result) \<Rightarrow> 'c list \<Rightarrow> 'c list \<Rightarrow> 'c list \<Rightarrow> 'c list \<times> 'c list" where
  "conditional_pass front check q negatives runs = (case pop_list front q of
     None \<Rightarrow> (runs, negatives)
   | Some (t, q') \<Rightarrow>
       if check t = Inr True then conditional_pass front check q' negatives (runs @ [t])
       else conditional_pass front check q' (negatives @ [t]) runs)"
  by pat_completeness auto
termination
  by (relation "measure (\<lambda>(front, check, q, negatives, runs). length q)") (auto dest: pop_list_Some(2))

definition watcher_process_next :: "('c list \<Rightarrow> nat) \<Rightarrow> ('c \<Rightarrow> bool result) \<Rightarrow> 'c list \<Rightarrow> bool \<times> 'c list \<times> 'c list" where
  "watcher_process_next front check q = (case conditional_pass front check q [] [] of
     (runs, negatives) \<Rightarrow> (negatives \<noteq> [], runs, negatives))"

definition schedule_conditional :: "'c \<Rightarrow> 'c list \<Rightarrow> thread_control \<Rightarrow> 'c list \<times> thread_control" where
  "schedule_conditional t q watcher = (q @ [t], activate watcher)"

declare suspended_from.simps [simp del] move_initial.simps [simp del] conditional_pass.simps [simp del]

end
