(* ===== verification/Scheduler_Run.thy ===== *)
theory Scheduler_Run
  imports Task_Scheduler
begin

text \<open>
  The task scheduler at work: the loop of a worker (\<^verbatim>\<open>worker::operator()\<close> with \<^verbatim>\<open>process_next\<close>,
  \<^verbatim>\<open>steal_and_execute\<close> and \<^verbatim>\<open>suspend_worker_if_needed\<close>, in the thread body of \<^verbatim>\<open>thread_control\<close>)
  cut at its accesses to shared state, in every interleaving with threads that schedule tasks and
  with start and stop. Between the push of a task and the activation of the worker's thread other
  threads may run. The invariants of every reachable state: no task is lost or
  run twice, sticky tasks stay on their worker, and a worker that has found its queues empty is woken
  up for every task that comes. The take-over of the tasks given before the start is one step, as is
  the push of a task with the test of the started flag, which only start and stop change.
  \<^verbatim>\<open>print_diagnostic\<close> is left out: it takes the tasks out of the queues to print them and puts them
  back, so that the counts below hold only between its calls.
\<close>

section \<open>The loop of a worker\<close>

datatype worker_pc =
    Created
  | Waiting_Start
  | Loop_Head
  | Checking "queue_kind list" nat
  | Stealing nat nat
  | Not_Found
  | At_Suspend
  | Asleep
  | Finished

definition on_thread :: "nat \<Rightarrow> (thread_control \<Rightarrow> thread_control) \<Rightarrow> scheduler \<Rightarrow> scheduler" where
  "on_thread i f s = s\<lparr>threads := (threads s)[i := f (threads s ! i)]\<rparr>"

text \<open>
  \<open>Checking ks n\<close>: the queues still to be checked in this \<^verbatim>\<open>try_local_and_sticky\<close>, and the further
  tries before stealing. \<open>Stealing j end\<close>: the next queue to steal from, and where the round ends.
\<close>

definition tries_before_stealing :: "scheduler \<Rightarrow> nat" where
  "tries_before_stealing s =
     (if stealing_enabled (ts_cfg s) then stealing_wait (ts_cfg s) * thread_count (ts_cfg s) else 0)"

fun worker_turn :: "(task list \<Rightarrow> nat) \<Rightarrow> nat \<Rightarrow> worker_pc \<Rightarrow> nat \<Rightarrow> scheduler \<Rightarrow>
    (worker_pc \<times> nat \<times> task option \<times> scheduler) option" where
  "worker_turn front i Created e s =
     Some (Waiting_Start, e, None, on_thread i (\<lambda>t. t\<lparr>initialized := True\<rparr>) (worker_init front i s))"
| "worker_turn front i Waiting_Start e s =
     (if activate_requested (threads s ! i)
      then Some (Loop_Head, 0, None, on_context i (\<lambda>c. c\<lparr>last_steal_from := i\<rparr>) (on_thread i suspend_end s))
      else None)"
| "worker_turn front i Loop_Head e s =
     (if queue_active (sticky_task_queues s ! i) \<or> queue_active (local_queues s ! i)
      then (case begin_try i s of (ks, s) \<Rightarrow> Some (Checking ks (tries_before_stealing s), e, None, s))
      else Some (Finished, e, None, on_thread i (\<lambda>t. t\<lparr>completed := True, thread_active := False\<rparr>) s))"
| "worker_turn front i (Checking (k # ks) n) e s = (case try_own front k i s of
     (Some t, s) \<Rightarrow> Some (Loop_Head, 0, Some t, s)
   | (None, s) \<Rightarrow> Some (Checking ks n, e, None, s))"
| "worker_turn front i (Checking [] (Suc n)) e s = (case begin_try i s of (ks, s) \<Rightarrow> Some (Checking ks n, e, None, s))"
| "worker_turn front i (Checking [] 0) e s =
     (if stealing_enabled (ts_cfg s)
      then (let j = next_index (last_steal_from (contexts s ! i)) (length (local_queues s)) in
        Some (Stealing j j, e, None, s))
      else Some (Not_Found, e, None, s))"
| "worker_turn front i (Stealing j end_index) e s = (case try_steal front j i s of
     (Some t, s) \<Rightarrow> Some (Loop_Head, 0, Some t, s)
   | (None, s) \<Rightarrow>
       (let j' = next_index j (length (local_queues s)) in
        Some (if j' = end_index then Not_Found else Stealing j' end_index, e, None, s)))"
| "worker_turn front i Not_Found e s =
     (if \<not> queue_active (sticky_task_queues s ! i) \<and> \<not> queue_active (local_queues s ! i)
      then Some (Finished, e, None, on_thread i (\<lambda>t. t\<lparr>completed := True, thread_active := False\<rparr>) s)
      else if busy_worker (ts_cfg s) then Some (Loop_Head, e, None, s)
      else if e + 1 > worker_try_count (ts_cfg s)
      then Some (At_Suspend, 0, None, on_stat i (\<lambda>st. st\<lparr>stat_suspend := stat_suspend st + 1\<rparr>)
        (on_context i (\<lambda>c. c\<lparr>busy_working := False\<rparr>) s))
      else Some (Loop_Head, e + 1, None, s))"
| "worker_turn front i At_Suspend e s = (case suspend_begin (threads s ! i) of
     (waits, t) \<Rightarrow> Some (if waits then Asleep else Loop_Head, e, None, on_thread i (\<lambda>_. t) s))"
| "worker_turn front i Asleep e s =
     (if activate_requested (threads s ! i) then Some (Loop_Head, e, None, on_thread i suspend_end s) else None)"
| "worker_turn front i Finished e s = None"

text \<open>
  A run: the scheduler, the worker threads, the calls of \<^verbatim>\<open>activate\<close> that are due, three records
  of the past (the tasks given before the start and after it, each with its worker, and the tasks
  executed, each with the worker that did), and how far \<^verbatim>\<open>start\<close> has come.
\<close>

record ts_run =
  sched :: scheduler
  pcs :: "worker_pc list"
  empties :: "nat list"
  activating :: "nat list"
  early :: "(nat \<times> task) list"
  given :: "(nat \<times> task) list"
  executed :: "(nat \<times> task) list"
  start_next :: nat

definition new_run :: "task_scheduler_cfg \<Rightarrow> ts_run" where
  "new_run cfg = \<lparr>sched = new_scheduler cfg, pcs = replicate (thread_count cfg) Created,
     empties = replicate (thread_count cfg) 0, activating = [], early = [], given = [], executed = [],
     start_next = 0\<rparr>"

definition all_inactive :: "scheduler \<Rightarrow> bool" where
  "all_inactive s \<longleftrightarrow> (\<forall>q \<in> set (local_queues s) \<union> set (sticky_task_queues s). \<not> queue_active q)"

inductive ts_step :: "(task list \<Rightarrow> nat) \<Rightarrow> ts_run \<Rightarrow> ts_run \<Rightarrow> bool" for front where
  turn: "i < length (pcs r) \<Longrightarrow> worker_turn front i (pcs r ! i) (empties r ! i) (sched r) = Some (pc, e, t, s) \<Longrightarrow>
    ts_step front r (r\<lparr>sched := s, pcs := (pcs r)[i := pc], empties := (empties r)[i := e],
      executed := executed r @ (case t of None \<Rightarrow> [] | Some t \<Rightarrow> [(i, t)])\<rparr>)"
| timeout: "i < length (pcs r) \<Longrightarrow> pcs r ! i = Asleep \<Longrightarrow>
    ts_step front r (r\<lparr>sched := on_thread i suspend_end (sched r), pcs := (pcs r)[i := Loop_Head]\<rparr>)"
| selected: "ts_step front r (r\<lparr>sched := snd (snd (select_worker policy own (sched r)))\<rparr>)"
| placed: "i < thread_count (ts_cfg (sched r)) \<Longrightarrow> schedule_at t i (sched r) = (act, s) \<Longrightarrow>
    ts_step front r (r\<lparr>sched := s, activating := (if act then [i] else []) @ activating r,
      early := early r @ (if started (sched r) then [] else [(i, t)]),
      given := given r @ (if started (sched r) then [(i, t)] else [])\<rparr>)"
| activated: "i \<in> set (activating r) \<Longrightarrow>
    ts_step front r (r\<lparr>sched := activate_at i (sched r), activating := remove1 i (activating r)\<rparr>)"
| started: "\<forall>t \<in> set (threads (sched r)). initialized t \<Longrightarrow> start_next r \<le> length (threads (sched r)) \<Longrightarrow>
    ts_step front r (r\<lparr>sched := scheduler_start (start_next r) (sched r), start_next := Suc (start_next r)\<rparr>)"
| stopped: "i < length (pcs r) \<Longrightarrow> ts_step front r (r\<lparr>sched := stop_queue k i (sched r)\<rparr>)"
| stop_activates: "all_inactive (sched r) \<Longrightarrow> ts_step front r (r\<lparr>sched := activate_at i (sched r)\<rparr>)"
| stop_ends: "\<forall>t \<in> set (threads (sched r)). completed t \<Longrightarrow>
    ts_step front r (r\<lparr>sched := (sched r)\<lparr>started := False\<rparr>\<rparr>)"

section \<open>Invariants\<close>

definition bag :: "basic_queue list \<Rightarrow> task multiset" where
  "bag qs = mset (concat (map origin qs))"

definition held_tasks :: "scheduler \<Rightarrow> task multiset" where
  "held_tasks s = bag (local_queues s) + bag (sticky_task_queues s) + mset (concat (initial_tasks s))"

definition tasks_of :: "(nat \<times> task) list \<Rightarrow> task multiset" where
  "tasks_of xs = mset (map snd xs)"

text \<open>No task is lost or run twice.\<close>

definition conserved :: "ts_run \<Rightarrow> bool" where
  "conserved r \<longleftrightarrow> tasks_of (early r) + tasks_of (given r) = tasks_of (executed r) + held_tasks (sched r) \<and>
     mset (concat (initial_tasks (sched r))) \<subseteq># tasks_of (early r)"

definition sized :: "ts_run \<Rightarrow> bool" where
  "sized r \<longleftrightarrow> (let s = sched r; n = thread_count (ts_cfg s) in
     length (local_queues s) = n \<and> length (sticky_task_queues s) = n \<and> length (threads s) = n \<and>
     length (initial_tasks s) = n \<and> length (contexts s) = n \<and> length (pcs r) = n \<and>
     (\<forall>i < n. last_steal_from (contexts s ! i) < n \<and> (\<forall>j m. pcs r ! i = Stealing j m \<longrightarrow> j < n)))"

definition staged :: "ts_run \<Rightarrow> bool" where
  "staged r \<longleftrightarrow> (\<forall>i < length (pcs r).
     (pcs r ! i = Created \<longrightarrow> origin (local_queues (sched r) ! i) = [] \<and> origin (sticky_task_queues (sched r) ! i) = [] \<and>
        \<not> initialized (threads (sched r) ! i) \<and> \<not> scheduler.started (sched r)) \<and>
     (completed (threads (sched r) ! i) \<longrightarrow> pcs r ! i = Finished))"

definition located :: "ts_run \<Rightarrow> bool" where
  "located r \<longleftrightarrow> (\<forall>i < length (pcs r).
     (\<forall>t \<in> set (origin (sticky_task_queues (sched r) ! i)). (i, t) \<in> set (early r @ given r)) \<and>
     (\<forall>t \<in> set (origin (local_queues (sched r) ! i)). \<not> sticky t) \<and>
     (\<forall>t \<in> set (initial_tasks (sched r) ! i). (i, t) \<in> set (early r))) \<and>
   (\<forall>(j, t) \<in> set (executed r). sticky t \<longrightarrow> (j, t) \<in> set (early r @ given r))"

text \<open>The queues a worker has found without a task since it last took an activation.\<close>

fun seen :: "queue_kind \<Rightarrow> worker_pc \<Rightarrow> bool" where
  "seen k (Checking ks n) \<longleftrightarrow> k \<notin> set ks"
| "seen k (Stealing j m) \<longleftrightarrow> True"
| "seen k Not_Found \<longleftrightarrow> True"
| "seen k At_Suspend \<longleftrightarrow> True"
| "seen k Asleep \<longleftrightarrow> True"
| "seen k _ \<longleftrightarrow> False"

definition pending :: "nat \<Rightarrow> ts_run \<Rightarrow> bool" where
  "pending i r \<longleftrightarrow> activate_requested (threads (sched r) ! i) \<or> i \<in> set (activating r)"

definition awake :: "ts_run \<Rightarrow> bool" where
  "awake r \<longleftrightarrow> (\<forall>k. \<forall>i < length (pcs r). seen k (pcs r ! i) \<longrightarrow> queue_active (queue_of k (sched r) ! i) \<longrightarrow>
     origin (queue_of k (sched r) ! i) \<noteq> [] \<longrightarrow> \<not> busy_worker (ts_cfg (sched r)) \<longrightarrow> pending i r)"


section \<open>What the parts of a turn change\<close>

lemma queues_after_bookkeeping [simp]:
  "queue_of k (on_stat i f s) = queue_of k s" "queue_of k (on_context i g s) = queue_of k s"
  "queue_of k (on_thread i h s) = queue_of k s" "queue_of k (execute_task i s) = queue_of k s"
  by (cases k; simp add: on_stat_def on_context_def on_thread_def execute_task_def Let_def)+

lemma fields_after_bookkeeping [simp]:
  "threads (on_stat i f s) = threads s" "threads (on_context i g s) = threads s" "threads (execute_task i s) = threads s"
  "initial_tasks (on_stat i f s) = initial_tasks s" "initial_tasks (on_context i g s) = initial_tasks s"
  "initial_tasks (execute_task i s) = initial_tasks s" "initial_tasks (on_thread i h s) = initial_tasks s"
  "started (on_stat i f s) = started s" "started (on_context i g s) = started s" "started (execute_task i s) = started s"
  "started (on_thread i h s) = started s"
  "ts_cfg (on_stat i f s) = ts_cfg s" "ts_cfg (on_context i g s) = ts_cfg s" "ts_cfg (execute_task i s) = ts_cfg s"
  "ts_cfg (on_thread i h s) = ts_cfg s"
  by (simp_all add: on_stat_def on_context_def on_thread_def execute_task_def Let_def)

lemma fields_after_set_queue [simp]:
  "threads (set_queue k j q s) = threads s" "initial_tasks (set_queue k j q s) = initial_tasks s"
  "started (set_queue k j q s) = started s" "ts_cfg (set_queue k j q s) = ts_cfg s"
  "queue_of k' (set_queue k j q s) = (if k' = k then (queue_of k s)[j := q] else queue_of k' s)"
  by (cases k; simp; cases k'; simp)+

definition quiet :: "scheduler \<Rightarrow> scheduler \<Rightarrow> bool" where
  "quiet s s' \<longleftrightarrow> (\<forall>k. queue_of k s' = queue_of k s) \<and> initial_tasks s' = initial_tasks s \<and>
     started s' = started s \<and> ts_cfg s' = ts_cfg s"

definition takes :: "queue_kind \<Rightarrow> nat \<Rightarrow> task \<Rightarrow> scheduler \<Rightarrow> scheduler \<Rightarrow> bool" where
  "takes k j t s s' \<longleftrightarrow> (\<exists>ts. mset (origin (queue_of k s ! j)) = add_mset t (mset ts) \<and>
     (\<forall>k'. queue_of k' s' = (if k' = k then (queue_of k s)[j := (queue_of k s ! j)\<lparr>origin := ts\<rparr>] else queue_of k' s))) \<and>
     threads s' = threads s \<and> initial_tasks s' = initial_tasks s \<and> started s' = started s \<and> ts_cfg s' = ts_cfg s"

lemma try_process_cases:
  assumes "try_process front k j i s = (ot, s')"
  obtains (none) "ot = None" "s' = s" "queue_active (queue_of k s ! j) \<Longrightarrow> origin (queue_of k s ! j) = []"
  | (some) t where "ot = Some t" "takes k j t s s'"
proof (cases "queue_active (queue_of k s ! j) \<and> origin (queue_of k s ! j) \<noteq> []")
  case True
  then obtain t ts where p: "pop_list front (origin (queue_of k s ! j)) = Some (t, ts)"
    by (cases "pop_list front (origin (queue_of k s ! j))") auto
  then have "ot = Some t" "s' = execute_task i (set_queue k j ((queue_of k s ! j)\<lparr>origin := ts\<rparr>) s)"
    using assms True by (auto simp: try_process_def queue_try_pop_def)
  then show ?thesis
    using pop_list_Some(1) [OF p] by (intro some) (auto simp: takes_def)
next
  case False
  then show ?thesis
    using assms by (intro none) (auto simp: try_process_def queue_try_pop_def Let_def split: if_splits)
qed

lemma takes_bookkeeping [simp]:
  "takes k j t s (on_stat i f s') \<longleftrightarrow> takes k j t s s'" "takes k j t s (on_context i g s') \<longleftrightarrow> takes k j t s s'"
  by (simp_all add: takes_def)

lemma try_own_cases:
  assumes "try_own front k i s = (ot, s')"
  obtains (none) "ot = None" "s' = s" "queue_active (queue_of k s ! i) \<Longrightarrow> origin (queue_of k s ! i) = []"
  | (some) t where "ot = Some t" "takes k i t s s'"
proof -
  obtain o1 s1 where p: "try_process front k i i s = (o1, s1)" by fastforce
  then show ?thesis
    by (cases rule: try_process_cases)
      (use assms p in \<open>auto simp: try_own_def intro: none some split: if_splits\<close>)
qed

lemma try_steal_cases:
  assumes "try_steal front j i s = (ot, s')"
  obtains (none) "ot = None" "s' = s"
  | (some) t where "ot = Some t" "takes Local_Queue j t s s'"
proof -
  obtain o1 s1 where p: "try_process front Local_Queue j i s = (o1, s1)" by fastforce
  then show ?thesis
    by (cases rule: try_process_cases) (use assms p in \<open>auto simp: try_steal_def intro: none some\<close>)
qed

lemma begin_try_quiet:
  "begin_try i s = (ks, s') \<Longrightarrow> quiet s s' \<and> threads s' = threads s \<and> set ks = {Local_Queue, Sticky_Queue}"
  by (auto simp: begin_try_def quiet_def split: prod.splits if_splits)

lemma quiet_bookkeeping [simp]:
  "quiet s s" "quiet s (on_stat i f s')  \<longleftrightarrow> quiet s s'" "quiet s (on_context i g s') \<longleftrightarrow> quiet s s'"
  "quiet s (on_thread i h s') \<longleftrightarrow> quiet s s'"
  by (simp_all add: quiet_def)

text \<open>A turn after the initialisation either takes no task and leaves the queues, or takes one.\<close>

lemma worker_turn_cases:
  assumes "worker_turn front i pc e s = Some (pc', e', ot, s')" "pc \<noteq> Created"
  obtains (none) "ot = None" "quiet s s'" "pc' \<noteq> Created"
  | (some) k j t where "ot = Some t" "takes k j t s s'" "j = i \<or> k = Local_Queue \<and> (\<exists>m. pc = Stealing j m)" "pc' = Loop_Head"
  using assms
proof (cases rule: worker_turn.cases [of "(front, i, pc, e, s)"])
  case (4 front' i' k ks n e2 s2)
  obtain o1 s1 where p: "try_own front k i s = (o1, s1)" by fastforce
  then show ?thesis
    by (cases rule: try_own_cases) (use assms 4 p in \<open>auto intro: none some\<close>)
next
  case (7 front' i' j m e2 s2)
  obtain o1 s1 where p: "try_steal front j i s = (o1, s1)" by fastforce
  then show ?thesis
    by (cases rule: try_steal_cases) (use assms 7 p in \<open>auto simp: Let_def intro: none some split: if_splits\<close>)
qed (use assms none in \<open>auto simp: Let_def dest: begin_try_quiet split: if_splits prod.splits\<close>)


lemma mset_concat_update:
  assumes "i < length xs"
  shows "mset (concat (map f (xs[i := x]))) + mset (f (xs ! i)) = mset (concat (map f xs)) + mset (f x)"
proof -
  have "xs = take i xs @ xs ! i # drop (Suc i) xs"
    using assms by (rule id_take_nth_drop)
  then have "mset (concat (map f xs)) = mset (concat (map f (take i xs @ xs ! i # drop (Suc i) xs)))"
    by simp
  moreover have "xs[i := x] = take i xs @ x # drop (Suc i) xs"
    using assms by (rule upd_conv_take_nth_drop)
  ultimately show ?thesis by simp
qed

lemma bag_update:
  "i < length qs \<Longrightarrow> bag (qs[i := q]) + mset (origin (qs ! i)) = bag qs + mset (origin q)"
  unfolding bag_def by (rule mset_concat_update)

lemma initial_update:
  "i < length xs \<Longrightarrow> mset (concat (xs[i := x])) + mset (xs ! i) = mset (concat xs) + mset x"
  using mset_concat_update [where f = "\<lambda>ts. ts"] by simp

lemma held_queues: "held_tasks s = bag (queue_of Local_Queue s) + bag (queue_of Sticky_Queue s) + mset (concat (initial_tasks s))"
  by (simp add: held_tasks_def)

lemma quiet_held: "quiet s s' \<Longrightarrow> held_tasks s' = held_tasks s"
  by (simp add: quiet_def held_queues)

lemma takes_held:
  assumes "takes k j t s s'" "j < length (queue_of k s)"
  shows "held_tasks s = add_mset t (held_tasks s')"
proof -
  obtain ts where ts: "mset (origin (queue_of k s ! j)) = add_mset t (mset ts)"
    "\<And>k'. queue_of k' s' = (if k' = k then (queue_of k s)[j := (queue_of k s ! j)\<lparr>origin := ts\<rparr>] else queue_of k' s)"
    "initial_tasks s' = initial_tasks s"
    using assms(1) by (auto simp: takes_def)
  have "bag (queue_of k s') + add_mset t (mset ts) = bag (queue_of k s) + mset ts"
    using bag_update [OF assms(2), of "(queue_of k s ! j)\<lparr>origin := ts\<rparr>"] ts(1,2) by simp
  then have "bag (queue_of k s) = add_mset t (bag (queue_of k s'))"
    by simp
  then show ?thesis
    using ts(2,3) by (cases k) (simp_all add: held_queues)
qed

lemma move_initial_moves:
  "move_initial front ts q sq = (q', sq') \<Longrightarrow>
   mset (origin q') + mset (origin sq') = mset ts + mset (origin q) + mset (origin sq) \<and>
   set (origin q') \<subseteq> set (origin q) \<union> {t \<in> set ts. \<not> sticky t} \<and> set (origin sq') \<subseteq> set (origin sq) \<union> set ts \<and>
   queue_active q' = queue_active q \<and> queue_active sq' = queue_active sq"
proof (induction front ts q sq arbitrary: q' sq' rule: move_initial.induct)
  case (1 front ts q sq)
  show ?case
  proof (cases "pop_list front ts")
    case None
    with 1(3) show ?thesis by (simp add: move_initial.simps)
  next
    case (Some a)
    obtain t ts' where a: "a = (t, ts')" by fastforce
    note m = pop_list_Some(1) [OF Some [unfolded a]]
    have "set ts = insert t (set ts')"
      using mset_eq_setD [of ts "t # ts'"] m by simp
    then show ?thesis
      using 1(1) [OF Some a [symmetric]] 1(2) [OF Some a [symmetric]] 1(3) m Some a
      by (auto simp: queue_push_def move_initial.simps [of front ts] split: if_splits)
  qed
qed


lemma contexts_after [simp]:
  "contexts (on_stat i f s) = contexts s" "contexts (on_thread i h s) = contexts s" "contexts (set_queue k j q s) = contexts s"
  "contexts (on_context i g s) = (contexts s)[i := g (contexts s ! i)]"
  "contexts (execute_task i s) = (contexts s)[i := (contexts s ! i)\<lparr>busy_working := True\<rparr>]"
  by (cases k; simp add: on_stat_def on_context_def on_thread_def execute_task_def Let_def)+

definition steals :: "nat \<Rightarrow> nat \<Rightarrow> scheduler \<Rightarrow> scheduler \<Rightarrow> bool" where
  "steals i j s s' \<longleftrightarrow> length (contexts s') = length (contexts s) \<and>
     (\<forall>m. last_steal_from (contexts s' ! m) \<in> {last_steal_from (contexts s ! m), j})"

lemma steals_bookkeeping [simp]:
  "steals i j s (on_stat m f s') \<longleftrightarrow> steals i j s s'" "steals i j s (on_thread m h s') \<longleftrightarrow> steals i j s s'"
  "steals i j s s" "steals i j s (on_context i (\<lambda>c. c\<lparr>busy_working := b\<rparr>) s)"
  "steals i j s (on_context i (\<lambda>c. c\<lparr>last_steal_from := j\<rparr>) s)"
  "steals i j s (on_context i (\<lambda>c. c\<lparr>local_first_notifier := p\<rparr>) s)"
  by (simp_all add: steals_def nth_update_if)

lemma steals_trans: "steals i j s s' \<Longrightarrow> steals i j s' s'' \<Longrightarrow> steals i j s s''"
  unfolding steals_def by (metis insert_iff singletonD)

lemma try_process_steals: "try_process front k j i s = (ot, s') \<Longrightarrow> steals i n s s'"
  by (auto simp: try_process_def steals_def Let_def nth_update_if split: option.splits prod.splits if_splits)

lemma try_own_steals: "try_own front k i s = (ot, s') \<Longrightarrow> steals i n s s'"
  by (auto simp: try_own_def dest: try_process_steals split: option.splits prod.splits if_splits)

lemma try_steal_steals: "try_steal front j i s = (ot, s') \<Longrightarrow> steals i j s s'"
  by (auto simp: try_steal_def dest!: try_process_steals [where n = j] intro: steals_trans
      split: option.splits prod.splits if_splits)

lemma begin_try_steals: "begin_try i s = (ks, s') \<Longrightarrow> steals i j s s'"
  by (auto simp: begin_try_def split: prod.splits)

lemma worker_init_contexts [simp]: "contexts (worker_init front i s) = contexts s" "threads (worker_init front i s) = threads s"
  by (simp_all add: worker_init_def split: prod.split)

lemma steals_at_start:
  "steals i j s (worker_init front i s)" "steals i j s (on_context i (\<lambda>c. c\<lparr>last_steal_from := j\<rparr>) (on_thread i h s))"
  by (simp_all add: steals_def nth_update_if)

lemma worker_turn_contexts:
  assumes "worker_turn front i pc e s = Some (pc', e', ot, s')"
  shows "steals i (case pc of Stealing j m \<Rightarrow> j | _ \<Rightarrow> i) s s'"
  using assms
  by (cases rule: worker_turn.cases [of "(front, i, pc, e, s)"])
    (auto simp: Let_def steals_at_start
      dest: begin_try_steals try_own_steals try_steal_steals split: if_splits prod.splits option.splits)

lemma threads_on_thread [simp]: "threads (on_thread i f s) = (threads s)[i := f (threads s ! i)]"
  by (simp add: on_thread_def)

lemma try_threads:
  "try_process front k j i s = (ot, s') \<Longrightarrow> threads s' = threads s"
  "try_own front k i s = (ot, s') \<Longrightarrow> threads s' = threads s"
  "try_steal front j i s = (ot, s') \<Longrightarrow> threads s' = threads s"
proof -
  show process: "threads s' = threads s" if "try_process front k j i s = (ot, s')" for ot s' k j
    using that by (cases rule: try_process_cases) (auto simp: takes_def)
  show "try_own front k i s = (ot, s') \<Longrightarrow> threads s' = threads s"
    by (auto simp: try_own_def dest: process split: option.splits prod.splits if_splits)
  show "try_steal front j i s = (ot, s') \<Longrightarrow> threads s' = threads s"
    by (auto simp: try_steal_def dest: process split: option.splits prod.splits if_splits)
qed

lemma worker_turn_threads:
  assumes "worker_turn front i pc e s = Some (pc', e', ot, s')"
  obtains th where "threads s' = (threads s)[i := th]" "completed th \<Longrightarrow> completed (threads s ! i) \<or> pc' = Finished"
    "pc \<noteq> Created \<Longrightarrow> initialized th = initialized (threads s ! i)"
    "seen k pc' \<Longrightarrow> activate_requested th = activate_requested (threads s ! i)"
  using assms
  by (cases rule: worker_turn.cases [of "(front, i, pc, e, s)"])
    (auto simp: Let_def suspend_begin_def suspend_end_def intro: that [of "threads s ! i"] that
      dest!: try_threads begin_try_quiet split: if_splits prod.splits option.splits)

lemma takes_shrinks:
  assumes "takes k j t s s'"
  shows "set (origin (queue_of k' s' ! m)) \<subseteq> set (origin (queue_of k' s ! m))"
    "queue_active (queue_of k' s' ! m) = queue_active (queue_of k' s ! m)"
    "length (queue_of k' s') = length (queue_of k' s)" "t \<in> set (origin (queue_of k s ! j))"
proof -
  obtain ts where ts: "mset (origin (queue_of k s ! j)) = add_mset t (mset ts)"
    "\<And>k'. queue_of k' s' = (if k' = k then (queue_of k s)[j := (queue_of k s ! j)\<lparr>origin := ts\<rparr>] else queue_of k' s)"
    using assms by (auto simp: takes_def)
  have "set (origin (queue_of k s ! j)) = insert t (set ts)"
    using mset_eq_setD [of "origin (queue_of k s ! j)" "t # ts"] ts(1) by simp
  then show "set (origin (queue_of k' s' ! m)) \<subseteq> set (origin (queue_of k' s ! m))"
    "queue_active (queue_of k' s' ! m) = queue_active (queue_of k' s ! m)"
    "length (queue_of k' s') = length (queue_of k' s)" "t \<in> set (origin (queue_of k s ! j))"
    by (auto simp: ts(2) nth_update_if split: if_splits)
qed


section \<open>Every step keeps the invariants\<close>

lemma quiet_fields:
  assumes "quiet s s'"
  shows "local_queues s' = local_queues s" "sticky_task_queues s' = sticky_task_queues s"
  using assms unfolding quiet_def by (metis queue_of.simps)+

lemma worker_turn_lengths:
  assumes "worker_turn front i pc e s = Some (pc', e', ot, s')"
  shows "length (queue_of k s') = length (queue_of k s) \<and> length (initial_tasks s') = length (initial_tasks s) \<and>
    ts_cfg s' = ts_cfg s \<and> started s' = started s"
proof (cases "pc = Created")
  case True
  with assms show ?thesis
    by (cases k) (auto simp: worker_init_def on_thread_def split: prod.splits)
next
  case False
  with assms show ?thesis
    by (cases rule: worker_turn_cases) (auto simp: quiet_def dest: takes_shrinks(3), auto simp: takes_def)
qed

lemma next_index_less: "j < n \<Longrightarrow> next_index j n < n"
  by (auto simp: next_index_def)

lemma worker_turn_stealing:
  assumes "worker_turn front i pc e s = Some (Stealing j' m, e', ot, s')" "i < length (contexts s)"
    "length (local_queues s) = n" "last_steal_from (contexts s ! i) < n" "\<And>j m. pc = Stealing j m \<Longrightarrow> j < n"
  shows "j' < n"
  using assms
  by (cases rule: worker_turn.cases [of "(front, i, pc, e, s)"])
    (auto simp: Let_def next_index_less split: if_splits prod.splits option.splits elim!: try_steal_cases)

lemma sized_turn:
  assumes "sized r" "i < length (pcs r)"
    "worker_turn front i (pcs r ! i) (empties r ! i) (sched r) = Some (pc, e, ot, s)"
  shows "sized (r\<lparr>sched := s, pcs := (pcs r)[i := pc], empties := es, executed := xs\<rparr>)"
proof -
  note lens = worker_turn_lengths [OF assms(3)]
  from worker_turn_threads [OF assms(3)] have th: "length (threads s) = length (threads (sched r))"
    by (metis length_list_update)
  let ?j = "case pcs r ! i of Stealing j m \<Rightarrow> j | _ \<Rightarrow> i" and ?n = "thread_count (ts_cfg (sched r))"
  have "?j < ?n"
    using assms(1,2) by (auto simp: sized_def Let_def split: worker_pc.splits)
  then obtain j where j: "j < ?n" "steals i j (sched r) s"
    using worker_turn_contexts [OF assms(3)] by blast
  have ctx: "length (contexts s) = length (contexts (sched r))"
    using j(2) by (simp add: steals_def)
  have last: "last_steal_from (contexts s ! m) < ?n" if "m < ?n" for m
  proof -
    have "last_steal_from (contexts s ! m) \<in> {last_steal_from (contexts (sched r) ! m), j}"
      using j(2) by (simp add: steals_def)
    then show ?thesis
      using j(1) assms(1) that by (auto simp: sized_def Let_def)
  qed
  have aim: "j' < ?n" if "pc = Stealing j' m" for j' m
    using assms(1,2) by (intro worker_turn_stealing [OF assms(3) [unfolded that]]) (auto simp: sized_def Let_def)
  then have aims: "\<forall>j'. (\<exists>m. pc = Stealing j' m) \<longrightarrow> j' < ?n"
    by blast
  show ?thesis
    using assms(1,2) lens [of Local_Queue] lens [of Sticky_Queue] th ctx last aims
    unfolding sized_def Let_def by (simp add: nth_update_if)
qed


lemma worker_init_queues:
  assumes "i < length (local_queues s)" "i < length (sticky_task_queues s)" "i < length (initial_tasks s)"
  obtains q sq where "queue_of Local_Queue (worker_init front i s) = (local_queues s)[i := q]"
    "queue_of Sticky_Queue (worker_init front i s) = (sticky_task_queues s)[i := sq]"
    "initial_tasks (worker_init front i s) = (initial_tasks s)[i := []]"
    "mset (origin q) + mset (origin sq) = mset (initial_tasks s ! i)"
    "\<forall>t \<in> set (origin q). \<not> sticky t" "set (origin sq) \<subseteq> set (initial_tasks s ! i)"
    "queue_active q = queue_active (local_queues s ! i)" "queue_active sq = queue_active (sticky_task_queues s ! i)"
proof -
  obtain q sq where m: "move_initial front (initial_tasks s ! i) (queue_reconstruct (local_queues s ! i))
      (queue_reconstruct (sticky_task_queues s ! i)) = (q, sq)"
    by fastforce
  have "mset (origin q) + mset (origin sq) = mset (initial_tasks s ! i)"
    "\<forall>t \<in> set (origin q). \<not> sticky t" "set (origin sq) \<subseteq> set (initial_tasks s ! i)"
    "queue_active q = queue_active (local_queues s ! i)" "queue_active sq = queue_active (sticky_task_queues s ! i)"
    using move_initial_moves [OF m] by (auto simp: queue_reconstruct_def)
  then show ?thesis
    by (intro that [of q sq]) (simp_all add: worker_init_def m)
qed

lemma worker_turn_queues:
  assumes "worker_turn front i pc e s = Some (pc', e', ot, s')" "i < length (local_queues s)"
    "i < length (sticky_task_queues s)" "i < length (initial_tasks s)"
  shows "pc \<noteq> Created \<or> m \<noteq> i \<Longrightarrow> set (origin (queue_of k s' ! m)) \<subseteq> set (origin (queue_of k s ! m))"
    "queue_active (queue_of k s' ! m) = queue_active (queue_of k s ! m)" "pc' \<noteq> Created"
proof -
  consider "pc = Created" "s' = on_thread i (\<lambda>t. t\<lparr>initialized := True\<rparr>) (worker_init front i s)" "pc' = Waiting_Start"
    | "pc \<noteq> Created"
    using assms(1) by (cases "pc = Created") auto
  then have "(pc \<noteq> Created \<or> m \<noteq> i \<longrightarrow> set (origin (queue_of k s' ! m)) \<subseteq> set (origin (queue_of k s ! m))) \<and>
    queue_active (queue_of k s' ! m) = queue_active (queue_of k s ! m) \<and> pc' \<noteq> Created"
  proof cases
    case 1
    obtain q sq where "queue_of Local_Queue (worker_init front i s) = (local_queues s)[i := q]"
      "queue_of Sticky_Queue (worker_init front i s) = (sticky_task_queues s)[i := sq]"
      "queue_active q = queue_active (local_queues s ! i)" "queue_active sq = queue_active (sticky_task_queues s ! i)"
      using worker_init_queues [OF assms(2-4)] by metis
    with 1 show ?thesis
      by (cases k) (auto simp: nth_update_if)
  next
    case 2
    from assms(1) 2 show ?thesis
      by (cases rule: worker_turn_cases) (auto simp: quiet_def dest: takes_shrinks(1,2))
  qed
  then show "pc \<noteq> Created \<or> m \<noteq> i \<Longrightarrow> set (origin (queue_of k s' ! m)) \<subseteq> set (origin (queue_of k s ! m))"
    "queue_active (queue_of k s' ! m) = queue_active (queue_of k s ! m)" "pc' \<noteq> Created"
    by blast+
qed

lemma begin_try_all: "begin_try i s = (ks, s') \<Longrightarrow> k \<in> set ks"
  by (cases k) (auto dest: begin_try_quiet)

lemma worker_turn_seen:
  assumes "worker_turn front i pc e s = Some (pc', e', ot, s')" "seen k pc'"
  shows "pc \<noteq> Created \<and> (seen k pc \<or> (queue_active (queue_of k s ! i) \<longrightarrow> origin (queue_of k s ! i) = []))"
proof (cases rule: worker_turn.cases [of "(front, i, pc, e, s)"])
  case (4 front' i' k' ks n e2 s2)
  obtain o1 s1 where p: "try_own front k' i s = (o1, s1)" by fastforce
  then show ?thesis
    by (cases rule: try_own_cases) (use assms 4 p in auto)
next
  case (7 front' i' j m e2 s2)
  then show ?thesis by simp
qed (use assms in \<open>auto dest: begin_try_all [where k = k] split: if_splits prod.splits\<close>)

lemma sized_bounds:
  assumes "sized r" "i < length (pcs r)"
  shows "i < length (local_queues (sched r))" "i < length (sticky_task_queues (sched r))"
    "i < length (initial_tasks (sched r))" "i < length (threads (sched r))" "i < length (queue_of k (sched r))"
  using assms by (cases k; simp add: sized_def Let_def)+


lemma staged_turn:
  assumes "sized r" "staged r" "i < length (pcs r)"
    "worker_turn front i (pcs r ! i) (empties r ! i) (sched r) = Some (pc, e, ot, s)"
  shows "staged (r\<lparr>sched := s, pcs := (pcs r)[i := pc], empties := es, executed := xs\<rparr>)"
proof -
  note b = sized_bounds [OF assms(1,3)]
  note q = worker_turn_queues [OF assms(4) b(1-3)]
  obtain th where th: "threads s = (threads (sched r))[i := th]"
    "completed th \<Longrightarrow> completed (threads (sched r) ! i) \<or> pc = Finished"
    using worker_turn_threads [OF assms(4)] by metis
  have "started s = started (sched r)"
    using worker_turn_lengths [OF assms(4)] by blast
  moreover have "completed th \<longrightarrow> pc = Finished"
  proof -
    have "pcs r ! i \<noteq> Finished"
      using assms(4) by auto
    then have "\<not> completed (threads (sched r) ! i)"
      using assms(2,3) by (auto simp: staged_def)
    then show ?thesis
      using th(2) by blast
  qed
  moreover have "origin (local_queues s ! m) = [] \<and> origin (sticky_task_queues s ! m) = []"
    if "m \<noteq> i" "origin (local_queues (sched r) ! m) = []" "origin (sticky_task_queues (sched r) ! m) = []" for m
    using q(1) [of m Local_Queue] q(1) [of m Sticky_Queue] that by simp
  ultimately show ?thesis
    using assms(2,3) q(3) th(1) b(4) unfolding staged_def by (simp add: nth_update_if)
qed

lemma conserved_turn:
  assumes "sized r" "staged r" "conserved r" "i < length (pcs r)"
    "worker_turn front i (pcs r ! i) (empties r ! i) (sched r) = Some (pc, e, ot, s)"
  shows "conserved (r\<lparr>sched := s, pcs := ps, empties := es,
    executed := executed r @ (case ot of None \<Rightarrow> [] | Some t \<Rightarrow> [(i, t)])\<rparr>)"
proof (cases "pcs r ! i = Created")
  case True
  note b = sized_bounds [OF assms(1,4)]
  have s: "s = on_thread i (\<lambda>t. t\<lparr>initialized := True\<rparr>) (worker_init front i (sched r))" "ot = None"
    using assms(5) True by auto
  obtain q sq where q: "queue_of Local_Queue s = (local_queues (sched r))[i := q]"
    "queue_of Sticky_Queue s = (sticky_task_queues (sched r))[i := sq]"
    "initial_tasks s = (initial_tasks (sched r))[i := []]"
    "mset (origin q) + mset (origin sq) = mset (initial_tasks (sched r) ! i)"
    by (rule worker_init_queues [OF b(1-3), of front]) (use s in simp)
  have empty: "origin (local_queues (sched r) ! i) = []" "origin (sticky_task_queues (sched r) ! i) = []"
    using True assms(2,4) by (simp_all add: staged_def)
  have i: "mset (concat (initial_tasks s)) + mset (initial_tasks (sched r) ! i) = mset (concat (initial_tasks (sched r)))"
    using initial_update [OF b(3), of "[]"] q(3) by simp
  have "held_tasks s = held_tasks (sched r)"
    using bag_update [OF b(1), of q] bag_update [OF b(2), of sq] q(1-3) empty i [folded q(4)]
    by (simp add: held_queues ac_simps)
  moreover have "mset (concat (initial_tasks s)) \<subseteq># mset (concat (initial_tasks (sched r)))"
    using i by (metis mset_subset_eq_add_left)
  ultimately show ?thesis
    using assms(3) s(2) by (auto simp: conserved_def intro: subset_mset.order_trans)
next
  case False
  from assms(5) False show ?thesis
  proof (cases rule: worker_turn_cases)
    case none
    then show ?thesis
      using assms(3) quiet_held by (auto simp: conserved_def quiet_def)
  next
    case (some k j t)
    have "j < length (queue_of k (sched r))"
      using assms(1,4) some(3) by (cases k) (auto simp: sized_def Let_def)
    from takes_held [OF some(2) this] show ?thesis
      using assms(3) some(1,2) by (auto simp: conserved_def tasks_of_def takes_def)
  qed
qed


lemma awake_turn:
  assumes "sized r" "awake r" "i < length (pcs r)"
    "worker_turn front i (pcs r ! i) (empties r ! i) (sched r) = Some (pc, e, ot, s)"
  shows "awake (r\<lparr>sched := s, pcs := (pcs r)[i := pc], empties := es, executed := xs\<rparr>)"
  unfolding awake_def
proof (intro allI impI, simp)
  fix k m
  assume m: "m < length (pcs r)" "seen k ((pcs r)[i := pc] ! m)" "queue_active (queue_of k s ! m)"
    "origin (queue_of k s ! m) \<noteq> []" "\<not> busy_worker (ts_cfg s)"
  note b = sized_bounds [OF assms(1,3)]
  note q = worker_turn_queues [OF assms(4) b(1-3)]
  obtain th where th: "threads s = (threads (sched r))[i := th]"
    "seen k pc \<Longrightarrow> activate_requested th = activate_requested (threads (sched r) ! i)"
    using worker_turn_threads [OF assms(4)] by metis
  have busy: "\<not> busy_worker (ts_cfg (sched r))"
    using m(5) worker_turn_lengths [OF assms(4)] by metis
  have act: "queue_active (queue_of k (sched r) ! m)"
    using m(3) q(2) by simp
  have "pending m r"
  proof (cases "m = i")
    case True
    then have pc: "seen k pc"
      using m(1,2) by simp
    note seen = worker_turn_seen [OF assms(4) pc]
    then have "origin (queue_of k (sched r) ! i) \<noteq> []"
      using q(1) [of i k] m(4) True by auto
    then show ?thesis
      using assms(2,3) seen act busy True unfolding awake_def by blast
  next
    case False
    then have "seen k (pcs r ! m)" "origin (queue_of k (sched r) ! m) \<noteq> []"
      using m(2,4) q(1) [of m k] by auto
    then show ?thesis
      using assms(2) m(1) act busy unfolding awake_def by blast
  qed
  then show "pending m (r\<lparr>sched := s, pcs := (pcs r)[i := pc], empties := es, executed := xs\<rparr>)"
    using th m(1,2) b(4) by (auto simp: pending_def nth_update_if split: if_splits)
qed

lemma located_turn:
  assumes "sized r" "located r" "i < length (pcs r)"
    "worker_turn front i (pcs r ! i) (empties r ! i) (sched r) = Some (pc, e, ot, s)"
  shows "located (r\<lparr>sched := s, pcs := (pcs r)[i := pc], empties := es,
    executed := executed r @ (case ot of None \<Rightarrow> [] | Some t \<Rightarrow> [(i, t)])\<rparr>)"
proof (cases "pcs r ! i = Created")
  case True
  note b = sized_bounds [OF assms(1,3)]
  have s: "s = on_thread i (\<lambda>t. t\<lparr>initialized := True\<rparr>) (worker_init front i (sched r))" "ot = None"
    using assms(4) True by auto
  obtain q sq where q: "queue_of Local_Queue s = (local_queues (sched r))[i := q]"
    "queue_of Sticky_Queue s = (sticky_task_queues (sched r))[i := sq]"
    "initial_tasks s = (initial_tasks (sched r))[i := []]"
    "\<forall>t \<in> set (origin q). \<not> sticky t" "set (origin sq) \<subseteq> set (initial_tasks (sched r) ! i)"
    by (rule worker_init_queues [OF b(1-3), of front]) (use s in simp)
  then show ?thesis
    using assms(2,3) s(2) b unfolding located_def by (auto simp: nth_update_if)
next
  case False
  from assms(4) False show ?thesis
  proof (cases rule: worker_turn_cases)
    case none
    then show ?thesis
      using assms(2) quiet_fields [OF none(2)] by (simp add: located_def quiet_def)
  next
    case (some k j t)
    note sh = takes_shrinks [OF some(2)]
    have init: "initial_tasks s = initial_tasks (sched r)"
      using some(2) by (simp add: takes_def)
    have "j < length (pcs r)"
      using assms(1,3) some(3) by (auto simp: sized_def Let_def)
    then have "sticky t \<longrightarrow> (i, t) \<in> set (early r @ given r)"
      using assms(2,3) some(3) sh(4) unfolding located_def by (cases k) auto
    then show ?thesis
      using assms(2) some(1) init sh(1) [of Local_Queue] sh(1) [of Sticky_Queue] unfolding located_def by fastforce
  qed
qed


definition ts_inv :: "ts_run \<Rightarrow> bool" where
  "ts_inv r \<longleftrightarrow> sized r \<and> staged r \<and> conserved r \<and> located r \<and> awake r"

lemma inv_sched:
  assumes "ts_inv r" "local_queues s = local_queues (sched r)" "sticky_task_queues s = sticky_task_queues (sched r)"
    "initial_tasks s = initial_tasks (sched r)" "ts_cfg s = ts_cfg (sched r)" "contexts s = contexts (sched r)"
    "length (threads s) = length (threads (sched r))"
    "\<And>m. m < length (pcs r) \<Longrightarrow> initialized (threads s ! m) = initialized (threads (sched r) ! m) \<and>
       completed (threads s ! m) = completed (threads (sched r) ! m)"
    "\<And>m. m < length (pcs r) \<Longrightarrow> started s \<Longrightarrow> pcs r ! m \<noteq> Created"
    "\<And>m k. m < length (pcs r) \<Longrightarrow> pending m r \<Longrightarrow> seen k (pcs r ! m) \<Longrightarrow> pending m (r\<lparr>sched := s, activating := as\<rparr>)"
  shows "ts_inv (r\<lparr>sched := s, activating := as\<rparr>)"
proof -
  have q: "queue_of k s = queue_of k (sched r)" for k
    using assms(2,3) by (cases k) auto
  have "awake (r\<lparr>sched := s, activating := as\<rparr>)"
    using assms(1,10) unfolding awake_def ts_inv_def by (simp add: q assms(5))
  moreover have "staged (r\<lparr>sched := s, activating := as\<rparr>)"
    using assms(1,8,9) unfolding staged_def ts_inv_def by (simp add: assms(2,3)) blast
  ultimately show ?thesis
    using assms(1) by (simp add: ts_inv_def sized_def conserved_def located_def held_tasks_def Let_def assms(2-7))
qed

lemma inv_turn:
  assumes "ts_inv r" "i < length (pcs r)"
    "worker_turn front i (pcs r ! i) (empties r ! i) (sched r) = Some (pc, e, t, s)"
  shows "ts_inv (r\<lparr>sched := s, pcs := (pcs r)[i := pc], empties := (empties r)[i := e],
    executed := executed r @ (case t of None \<Rightarrow> [] | Some t \<Rightarrow> [(i, t)])\<rparr>)"
proof -
  have "sized r" "staged r" "conserved r" "located r" "awake r"
    using assms(1) by (simp_all add: ts_inv_def)
  then show ?thesis
    unfolding ts_inv_def using assms(2,3)
    by (intro conjI sized_turn staged_turn conserved_turn located_turn awake_turn)
qed

lemma inv_wakes:
  assumes "ts_inv r" "i < length (pcs r)" "pcs r ! i = Asleep"
  shows "ts_inv (r\<lparr>sched := on_thread i suspend_end (sched r), pcs := (pcs r)[i := Loop_Head]\<rparr>)"
proof -
  let ?r = "r\<lparr>pcs := (pcs r)[i := Loop_Head]\<rparr>"
  have inv: "sized r" "staged r" "conserved r" "located r" "awake r"
    using assms(1) by (simp_all add: ts_inv_def)
  have "sized ?r"
    using inv(1) unfolding sized_def Let_def by (simp add: nth_update_if)
  moreover have "staged ?r"
    using inv(2) assms(2,3) unfolding staged_def by (auto simp: nth_update_if)
  moreover have "conserved ?r" "located ?r"
    using inv(3,4) unfolding conserved_def located_def by simp_all
  moreover have "awake ?r"
    using inv(5) unfolding awake_def pending_def by (simp add: nth_update_if)
  ultimately have "ts_inv ?r"
    by (simp add: ts_inv_def)
  then have "ts_inv (?r\<lparr>sched := on_thread i suspend_end (sched ?r), activating := activating ?r\<rparr>)"
    using assms by (intro inv_sched)
      (auto simp: on_thread_def suspend_end_def pending_def nth_update_if ts_inv_def staged_def split: if_splits)
  then show ?thesis by (cases r) simp
qed

lemma select_worker_frame:
  "local_queues (snd (snd (select_worker policy own s))) = local_queues s"
  "sticky_task_queues (snd (snd (select_worker policy own s))) = sticky_task_queues s"
  "initial_tasks (snd (snd (select_worker policy own s))) = initial_tasks s"
  "ts_cfg (snd (snd (select_worker policy own s))) = ts_cfg s"
  "contexts (snd (snd (select_worker policy own s))) = contexts s"
  "threads (snd (snd (select_worker policy own s))) = threads s"
  "started (snd (snd (select_worker policy own s))) = started s"
  by (auto simp: select_worker_def preferred_worker_def next_worker_def Let_def split: option.split)

lemma inv_selected: "ts_inv r \<Longrightarrow> ts_inv (r\<lparr>sched := snd (snd (select_worker policy own (sched r)))\<rparr>)"
  using inv_sched [of r "snd (snd (select_worker policy own (sched r)))" "activating r"]
  by (simp add: select_worker_frame pending_def) (auto simp: ts_inv_def staged_def)

lemma activate_fields [simp]:
  "initialized (activate t) = initialized t" "completed (activate t) = completed t"
  by (simp_all add: activate_def)

lemma inv_activate:
  assumes "ts_inv r" "set (activating r) \<subseteq> insert i (set as)"
  shows "ts_inv (r\<lparr>sched := activate_at i (sched r), activating := as\<rparr>)"
proof (rule inv_sched [OF assms(1)])
  fix m k
  assume m: "m < length (pcs r)" "pending m r" "seen k (pcs r ! m)"
  then have "\<not> completed (threads (sched r) ! m)" "m < length (threads (sched r))"
    using assms(1) by (auto simp: ts_inv_def staged_def sized_def Let_def)
  then show "pending m (r\<lparr>sched := activate_at i (sched r), activating := as\<rparr>)"
    using m(2) assms(2) by (auto simp: pending_def activate_at_def activate_def nth_update_if)
qed (use assms(1) in \<open>auto simp: activate_at_def nth_update_if ts_inv_def staged_def\<close>)

lemma inv_start_next: "ts_inv r \<Longrightarrow> ts_inv (r\<lparr>start_next := m\<rparr>)"
  by (simp add: ts_inv_def sized_def staged_def conserved_def located_def awake_def pending_def)

lemma inv_start:
  assumes "ts_inv r" "\<forall>t \<in> set (threads (sched r)). initialized t"
  shows "ts_inv (r\<lparr>sched := scheduler_start m (sched r), start_next := k\<rparr>)"
proof -
  have len: "m < length (threads (sched r))" if "m < length (pcs r)" for m
    using assms(1) that by (simp add: ts_inv_def sized_def Let_def)
  have "pcs r ! m \<noteq> Created" if "m < length (pcs r)" for m
    using assms len [OF that] that unfolding ts_inv_def staged_def by (metis nth_mem)
  then have "ts_inv (r\<lparr>sched := (sched r)\<lparr>started := True\<rparr>, activating := activating r\<rparr>)"
    by (intro inv_sched [OF assms(1)]) (auto simp: pending_def)
  then have "ts_inv (r\<lparr>sched := scheduler_start m (sched r)\<rparr>)"
    using inv_activate [OF assms(1), of m "activating r"] by (auto simp: scheduler_start_def)
  from inv_start_next [OF this] show ?thesis by simp
qed

text \<open>A task given before the start waits aside; later it is put into a queue.\<close>

lemma schedule_at_cases:
  assumes "schedule_at t i s = (act, s')"
  obtains (aside) "\<not> started s" "\<not> act" "s' = s\<lparr>initial_tasks := (initial_tasks s)[i := initial_tasks s ! i @ [t]]\<rparr>"
  | (queued) k where "started s" "act \<longleftrightarrow> \<not> busy_worker (ts_cfg s)" "k = Sticky_Queue \<longleftrightarrow> sticky t"
      "s' = set_queue k i (queue_push t (queue_of k s ! i)) s"
  using assms that(1) that(2) [of Local_Queue] that(2) [of Sticky_Queue]
  by (auto simp: schedule_at_def split: if_splits)

lemma inv_aside:
  assumes "ts_inv r" "i < length (pcs r)" "\<not> started (sched r)"
    "s = (sched r)\<lparr>initial_tasks := (initial_tasks (sched r))[i := initial_tasks (sched r) ! i @ [t]]\<rparr>"
  shows "ts_inv (r\<lparr>sched := s, early := early r @ [(i, t)]\<rparr>)"
proof -
  let ?r = "r\<lparr>sched := s, early := early r @ [(i, t)]\<rparr>"
  have inv: "sized r" "staged r" "conserved r" "located r" "awake r"
    using assms(1) by (simp_all add: ts_inv_def)
  note b = sized_bounds [OF inv(1) assms(2)]
  have q: "queue_of k s = queue_of k (sched r)" for k
    by (cases k) (simp_all add: assms(4))
  have i: "mset (concat (initial_tasks s)) = add_mset t (mset (concat (initial_tasks (sched r))))"
    using initial_update [OF b(3), of "initial_tasks (sched r) ! i @ [t]"] by (simp add: assms(4))
  then have "conserved ?r"
    using inv(3) q by (simp add: conserved_def held_queues tasks_of_def)
  moreover have "sized ?r"
    using inv(1) by (simp add: sized_def Let_def assms(4))
  moreover have "staged ?r"
    using inv(2) by (simp add: staged_def assms(4))
  moreover have "awake ?r"
    using inv(5) unfolding awake_def pending_def by (simp add: q) (simp add: assms(4))
  moreover have "located ?r"
    using inv(4) unfolding located_def by (auto simp: assms(4) nth_update_if split: if_splits)
  ultimately show ?thesis
    by (simp add: ts_inv_def)
qed

lemma inv_queued:
  assumes "ts_inv r" "i < length (pcs r)" "started (sched r)" "k = Sticky_Queue \<longleftrightarrow> sticky t"
    "s = set_queue k i (queue_push t (queue_of k (sched r) ! i)) (sched r)"
    "busy_worker (ts_cfg (sched r)) \<or> i \<in> set as" "set (activating r) \<subseteq> set as"
  shows "ts_inv (r\<lparr>sched := s, activating := as, given := given r @ [(i, t)]\<rparr>)"
proof -
  let ?r = "r\<lparr>sched := s, activating := as, given := given r @ [(i, t)]\<rparr>"
  have inv: "sized r" "staged r" "conserved r" "located r" "awake r"
    using assms(1) by (simp_all add: ts_inv_def)
  note b = sized_bounds [OF inv(1) assms(2)]
  have bag: "bag (queue_of k s) = add_mset t (bag (queue_of k (sched r)))"
    using bag_update [OF b(5) [of k], of "queue_push t (queue_of k (sched r) ! i)"] by (simp add: assms(5) queue_push_def)
  have "held_tasks s = add_mset t (held_tasks (sched r))"
    using bag by (cases k) (simp_all add: held_queues assms(5))
  then have "conserved ?r"
    using inv(3) by (simp add: conserved_def tasks_of_def assms(5))
  moreover have "contexts s = contexts (sched r)"
    by (simp add: assms(5))
  then have "sized ?r"
    using inv(1) by (cases k) (simp_all add: sized_def Let_def assms(5))
  moreover have "staged ?r"
    using inv(2) assms(3) by (simp add: staged_def assms(5))
  moreover have "awake ?r"
    using inv(5) assms(6,7) unfolding awake_def pending_def
    by (auto simp: assms(5) nth_update_if queue_push_def split: if_splits)
  moreover have "located ?r"
    using inv(4) b assms(4) unfolding located_def
    by (cases k) (auto simp: assms(5) nth_update_if queue_push_def split: if_splits)
  ultimately show ?thesis
    by (simp add: ts_inv_def)
qed

lemma inv_stop:
  assumes "ts_inv r" "i < length (pcs r)"
  shows "ts_inv (r\<lparr>sched := stop_queue k i (sched r)\<rparr>)"
proof -
  let ?s = "stop_queue k i (sched r)"
  let ?r = "r\<lparr>sched := ?s\<rparr>"
  have inv: "sized r" "staged r" "conserved r" "located r" "awake r"
    using assms(1) by (simp_all add: ts_inv_def)
  note b = sized_bounds [OF inv(1) assms(2)]
  have o: "origin (queue_of k' ?s ! m) = origin (queue_of k' (sched r) ! m)" "length (queue_of k' ?s) = length (queue_of k' (sched r))"
    "queue_active (queue_of k' ?s ! m) \<Longrightarrow> queue_active (queue_of k' (sched r) ! m)" for k' m
    using b(5) [of k] by (auto simp: stop_queue_def queue_deactivate_def nth_update_if split: if_splits)
  note ol = o [of Local_Queue, simplified] o [of Sticky_Queue, simplified]
  have same: "threads ?s = threads (sched r)" "initial_tasks ?s = initial_tasks (sched r)" "ts_cfg ?s = ts_cfg (sched r)"
    "started ?s = started (sched r)" "contexts ?s = contexts (sched r)"
    by (simp_all add: stop_queue_def)
  have "map origin (queue_of k' ?s) = map origin (queue_of k' (sched r))" for k'
    by (rule nth_equalityI) (simp_all add: o)
  then have "bag (queue_of k' ?s) = bag (queue_of k' (sched r))" for k'
    by (simp add: bag_def)
  then have "conserved ?r"
    using inv(3) by (simp add: conserved_def held_queues same del: queue_of.simps)
  moreover have "sized ?r" "staged ?r" "located ?r"
    using inv unfolding sized_def Let_def staged_def located_def by (simp_all add: same ol(1,2,4,5))
  moreover have "awake ?r"
    unfolding awake_def
  proof (intro allI impI)
    fix k' m
    assume m: "m < length (pcs ?r)" "seen k' (pcs ?r ! m)" "queue_active (queue_of k' (sched ?r) ! m)"
      "origin (queue_of k' (sched ?r) ! m) \<noteq> []" "\<not> busy_worker (ts_cfg (sched ?r))"
    have "queue_active (queue_of k' (sched r) ! m)" "origin (queue_of k' (sched r) ! m) \<noteq> []"
      using o(3) [of k' m] o(1) [of k' m] m(3,4) by simp_all
    then have "pending m r"
      using inv(5) m(1,2,5) same(3) unfolding awake_def by simp
    then show "pending m ?r"
      by (simp add: pending_def same)
  qed
  ultimately show ?thesis
    by (simp add: ts_inv_def)
qed

lemma inv_ended: "ts_inv r \<Longrightarrow> ts_inv (r\<lparr>sched := (sched r)\<lparr>started := False\<rparr>\<rparr>)"
  using inv_sched [of r "(sched r)\<lparr>started := False\<rparr>" "activating r"] by (simp add: pending_def)

lemma ts_step_inv:
  assumes "ts_step front r r'" "ts_inv r"
  shows "ts_inv r'"
  using assms(1)
proof cases
  case (placed i t act s)
  have i: "i < length (pcs r)"
    using assms(2) placed(2) by (simp add: ts_inv_def sized_def Let_def)
  from placed(3) show ?thesis
  proof (cases rule: schedule_at_cases)
    case aside
    then show ?thesis
      using inv_aside [OF assms(2) i aside(1,3)] placed(1) by (cases r) simp
  next
    case (queued k)
    then show ?thesis
      using inv_queued [OF assms(2) i queued(1,3,4), of "(if act then [i] else []) @ activating r"] placed(1)
      by (cases r) auto
  qed
next
  case (activated i)
  have "set xs \<subseteq> insert i (set (remove1 i xs))" for xs
    by (induction xs) auto
  then show ?thesis
    using inv_activate [OF assms(2), of i "remove1 i (activating r)"] activated(1) by simp
next
  case (stop_activates i)
  then show ?thesis
    using inv_activate [OF assms(2), of i "activating r"] by auto
qed (use assms(2) inv_turn inv_wakes inv_selected inv_start inv_stop inv_ended in simp_all)

lemma new_run_inv: "ts_inv (new_run cfg)"
proof -
  have "concat (replicate n ([] :: task list)) = []" for n
    by (induction n) auto
  then show ?thesis
    by (auto simp: ts_inv_def sized_def staged_def conserved_def located_def awake_def new_run_def new_scheduler_def
      new_queue_def new_thread_def held_tasks_def bag_def tasks_of_def Let_def map_replicate_const split: prod.split)
qed

lemma reachable_inv:
  assumes "(ts_step front)\<^sup>*\<^sup>* (new_run cfg) r"
  shows "ts_inv r"
  using assms by (induction rule: rtranclp_induct) (auto intro: new_run_inv ts_step_inv)


lemma ts_step_cfg:
  assumes "ts_step front r r'"
  shows "ts_cfg (sched r') = ts_cfg (sched r)"
  using assms
proof cases
  case (turn i pc e t s)
  then show ?thesis
    using worker_turn_lengths [OF turn(3)] by simp
qed (auto simp: schedule_at_def activate_at_def scheduler_start_def stop_queue_def select_worker_frame split: if_splits)

lemma reachable_cfg:
  assumes "(ts_step front)\<^sup>*\<^sup>* (new_run cfg) r"
  shows "ts_cfg (sched r) = cfg"
  using assms
  by (induction rule: rtranclp_induct) (auto simp: new_run_def new_scheduler_def Let_def ts_step_cfg split: prod.split)

end
