(* ===== verification/Scheduler_Properties.thy ===== *)
theory Scheduler_Properties
  imports Scheduler_Run
begin

text \<open>
  Properties of the task scheduler: tasks are run at most once and sticky tasks by their worker, no
  worker sleeps over a task, what happens to tasks that come before the start, which worker a task
  is given to, and which conditional tasks the watcher runs.
\<close>

section \<open>The choice of a worker and the watcher\<close>

lemma suspended_from_bound:
  assumes "base < length ths" "cur < length ths"
  shows "suspended_from ths base cur < length ths"
  using assms
  by (induction ths base cur rule: suspended_from.induct)
    (subst suspended_from.simps, auto simp: Let_def next_index_less)

text \<open>The workers the loop visits from \<open>cur\<close> until it is back at \<open>base\<close>.\<close>

lemma suspended_from_finds:
  assumes "base < length ths" "cur < length ths" "m < length ths" "\<not> thread_active (ths ! m)"
    "if base \<le> cur then cur \<le> m \<or> m < base else cur \<le> m \<and> m < base"
  shows "\<not> thread_active (ths ! suspended_from ths base cur)"
  using assms
proof (induction ths base cur rule: suspended_from.induct)
  case (1 ths base cur)
  let ?next = "next_index cur (length ths)"
  show ?case
  proof (cases "thread_active (ths ! cur)")
    case False
    then show ?thesis by (subst suspended_from.simps) simp
  next
    case True
    then have "m \<noteq> cur"
      using 1(5) by auto
    then have "?next \<noteq> base" "if base \<le> ?next then ?next \<le> m \<or> m < base else ?next \<le> m \<and> m < base"
      using 1(2-4,6) by (auto simp: next_index_def split: if_splits)
    then show ?thesis
      using 1(1) [of ?next] 1(2-6) True by (subst suspended_from.simps) (simp add: Let_def next_index_less)
  qed
qed

lemma suspended_from_all:
  assumes "base < length ths" "cur < length ths" "\<forall>t \<in> set ths. thread_active t"
  shows "suspended_from ths base cur = base"
  using assms
proof (induction ths base cur rule: suspended_from.induct)
  case (1 ths base cur)
  then show ?case
    by (subst suspended_from.simps) (auto simp: Let_def next_index_less)
qed

lemma watcher_runs_ready:
  assumes "watcher_process_next front check q = (left, done_tasks, q')"
  shows "mset done_tasks = filter_mset (\<lambda>t. check t = Inr True) (mset q)"
    "mset q' = filter_mset (\<lambda>t. check t \<noteq> Inr True) (mset q)" "left \<longleftrightarrow> q' \<noteq> []"
proof -
  have pass: "mset a = mset ts + filter_mset (\<lambda>t. check t = Inr True) (mset q) \<and>
      mset b = mset ns + filter_mset (\<lambda>t. check t \<noteq> Inr True) (mset q)"
    if "conditional_pass front check q ns ts = (a, b)" for ns ts a b
    using that
  proof (induction front check q ns ts rule: conditional_pass.induct)
    case (1 front check q ns ts)
    show ?case
    proof (cases "pop_list front q")
      case None
      with 1(3) show ?thesis by (subst (asm) conditional_pass.simps) simp
    next
      case (Some p)
      obtain t q1 where p: "p = (t, q1)" by fastforce
      have "conditional_pass front check q ns ts =
          (if check t = Inr True then conditional_pass front check q1 ns (ts @ [t])
           else conditional_pass front check q1 (ns @ [t]) ts)"
        using Some p by (subst conditional_pass.simps) simp
      then show ?thesis
        using 1(1) [OF Some p [symmetric]] 1(2) [OF Some p [symmetric]] 1(3) Some p pop_list_Some(1) [of front q t q1]
        by (auto split: if_splits)
    qed
  qed
  obtain a b where ab: "conditional_pass front check q [] [] = (a, b)" by fastforce
  then show "mset done_tasks = filter_mset (\<lambda>t. check t = Inr True) (mset q)"
    "mset q' = filter_mset (\<lambda>t. check t \<noteq> Inr True) (mset q)" "left \<longleftrightarrow> q' \<noteq> []"
    using assms pass [OF ab] by (auto simp: watcher_process_next_def)
qed

section \<open>Properties\<close>

text \<open>A concrete run for the examples: one worker, which is given one task after the start.\<close>

definition turn_run :: "nat \<Rightarrow> ts_run \<Rightarrow> ts_run" where
  "turn_run i r =
     (if i < length (pcs r) then
        (case worker_turn (\<lambda>_. 0) i (pcs r ! i) (empties r ! i) (sched r) of
           Some (pc, e, t, s) \<Rightarrow> r\<lparr>sched := s, pcs := (pcs r)[i := pc], empties := (empties r)[i := e],
             executed := executed r @ (case t of None \<Rightarrow> [] | Some t \<Rightarrow> [(i, t)])\<rparr>
         | None \<Rightarrow> r)
      else r)"

lemma turn_run_steps: "(ts_step (\<lambda>_. 0))\<^sup>*\<^sup>* r (turn_run i r)"
proof (cases "i < length (pcs r)")
  case True
  show ?thesis
  proof (cases "worker_turn (\<lambda>_. 0) i (pcs r ! i) (empties r ! i) (sched r)")
    case None
    then show ?thesis by (simp add: turn_run_def)
  next
    case (Some a)
    obtain pc e t s where "a = (pc, e, t, s)" by (cases a)
    then show ?thesis
      using True Some ts_step.turn [of i r "\<lambda>_. 0" pc e t s] by (simp add: turn_run_def)
  qed
qed (simp add: turn_run_def)

primrec turns :: "nat \<Rightarrow> ts_run \<Rightarrow> ts_run" where
  "turns 0 r = r"
| "turns (Suc n) r = turns n (turn_run 0 r)"

lemma turns_steps: "(ts_step (\<lambda>_. 0))\<^sup>*\<^sup>* r (turns n r)"
  by (induction n arbitrary: r) (auto intro: rtranclp_trans turn_run_steps)

definition place_run :: "task \<Rightarrow> nat \<Rightarrow> ts_run \<Rightarrow> ts_run" where
  "place_run t i r =
     (case schedule_at t i (sched r) of (act, s) \<Rightarrow>
        r\<lparr>sched := s, activating := (if act then [i] else []) @ activating r,
          early := early r @ (if started (sched r) then [] else [(i, t)]),
          given := given r @ (if started (sched r) then [(i, t)] else [])\<rparr>)"

definition sample_cfg :: task_scheduler_cfg where
  "sample_cfg = \<lparr>thread_count = 1, stealing_enabled = False, use_preferred_worker = False, ratio_check_local_first = (1, 10),
     stealing_wait = 1, busy_worker = False, worker_try_count = 0\<rparr>"

definition sample_initialized :: ts_run where
  "sample_initialized = turn_run 0 (new_run sample_cfg)"

definition start_run :: "ts_run \<Rightarrow> ts_run" where
  "start_run r = r\<lparr>sched := scheduler_start (start_next r) (sched r), start_next := Suc (start_next r)\<rparr>"

definition sample_started :: "ts_run \<Rightarrow> ts_run" where
  "sample_started r = start_run (start_run r)"

definition sample_given :: ts_run where
  "sample_given = place_run (Task 7 True) 0 (sample_started sample_initialized)"

definition sample_rest :: ts_run where
  "sample_rest = turns 9 (sample_given\<lparr>sched := activate_at 0 (sched sample_given), activating := remove1 0 (activating sample_given)\<rparr>)"

lemma initialized_reached: "(ts_step (\<lambda>_. 0))\<^sup>*\<^sup>* (new_run sample_cfg) sample_initialized"
  unfolding sample_initialized_def by (rule turn_run_steps)

definition start_due :: "ts_run \<Rightarrow> bool" where
  "start_due r \<longleftrightarrow> (\<forall>t \<in> set (threads (sched r)). initialized t) \<and> start_next r \<le> length (threads (sched r))"

lemma started_reached:
  assumes "start_due r" "start_due (start_run r)"
  shows "(ts_step (\<lambda>_. 0))\<^sup>*\<^sup>* r (sample_started r)"
proof -
  have "ts_step (\<lambda>_. 0) r (start_run r)" if "start_due r" for r
    using that unfolding start_run_def start_due_def by (intro ts_step.started) simp_all
  with assms show ?thesis
    unfolding sample_started_def by (meson converse_rtranclp_into_rtranclp r_into_rtranclp)
qed

lemma rest_reached: "(ts_step (\<lambda>_. 0))\<^sup>*\<^sup>* (new_run sample_cfg) sample_rest"
proof -
  let ?s = "sample_started sample_initialized"
  have start: "(ts_step (\<lambda>_. 0))\<^sup>*\<^sup>* sample_initialized ?s"
    by (rule started_reached) code_simp+
  obtain act s where p: "schedule_at (Task 7 True) 0 (sched ?s) = (act, s)" by fastforce
  have "0 < thread_count (ts_cfg (sched ?s))"
    by code_simp
  then have "ts_step (\<lambda>_. 0) ?s sample_given"
    using ts_step.placed [of 0 ?s "Task 7 True" act s] p by (simp add: sample_given_def place_run_def)
  moreover have "0 \<in> set (activating sample_given)"
    by code_simp
  note ts_step.activated [OF this, of "\<lambda>_. 0"]
  moreover note turns_steps [of "sample_given\<lparr>sched := activate_at 0 (sched sample_given),
    activating := remove1 0 (activating sample_given)\<rparr>" 9, folded sample_rest_def]
  ultimately show ?thesis
    using initialized_reached start by (meson rtranclp.rtrancl_into_rtrancl rtranclp_trans)
qed

text \<open>
  C13. In every interleaving no task is run more often than it was given to the scheduler, and a
  sticky task is run only by the worker it was given to.
\<close>

theorem tasks_run_once:
  assumes "(ts_step front)\<^sup>*\<^sup>* (new_run cfg) r"
  shows "tasks_of (executed r) \<subseteq># tasks_of (early r) + tasks_of (given r) \<and>
    (\<forall>(i, t) \<in> set (executed r). sticky t \<longrightarrow> (i, t) \<in> set (early r @ given r))"
proof -
  have "conserved r" "located r"
    using reachable_inv [OF assms] by (simp_all add: ts_inv_def)
  then show ?thesis
    by (simp add: conserved_def located_def)
qed

theorem tasks_run_once_witness:
  "executed sample_rest = [(0, Task 7 True)] \<and> (0, Task 7 True) \<in> set (early sample_rest @ given sample_rest)"
proof -
  have e: "executed sample_rest = [(0, Task 7 True)]"
    by code_simp
  with tasks_run_once [OF rest_reached] show ?thesis
    by simp
qed

text \<open>All workers sleep, nobody is about to wake one up, and the scheduler is not being stopped.\<close>

definition at_rest :: "ts_run \<Rightarrow> bool" where
  "at_rest r \<longleftrightarrow> activating r = [] \<and> (\<forall>i < length (pcs r). pcs r ! i = Asleep \<and> \<not> activate_requested (threads (sched r) ! i) \<and>
     queue_active (local_queues (sched r) ! i) \<and> queue_active (sticky_task_queues (sched r) ! i))"

lemma at_rest_empty:
  assumes "ts_inv r" "at_rest r" "\<not> busy_worker (ts_cfg (sched r))"
  shows "bag (queue_of k (sched r)) = {#}"
proof -
  have "origin (queue_of k (sched r) ! i) = []" if "i < length (queue_of k (sched r))" for i
  proof -
    have i: "i < length (pcs r)"
      using assms(1) that by (cases k) (auto simp: ts_inv_def sized_def Let_def)
    have "queue_active (queue_of k (sched r) ! i)"
      using assms(2) i by (cases k) (auto simp: at_rest_def)
    moreover have "seen k (pcs r ! i)" "\<not> pending i r"
      using assms(2) i by (auto simp: at_rest_def pending_def)
    ultimately show ?thesis
      using assms(1,3) i unfolding ts_inv_def awake_def by blast
  qed
  then show ?thesis
    unfolding bag_def by (auto simp: in_set_conv_nth)
qed

text \<open>
  C14. No worker sleeps over a task: when all workers are asleep and nobody is about to wake one up,
  every task given after the start has been run.
\<close>

theorem rest_means_done:
  assumes "(ts_step front)\<^sup>*\<^sup>* (new_run cfg) r" "\<not> busy_worker cfg" "at_rest r"
  shows "tasks_of (given r) \<subseteq># tasks_of (executed r)"
proof -
  note inv = reachable_inv [OF assms(1)]
  note empty = at_rest_empty [OF inv assms(3) assms(2) [folded reachable_cfg [OF assms(1)]]]
  have "held_tasks (sched r) = mset (concat (initial_tasks (sched r)))"
    using empty [of Local_Queue] empty [of Sticky_Queue] by (simp add: held_queues)
  then have sum: "tasks_of (early r) + tasks_of (given r) = tasks_of (executed r) + mset (concat (initial_tasks (sched r)))"
    and sub: "mset (concat (initial_tasks (sched r))) \<subseteq># tasks_of (early r)"
    using inv by (simp_all add: ts_inv_def conserved_def)
  obtain d where d: "tasks_of (early r) = mset (concat (initial_tasks (sched r))) + d"
    using sub by (auto simp: mset_subset_eq_exists_conv)
  have "tasks_of (executed r) = tasks_of (given r) + d"
    using sum unfolding d by (simp add: ac_simps)
  then show ?thesis
    by simp
qed

theorem rest_means_done_witness:
  "at_rest sample_rest \<and> given sample_rest = [(0, Task 7 True)] \<and> Task 7 True \<in> snd ` set (executed sample_rest)"
proof -
  have rest: "at_rest sample_rest" and g: "given sample_rest = [(0, Task 7 True)]"
    by code_simp+
  have "tasks_of (given sample_rest) \<subseteq># tasks_of (executed sample_rest)"
    by (rule rest_means_done [OF rest_reached _ rest]) code_simp
  then have "set_mset (tasks_of (given sample_rest)) \<subseteq> set_mset (tasks_of (executed sample_rest))"
    by (rule set_mset_mono)
  with rest g show ?thesis
    by (simp add: tasks_of_def)
qed

lemma stranded_step:
  assumes "ts_step front r r'" "ts_inv r" "i < length (pcs r)" "pcs r ! i \<noteq> Created" "t \<in> set (initial_tasks (sched r) ! i)"
  shows "i < length (pcs r') \<and> pcs r' ! i \<noteq> Created \<and> t \<in> set (initial_tasks (sched r') ! i)"
  using assms(1)
proof cases
  case (turn j pc e ot s)
  note b = sized_bounds [of r j]
  have inv: "sized r"
    using assms(2) by (simp add: ts_inv_def)
  have pc: "pc \<noteq> Created"
    using worker_turn_queues(3) [OF turn(3)] b inv turn(2) by blast
  have "initial_tasks s ! i = initial_tasks (sched r) ! i"
  proof (cases "pcs r ! j = Created")
    case True
    then have "j \<noteq> i"
      using assms(4) by blast
    with True show ?thesis
      using turn(3) by (auto simp: worker_init_def on_thread_def split: prod.splits)
  next
    case False
    with turn(3) show ?thesis
      by (cases rule: worker_turn_cases) (auto simp: quiet_def takes_def)
  qed
  with pc show ?thesis
    using assms(3-5) turn(1) by (simp add: nth_update_if)
next
  case (placed j u act s)
  then show ?thesis
    using assms(3-5) by (auto simp: schedule_at_def nth_update_if split: if_splits)
qed (use assms(3-5) in \<open>auto simp: nth_update_if on_thread_def activate_at_def scheduler_start_def stop_queue_def select_worker_frame split: if_splits\<close>)

text \<open>
  C40. A task that is given before the start to a worker whose thread has already taken its initial
  tasks is stranded: in no continuation is it run, also not after the start.
\<close>

theorem early_task_stranded:
  assumes "(ts_step front)\<^sup>*\<^sup>* (new_run cfg) r" "i < thread_count cfg" "pcs r ! i \<noteq> Created" "\<not> started (sched r)"
    "schedule_at t i (sched r) = (act, s)"
    "(ts_step front)\<^sup>*\<^sup>* (r\<lparr>sched := s, early := early r @ [(i, t)]\<rparr>) r'"
  shows "count (tasks_of (executed r')) t < count (tasks_of (early r') + tasks_of (given r')) t"
proof -
  let ?r = "r\<lparr>sched := s, early := early r @ [(i, t)]\<rparr>"
  have inv: "ts_inv r" and i: "i < length (pcs r)"
    using reachable_inv [OF assms(1)] reachable_cfg [OF assms(1)] assms(2) by (auto simp: ts_inv_def sized_def Let_def)
  have s: "s = (sched r)\<lparr>initial_tasks := (initial_tasks (sched r))[i := initial_tasks (sched r) ! i @ [t]]\<rparr>"
    using assms(4,5) by (simp add: schedule_at_def)
  have "ts_inv ?r"
    by (rule inv_aside [OF inv i assms(4) s])
  moreover have "t \<in> set (initial_tasks s ! i)"
    using inv i by (simp add: s ts_inv_def sized_def Let_def)
  ultimately have new: "ts_inv ?r \<and> i < length (pcs ?r) \<and> pcs ?r ! i \<noteq> Created \<and> t \<in> set (initial_tasks (sched ?r) ! i)"
    using i assms(3) by simp
  have "ts_inv r' \<and> i < length (pcs r') \<and> pcs r' ! i \<noteq> Created \<and> t \<in> set (initial_tasks (sched r') ! i)"
    using assms(6) new by (induction rule: rtranclp_induct) (blast intro: ts_step_inv dest: stranded_step)+
  then have "ts_inv r'" "i < length (initial_tasks (sched r'))" "t \<in> set (initial_tasks (sched r') ! i)"
    by (auto simp: ts_inv_def sized_def Let_def)
  moreover from this have "t \<in># mset (concat (initial_tasks (sched r')))"
    by (auto intro!: bexI [of _ "initial_tasks (sched r') ! i"])
  then have "0 < count (held_tasks (sched r')) t"
    by (simp add: held_tasks_def)
  ultimately show ?thesis
    by (simp add: ts_inv_def conserved_def)
qed


theorem early_task_stranded_witness:
  "let r = place_run (Task 3 False) 0 sample_initialized; r' = turns 9 (sample_started r)
   in early r' = [(0, Task 3 False)] \<and> executed r' = [] \<and> at_rest r'"
proof -
  let ?r = "place_run (Task 3 False) 0 sample_initialized"
  let ?r' = "turns 9 (sample_started ?r)"
  obtain act s where p: "schedule_at (Task 3 False) 0 (sched sample_initialized) = (act, s)" by fastforce
  have pre: "0 < thread_count sample_cfg" "pcs sample_initialized ! 0 \<noteq> Created" "\<not> started (sched sample_initialized)"
    by code_simp+
  have r: "?r = sample_initialized\<lparr>sched := s, early := early sample_initialized @ [(0, Task 3 False)]\<rparr>"
    using p pre(3) by (simp add: place_run_def) (auto simp: schedule_at_def)
  have "(ts_step (\<lambda>_. 0))\<^sup>*\<^sup>* ?r (sample_started ?r)"
    by (rule started_reached) code_simp+
  then have "(ts_step (\<lambda>_. 0))\<^sup>*\<^sup>* ?r ?r'"
    by (rule rtranclp_trans) (rule turns_steps)
  note run = this [unfolded r]
  have e: "early ?r' = [(0, Task 3 False)]" and g: "given ?r' = []" and rest: "at_rest ?r'"
    and le: "length (executed ?r') \<le> 1"
    by code_simp+
  have "count (tasks_of (executed ?r')) (Task 3 False) < 1"
    using early_task_stranded [OF initialized_reached pre p run] e g unfolding r by (simp add: tasks_of_def)
  moreover have "executed ?r' = []"
    by code_simp
  ultimately show ?thesis
    using e rest by (simp add: Let_def)
qed


text \<open>
  C29. The worker chosen for a task exists; under the policy for suspended workers it is a suspended
  one whenever there is one, and otherwise the worker after the one the default policy chooses.
\<close>

theorem selected_worker:
  assumes "select_worker policy own s = (i, own', s')" "0 < thread_count (ts_cfg s)" "length (threads s) = thread_count (ts_cfg s)"
    "\<forall>w. own = Some w \<longrightarrow> w < thread_count (ts_cfg s)"
  shows "i < thread_count (ts_cfg s) \<and>
    (policy = Suspended_Worker \<longrightarrow>
      (if \<exists>t \<in> set (threads s). \<not> thread_active t then \<not> thread_active (threads s ! i)
       else i = next_index (fst (select_worker Undefined_Policy own s)) (thread_count (ts_cfg s))))"
proof -
  let ?n = "thread_count (ts_cfg s)"
  obtain d o1 s1 where d: "select_worker Undefined_Policy own s = (d, o1, s1)" by (cases "select_worker Undefined_Policy own s")
  have n: "d < ?n"
    using d assms(2,4)
    by (auto simp: select_worker_def preferred_worker_def next_worker_def split: if_splits option.splits)
  have i: "i = (if policy = Undefined_Policy then d else suspended_from (threads s) (next_index d ?n) (next_index d ?n))"
    using d assms(1)
    by (auto simp: select_worker_def preferred_worker_def next_worker_def Let_def split: if_splits option.splits)
  let ?b = "next_index d ?n"
  have b: "?b < length (threads s)"
    using n assms(3) by (simp add: next_index_less)
  have "\<not> thread_active (threads s ! suspended_from (threads s) ?b ?b)" if some: "\<exists>t \<in> set (threads s). \<not> thread_active t"
  proof -
    obtain m where "m < length (threads s)" "\<not> thread_active (threads s ! m)"
      using some by (auto simp: in_set_conv_nth)
    then show ?thesis
      using b by (intro suspended_from_finds [of _ _ _ m]) auto
  qed
  moreover have "suspended_from (threads s) ?b ?b = ?b" if "\<forall>t \<in> set (threads s). thread_active t"
    using suspended_from_all [OF b b] that by simp
  ultimately show ?thesis
    using i n d b assms(3) suspended_from_bound [OF b b] by (cases policy) auto
qed

theorem selected_worker_witness:
  "\<exists>i own s. select_worker Suspended_Worker None (sched sample_initialized) = (i, own, s) \<and>
     i < 1 \<and> \<not> thread_active (threads (sched sample_initialized) ! i)"
proof -
  let ?s = "sched sample_initialized"
  obtain i own s where e: "select_worker Suspended_Worker None ?s = (i, own, s)"
    by (cases "select_worker Suspended_Worker None ?s")
  have facts: "thread_count (ts_cfg ?s) = 1" "length (threads ?s) = 1" "\<exists>t \<in> set (threads ?s). \<not> thread_active t"
    by code_simp+
  show ?thesis
    using selected_worker [OF e] e facts by auto
qed

end
